(* ===== verification/Satl_Prelude.thy ===== *)
theory Satl_Prelude
  imports Complex_Main "HOL-Library.AList" "HOL-Library.List_Lexorder" "HOL-Library.Char_ord"
    "HOL-Library.Product_Lexorder" "HOL-Library.Option_ord" "HOL-Library.Multiset"
begin

text \<open>
  The vocabulary every component shares: identifiers, clocks and durations, the two map
  containers of the Rust standard library the code uses (\<open>HashMap\<close>, whose iteration order is
  arbitrary, and \<open>BTreeMap\<close>, whose iteration order is that of its keys), the stable sort
  \<open>sort_by\<close>, saturating \<open>i64\<close> arithmetic, and the generic list lemmas the component proofs use.
\<close>

section \<open>Identifiers, clocks, integers\<close>

text \<open>An \<open>Id\<close> is its text; \<open>Id\<close>'s derived order is the order of that text.\<close>

type_synonym id = string

text \<open>A \<open>SystemTime\<close> in nanoseconds since the epoch, a \<open>Duration\<close> in nanoseconds.\<close>

type_synonym system_time = int
type_synonym duration = nat

text \<open>\<open>Result<T, E>\<close>: \<open>Inl\<close> is the error.\<close>

type_synonym ('e, 'a) result = "'e + 'a"

named_theorems order_defs \<open>definitions of the orders of the model's enums\<close>
named_theorems map_simps \<open>lookups in updated containers\<close>

definition i64_min :: int where
  "i64_min = - (2 ^ 63)"

definition i64_max :: int where
  "i64_max = 2 ^ 63 - 1"

definition in_i64 :: "int \<Rightarrow> bool" where
  "in_i64 x \<longleftrightarrow> i64_min \<le> x \<and> x \<le> i64_max"

text \<open>\<open>i64::saturating_add\<close> and \<open>i64::saturating_sub\<close>: the exact result, clamped.\<close>

definition sat64 :: "int \<Rightarrow> int" where
  "sat64 x = max i64_min (min i64_max x)"

definition saturating_add :: "int \<Rightarrow> int \<Rightarrow> int" where
  "saturating_add a b = sat64 (a + b)"

definition saturating_sub :: "int \<Rightarrow> int \<Rightarrow> int" where
  "saturating_sub a b = sat64 (a - b)"

lemma sat64_range [simp]: "in_i64 (sat64 x)"
  by (simp add: sat64_def in_i64_def i64_min_def i64_max_def)

lemma sat64_exact [simp]: "in_i64 x \<Longrightarrow> sat64 x = x"
  by (simp add: sat64_def in_i64_def)

text \<open>\<open>SystemTime::duration_since\<close> with a clock that went backwards read as zero.\<close>

definition duration_since :: "system_time \<Rightarrow> system_time \<Rightarrow> duration" where
  "duration_since now earlier = nat (now - earlier)"

text \<open>Decimal rendering, as \<open>format!\<close> prints an unsigned integer.\<close>

fun show_nat :: "nat \<Rightarrow> string" where
  "show_nat n = (if n < 10 then [char_of (n + 48)] else show_nat (n div 10) @ [char_of (n mod 10 + 48)])"

declare show_nat.simps [simp del]

section \<open>Maps\<close>

text \<open>
  Both containers are association lists with one entry per key, in iteration order. A
  \<open>HashMap\<close> may hold its entries in any order: every statement about one is about every order.
  A \<open>BTreeMap\<close> holds them in the order of the keys. Lookup is \<^const>\<open>map_of\<close> for both.
\<close>

type_synonym ('k, 'v) hash_map = "('k \<times> 'v) list"
type_synonym ('k, 'v) btree_map = "('k \<times> 'v) list"

abbreviation keys_of :: "('k \<times> 'v) list \<Rightarrow> 'k list" where
  "keys_of m \<equiv> map fst m"

abbreviation values_of :: "('k \<times> 'v) list \<Rightarrow> 'v list" where
  "values_of m \<equiv> map snd m"

definition hm_invar :: "('k, 'v) hash_map \<Rightarrow> bool" where
  "hm_invar m \<longleftrightarrow> distinct (keys_of m)"

definition hm_insert :: "'k \<Rightarrow> 'v \<Rightarrow> ('k, 'v) hash_map \<Rightarrow> ('k, 'v) hash_map" where
  "hm_insert k v m = AList.update k v m"

definition hm_remove :: "'k \<Rightarrow> ('k, 'v) hash_map \<Rightarrow> ('k, 'v) hash_map" where
  "hm_remove k m = AList.delete k m"

definition bt_invar :: "('k::linorder, 'v) btree_map \<Rightarrow> bool" where
  "bt_invar m \<longleftrightarrow> sorted_wrt (<) (keys_of m)"

fun bt_insert :: "'k::linorder \<Rightarrow> 'v \<Rightarrow> ('k, 'v) btree_map \<Rightarrow> ('k, 'v) btree_map" where
  "bt_insert k v [] = [(k, v)]"
| "bt_insert k v ((k', v') # m) =
     (if k < k' then (k, v) # (k', v') # m
      else if k = k' then (k, v) # m
      else (k', v') # bt_insert k v m)"

fun bt_remove :: "'k::linorder \<Rightarrow> ('k, 'v) btree_map \<Rightarrow> ('k, 'v) btree_map" where
  "bt_remove k [] = []"
| "bt_remove k ((k', v') # m) = (if k = k' then m else (k', v') # bt_remove k m)"

text \<open>The contract both containers keep, and what every client derives from it.\<close>

locale keyed_map =
  fixes invar :: "('k \<times> 'v) list \<Rightarrow> bool"
    and ins :: "'k \<Rightarrow> 'v \<Rightarrow> ('k \<times> 'v) list \<Rightarrow> ('k \<times> 'v) list"
    and del :: "'k \<Rightarrow> ('k \<times> 'v) list \<Rightarrow> ('k \<times> 'v) list"
  assumes invar_empty: "invar []"
    and invar_ins: "invar m \<Longrightarrow> invar (ins k v m)"
    and invar_del: "invar m \<Longrightarrow> invar (del k m)"
    and invar_distinct: "invar m \<Longrightarrow> distinct (map fst m)"
    and lookup_ins: "invar m \<Longrightarrow> map_of (ins k v m) = (map_of m)(k \<mapsto> v)"
    and lookup_del: "invar m \<Longrightarrow> map_of (del k m) = (map_of m)(k := None)"
begin

lemma mem_iff: "invar m \<Longrightarrow> (k, v) \<in> set m \<longleftrightarrow> map_of m k = Some v"
  by (simp add: invar_distinct)

lemma set_ins: "invar m \<Longrightarrow> set (ins k v m) = insert (k, v) {e \<in> set m. fst e \<noteq> k}"
  by (auto simp: mem_iff invar_ins lookup_ins split: if_splits)

lemma set_del: "invar m \<Longrightarrow> set (del k m) = {e \<in> set m. fst e \<noteq> k}"
  by (auto simp: mem_iff invar_del lookup_del split: if_splits)

lemma values_mem: "invar m \<Longrightarrow> v \<in> set (map snd m) \<longleftrightarrow> (\<exists>k. map_of m k = Some v)"
  by (force simp: invar_distinct)

lemma keys_mem: "invar m \<Longrightarrow> k \<in> set (map fst m) \<longleftrightarrow> map_of m k \<noteq> None"
  by (simp add: map_of_eq_None_iff)

lemma same_lookup_same_entries:
  "invar m \<Longrightarrow> invar m' \<Longrightarrow> map_of m = map_of m' \<Longrightarrow> mset m = mset m'"
proof -
  assume "invar m" "invar m'" "map_of m = map_of m'"
  then have "set m = set m'"
    by (metis invar_distinct map_of_inject_set)
  with \<open>invar m\<close> \<open>invar m'\<close> show ?thesis
    using invar_distinct distinct_map set_eq_iff_mset_eq_distinct by metis
qed

end

lemma hm_lookup_insert [simp, map_simps]: "map_of (hm_insert k v m) = (map_of m)(k \<mapsto> v)"
  by (simp add: hm_insert_def update_conv')

lemma hm_lookup_remove [simp, map_simps]: "map_of (hm_remove k m) = (map_of m)(k := None)"
  by (simp add: hm_remove_def delete_conv')

lemma bt_insert_keys: "set (keys_of (bt_insert k v m)) = insert k (set (keys_of m))"
  by (induction k v m rule: bt_insert.induct) auto

lemma bt_remove_keys: "set (keys_of (bt_remove k m)) \<subseteq> set (keys_of m)"
  by (induction k m rule: bt_remove.induct) auto

lemma bt_insert_invar: "bt_invar m \<Longrightarrow> bt_invar (bt_insert k v m)"
proof (induction k v m rule: bt_insert.induct)
  case (2 k v k' v' m)
  then show ?case
    using bt_insert_keys [of k v m] by (auto simp: bt_invar_def)
qed (simp add: bt_invar_def)

lemma bt_remove_invar: "bt_invar m \<Longrightarrow> bt_invar (bt_remove k m)"
proof (induction k m rule: bt_remove.induct)
  case (2 k k' v' m)
  then show ?case
    using bt_remove_keys [of k m] by (auto simp: bt_invar_def) (metis fst_conv imageE image_eqI subsetD)
qed simp

lemma bt_lookup_insert [map_simps]: "bt_invar m \<Longrightarrow> map_of (bt_insert k v m) = (map_of m)(k \<mapsto> v)"
  by (induction k v m rule: bt_insert.induct) (auto simp: bt_invar_def fun_eq_iff)

lemma bt_lookup_remove [map_simps]: "bt_invar m \<Longrightarrow> map_of (bt_remove k m) = (map_of m)(k := None)"
proof (induction k m rule: bt_remove.induct)
  case (2 k k' v' m)
  then have "map_of m k' = None"
    by (auto simp: bt_invar_def map_of_eq_None_iff)
  with 2 show ?case
    by (auto simp: bt_invar_def fun_eq_iff)
qed simp

interpretation hm: keyed_map hm_invar hm_insert hm_remove
  by unfold_locales (simp_all add: hm_invar_def hm_insert_def hm_remove_def distinct_update
      distinct_delete update_conv' delete_conv')

interpretation bt: keyed_map bt_invar bt_insert bt_remove
  by unfold_locales (simp_all add: bt_insert_invar bt_remove_invar bt_lookup_insert
      bt_lookup_remove, simp_all add: bt_invar_def strict_sorted_iff)

lemma bt_insert_new_mset:
  "map_of m k = None \<Longrightarrow> mset (bt_insert k v m) = add_mset (k, v) (mset m)"
  by (induction k v m rule: bt_insert.induct) (auto split: if_splits)

lemma bt_remove_mset: "map_of m k = Some v \<Longrightarrow> mset m = add_mset (k, v) (mset (bt_remove k m))"
  by (induction k m rule: bt_remove.induct) (auto split: if_splits)

lemma bt_insert_old_mset:
  assumes "bt_invar m" "map_of m k = Some old"
  shows "mset (bt_insert k v m) = add_mset (k, v) (mset (bt_remove k m))"
  using assms
proof (induction k v m rule: bt_insert.induct)
  case (2 k v k' v' m)
  then show ?case
    by (auto simp: bt_invar_def split: if_splits dest!: map_of_SomeD)
qed simp

lemma bt_remove_insert:
  "bt_invar m \<Longrightarrow> map_of m k = None \<Longrightarrow> bt_remove k (bt_insert k v m) = m"
  by (induction k v m rule: bt_insert.induct) (auto simp: bt_invar_def split: if_splits)

lemma bt_insert_insert:
  "bt_invar m \<Longrightarrow> bt_insert k v' (bt_insert k v m) = bt_insert k v' m"
  by (induction k v m rule: bt_insert.induct) (auto simp: bt_invar_def split: if_splits)

lemma bt_insert_same:
  "bt_invar m \<Longrightarrow> map_of m k = Some v \<Longrightarrow> bt_insert k v m = m"
  by (induction k v m rule: bt_insert.induct)
     (auto simp: bt_invar_def split: if_splits dest!: map_of_SomeD)

section \<open>Comparators and the stable sort\<close>

datatype ordering = Less | Equal | Greater

fun reverse_ordering :: "ordering \<Rightarrow> ordering" where
  "reverse_ordering Less = Greater"
| "reverse_ordering Equal = Equal"
| "reverse_ordering Greater = Less"

fun then_with :: "ordering \<Rightarrow> ordering \<Rightarrow> ordering" where
  "then_with Equal o' = o'"
| "then_with Less _ = Less"
| "then_with Greater _ = Greater"

definition cmp :: "'a::linorder \<Rightarrow> 'a \<Rightarrow> ordering" where
  "cmp a b = (if a < b then Less else if a = b then Equal else Greater)"

text \<open>\<open>slice::sort_by\<close>: a stable sort, which keeps equal elements in their order.\<close>

fun insert_by :: "('a \<Rightarrow> 'a \<Rightarrow> ordering) \<Rightarrow> 'a \<Rightarrow> 'a list \<Rightarrow> 'a list" where
  "insert_by c x [] = [x]"
| "insert_by c x (y # ys) = (if c x y = Greater then y # insert_by c x ys else x # y # ys)"

definition sort_by :: "('a \<Rightarrow> 'a \<Rightarrow> ordering) \<Rightarrow> 'a list \<Rightarrow> 'a list" where
  "sort_by c xs = foldr (insert_by c) xs []"

lemma sort_by_simps [simp]:
  "sort_by c [] = []"
  "sort_by c (x # xs) = insert_by c x (sort_by c xs)"
  by (simp_all add: sort_by_def)

lemma mset_insert_by [simp]: "mset (insert_by c x xs) = add_mset x (mset xs)"
  by (induction xs) auto

lemma mset_sort_by [simp]: "mset (sort_by c xs) = mset xs"
  by (induction xs) simp_all

lemma set_sort_by [simp]: "set (sort_by c xs) = set xs"
  by (metis mset_sort_by set_mset_mset)

lemma length_sort_by [simp]: "length (sort_by c xs) = length xs"
  by (metis mset_sort_by size_mset)

lemma distinct_sort_by [simp]: "distinct (sort_by c xs) = distinct xs"
  by (metis mset_sort_by mset_eq_imp_distinct_iff)

text \<open>What \<open>sort_by\<close> asks of its comparator (it may panic on one that is not a total preorder).\<close>

locale total_cmp =
  fixes c :: "'a \<Rightarrow> 'a \<Rightarrow> ordering"
  assumes cmp_reverse: "c y x = reverse_ordering (c x y)"
    and cmp_trans: "c x y \<noteq> Greater \<Longrightarrow> c y z \<noteq> Greater \<Longrightarrow> c x z \<noteq> Greater"
begin

lemma cmp_flip: "c x y = Greater \<Longrightarrow> c y x \<noteq> Greater"
  using cmp_reverse [of x y] by (cases "c x y") auto

lemma sorted_insert_by:
  "sorted_wrt (\<lambda>x y. c x y \<noteq> Greater) ys \<Longrightarrow>
   sorted_wrt (\<lambda>x y. c x y \<noteq> Greater) (insert_by c x ys)"
proof (induction ys)
  case (Cons y ys)
  have mem: "set (insert_by c x ys) = insert x (set ys)"
    by (metis mset_insert_by set_mset_add_mset_insert set_mset_mset)
  show ?case
  proof (cases "c x y = Greater")
    case True
    with Cons cmp_flip [OF True] show ?thesis
      by (simp add: mem)
  next
    case False
    with Cons.prems cmp_trans [OF False] show ?thesis
      by simp
  qed
qed simp

lemma sorted_sort_by: "sorted_wrt (\<lambda>x y. c x y \<noteq> Greater) (sort_by c xs)"
  by (induction xs) (simp_all add: sorted_insert_by)

lemma sort_by_head_least:
  assumes "sort_by c xs = y # ys" and "x \<in> set xs"
  shows "x = y \<or> c y x \<noteq> Greater"
proof -
  have "x = y \<or> x \<in> set ys"
    using assms by (metis set_ConsD set_sort_by)
  then show ?thesis
    using sorted_sort_by [of xs] assms(1) by auto
qed

end

lemma total_cmp_key: "total_cmp (\<lambda>a b. cmp (key a) (key b))"
  by unfold_locales (auto simp: cmp_def split: if_splits)

interpretation lin: total_cmp cmp
  using total_cmp_key [of "\<lambda>x. x"] by simp

section \<open>Lists\<close>

lemma set_map_filter: "y \<in> set (List.map_filter f xs) \<longleftrightarrow> (\<exists>x \<in> set xs. f x = Some y)"
  by (induction xs) (auto simp: map_filter_simps split: option.splits)

lemma no_members: "xs = [] \<longleftrightarrow> (\<forall>x. x \<notin> set xs)"
  by (cases xs) auto

end
