(* ===== verification/Core_State.thy ===== *)
theory Core_State
  imports Satl_Prelude
begin

text \<open>
  \<open>satl-core/src/state.rs\<close> and \<open>satl-core/src/meta.rs\<close>: the observed and the desired state of a
  task, their orders, the monotonicity guard, and the metadata every object carries.
\<close>

section \<open>Observed task state\<close>

datatype task_state =
    New | Pending | Assigned | Accepted | Preparing | Ready | Starting | Running
  | Complete | Shutdown | Failed | Rejected | Remove | Orphaned

primrec task_state_value :: "task_state \<Rightarrow> nat" where
  "task_state_value task_state.New = 0"
| "task_state_value task_state.Pending = 64"
| "task_state_value task_state.Assigned = 192"
| "task_state_value task_state.Accepted = 256"
| "task_state_value task_state.Preparing = 320"
| "task_state_value task_state.Ready = 384"
| "task_state_value task_state.Starting = 448"
| "task_state_value task_state.Running = 512"
| "task_state_value task_state.Complete = 576"
| "task_state_value task_state.Shutdown = 640"
| "task_state_value task_state.Failed = 704"
| "task_state_value task_state.Rejected = 768"
| "task_state_value task_state.Remove = 800"
| "task_state_value task_state.Orphaned = 832"

lemma task_state_value_inj [simp]: "task_state_value a = task_state_value b \<longleftrightarrow> a = b"
  by (cases a; cases b) simp_all

text \<open>The derived \<open>Ord\<close> of the enum compares discriminants.\<close>

instantiation task_state :: linorder
begin

definition less_eq_task_state :: "task_state \<Rightarrow> task_state \<Rightarrow> bool" where
  [order_defs]: "a \<le> b \<longleftrightarrow> task_state_value a \<le> task_state_value b"

definition less_task_state :: "task_state \<Rightarrow> task_state \<Rightarrow> bool" where
  [order_defs]: "a < b \<longleftrightarrow> task_state_value a < task_state_value b"

instance
  by standard (auto simp: less_eq_task_state_def less_task_state_def)

end

datatype invalid_transition = InvalidTransition (from_state: task_state) (to_state: task_state)

definition advance :: "task_state \<Rightarrow> task_state \<Rightarrow> (invalid_transition, task_state) result" where
  "advance current proposed =
     (if proposed < current then Inl (InvalidTransition current proposed) else Inr proposed)"

definition is_terminal :: "task_state \<Rightarrow> bool" where
  "is_terminal s \<longleftrightarrow> (case s of
       task_state.Complete \<Rightarrow> True | task_state.Shutdown \<Rightarrow> True | task_state.Failed \<Rightarrow> True
     | task_state.Rejected \<Rightarrow> True | task_state.Orphaned \<Rightarrow> True | _ \<Rightarrow> False)"

definition task_state_display :: "task_state \<Rightarrow> string" where
  "task_state_display s = (case s of
       task_state.New \<Rightarrow> ''new'' | task_state.Pending \<Rightarrow> ''pending''
     | task_state.Assigned \<Rightarrow> ''assigned'' | task_state.Accepted \<Rightarrow> ''accepted''
     | task_state.Preparing \<Rightarrow> ''preparing'' | task_state.Ready \<Rightarrow> ''ready''
     | task_state.Starting \<Rightarrow> ''starting'' | task_state.Running \<Rightarrow> ''running''
     | task_state.Complete \<Rightarrow> ''complete'' | task_state.Shutdown \<Rightarrow> ''shutdown''
     | task_state.Failed \<Rightarrow> ''failed'' | task_state.Rejected \<Rightarrow> ''rejected''
     | task_state.Remove \<Rightarrow> ''remove'' | task_state.Orphaned \<Rightarrow> ''orphaned'')"

section \<open>Desired state\<close>

datatype desired_state = Ready | Running | Complete | Shutdown | Remove

definition as_task_state :: "desired_state \<Rightarrow> task_state" where
  "as_task_state d = (case d of
       desired_state.Ready \<Rightarrow> task_state.Ready | desired_state.Running \<Rightarrow> task_state.Running
     | desired_state.Complete \<Rightarrow> task_state.Complete
     | desired_state.Shutdown \<Rightarrow> task_state.Shutdown
     | desired_state.Remove \<Rightarrow> task_state.Remove)"

text \<open>The derived \<open>Ord\<close> of the enum: declaration order.\<close>

primrec desired_state_index :: "desired_state \<Rightarrow> nat" where
  "desired_state_index desired_state.Ready = 0"
| "desired_state_index desired_state.Running = 1"
| "desired_state_index desired_state.Complete = 2"
| "desired_state_index desired_state.Shutdown = 3"
| "desired_state_index desired_state.Remove = 4"

lemma desired_state_index_inj [simp]: "desired_state_index a = desired_state_index b \<longleftrightarrow> a = b"
  by (cases a; cases b) simp_all

instantiation desired_state :: linorder
begin

definition less_eq_desired_state :: "desired_state \<Rightarrow> desired_state \<Rightarrow> bool" where
  [order_defs]: "a \<le> b \<longleftrightarrow> desired_state_index a \<le> desired_state_index b"

definition less_desired_state :: "desired_state \<Rightarrow> desired_state \<Rightarrow> bool" where
  [order_defs]: "a < b \<longleftrightarrow> desired_state_index a < desired_state_index b"

instance
  by standard (auto simp: less_eq_desired_state_def less_desired_state_def)

end

section \<open>Ports\<close>

datatype port_protocol = Tcp | Udp

primrec port_protocol_index :: "port_protocol \<Rightarrow> nat" where
  "port_protocol_index Tcp = 0"
| "port_protocol_index Udp = 1"

instantiation port_protocol :: linorder
begin

definition less_eq_port_protocol :: "port_protocol \<Rightarrow> port_protocol \<Rightarrow> bool" where
  [order_defs]: "a \<le> b \<longleftrightarrow> port_protocol_index a \<le> port_protocol_index b"

definition less_port_protocol :: "port_protocol \<Rightarrow> port_protocol \<Rightarrow> bool" where
  [order_defs]: "a < b \<longleftrightarrow> port_protocol_index a < port_protocol_index b"

instance
proof
  show "a \<le> b \<Longrightarrow> b \<le> a \<Longrightarrow> a = b" for a b :: port_protocol
    by (cases a; cases b) (simp_all add: less_eq_port_protocol_def)
qed (auto simp: less_eq_port_protocol_def less_port_protocol_def)

end

datatype publish_mode = Ingress | Host

record port_config =
  port_name :: string
  port_protocol :: port_protocol
  target_port :: nat
  published_port :: nat
  port_publish_mode :: publish_mode

section \<open>Task status\<close>

record container_status =
  jail_id :: "string option"
  jail_pid :: "int option"
  exit_code :: "int option"

record task_status =
  status_timestamp :: system_time
  status_state :: task_state
  status_message :: string
  status_err :: "string option"
  status_container :: "container_status option"
  port_status :: "port_config list"
  applied_by :: "id option"
  applied_at :: "system_time option"

text \<open>\<open>TaskStatus::new\<close>, with the reading of the clock as an argument.\<close>

definition new_task_status :: "system_time \<Rightarrow> task_state \<Rightarrow> string \<Rightarrow> task_status" where
  "new_task_status now s msg = \<lparr>status_timestamp = now, status_state = s,
     status_message = msg, status_err = None, status_container = None, port_status = [], applied_by = None, applied_at = None\<rparr>"

section \<open>Metadata\<close>

text \<open>A \<open>Version\<close> is a Raft log index.\<close>

type_synonym version = nat

record meta =
  meta_version :: version
  created_at :: system_time
  updated_at :: system_time

definition new_meta :: "system_time \<Rightarrow> meta" where
  "new_meta now = \<lparr>meta_version = 0, created_at = now, updated_at = now\<rparr>"

section \<open>The guard and the two scales\<close>

lemma as_task_state_mono: "a \<le> b \<longleftrightarrow> as_task_state a \<le> as_task_state b"
  by (cases a; cases b) (simp_all add: order_defs as_task_state_def)

lemma advance_ok_iff: "advance cur p = Inr s \<longleftrightarrow> s = p \<and> cur \<le> p"
  by (auto simp: advance_def not_less)

lemma terminal_above_running: "is_terminal s \<Longrightarrow> task_state.Running < s"
  by (cases s) (simp_all add: is_terminal_def order_defs)

lemma above_running_terminal: "task_state.Running < s \<Longrightarrow> s \<noteq> task_state.Remove \<Longrightarrow> is_terminal s"
  by (cases s) (simp_all add: is_terminal_def order_defs)

end
