(* ===== verification/Core_Objects.thy ===== *)
theory Core_Objects
  imports Core_State
begin

text \<open>
  \<open>satl-core/src/objects.rs\<close> and \<open>satl-core/src/store.rs\<close>: the seven store objects with their
  specs and status types, and the vocabulary of store transactions. Field names carry the name
  of their struct where Rust scopes them; \<open>u8\<close> vectors are byte strings; \<open>u16\<close>, \<open>u32\<close> and \<open>u64\<close>
  fields are naturals (no operation of the modelled components computes with them near their
  bounds); \<open>i64\<close> resources are integers with the saturation written out where it happens; the
  one \<open>f32\<close> is the rational it denotes.
\<close>

type_synonym bytes = string
type_synonym labels = "(string, string) btree_map"

section \<open>Common\<close>

record annotations =
  ann_name :: string
  ann_labels :: labels

record platform =
  plat_os :: string
  plat_arch :: string

record resources =
  nano_cpus :: int
  memory_bytes :: int

section \<open>Cluster\<close>

record root_rotation =
  new_root_cert :: bytes
  encrypted_new_root_key :: bytes
  cross_signed_cert :: bytes
  rotation_started_at :: system_time

record raft_config =
  snapshot_interval :: nat
  log_entries_for_slow_followers :: nat
  heartbeat_tick :: nat
  election_tick :: nat

record dispatcher_config =
  heartbeat_period :: duration

record ca_config =
  node_cert_expiry :: duration
  force_rotate :: nat

datatype task_defaults = TaskDefaults

record join_tokens =
  worker_token :: string
  manager_token :: string

record cluster_spec =
  cspec_annotations :: annotations
  cspec_raft :: raft_config
  cspec_dispatcher :: dispatcher_config
  cspec_ca :: ca_config
  cspec_task_defaults :: task_defaults
  default_address_pool :: "string list"
  subnet_size :: nat
  autolock :: bool
  unlock_key :: "string option"

record cluster =
  cluster_id :: id
  cluster_meta :: meta
  cluster_spec :: cluster_spec
  cluster_join_tokens :: join_tokens
  blacklisted_certs :: "(string, system_time) btree_map"
  root_ca_cert :: "bytes option"
  encrypted_root_ca_key :: "bytes option"
  cluster_root_rotation :: "root_rotation option"

section \<open>Node\<close>

datatype node_role = Worker | Manager

datatype availability = Active | Pause | Drain

record node_spec =
  nspec_name :: "string option"
  nspec_labels :: labels
  nspec_role :: node_role
  nspec_availability :: availability

record engine_description =
  engine_version :: string
  engine_labels :: labels

record node_description =
  hostname :: string
  desc_platform :: platform
  desc_resources :: resources
  desc_engine :: engine_description
  linux_emulation :: bool
  racct_enabled :: bool
  data_addr :: "string option"

datatype node_state = Unknown | Down | Ready | Disconnected

record node_status =
  nstatus_state :: node_state
  nstatus_message :: string
  nstatus_addr :: string

datatype reachability = Unknown | Unreachable | Reachable

record manager_status =
  raft_id :: nat
  manager_addr :: string
  manager_leader :: bool
  manager_reachability :: reachability

datatype certificate_status = Unknown | Pending | Issued | Rotate

record node =
  node_id :: id
  node_meta :: meta
  node_spec :: node_spec
  node_desc :: "node_description option"
  node_status :: node_status
  node_manager_status :: "manager_status option"
  node_certificate_status :: certificate_status
  certificate_issuer :: "string option"

section \<open>Task specification\<close>

record resource_requirements =
  limits :: "resources option"
  reservations :: "resources option"

text \<open>\<open>RestartCondition::None\<close> is \<open>None_rc\<close>: \<open>None\<close> is the option's.\<close>

datatype restart_condition = None_rc | OnFailure | Any

record restart_policy =
  restart_condition :: restart_condition
  restart_delay :: duration
  max_attempts :: nat
  restart_window :: duration

record spread_preference =
  spread_descriptor :: string

record placement_preference =
  spread :: "spread_preference option"

record placement =
  constraints :: "string list"
  max_replicas :: nat
  platforms :: "platform list"
  preferences :: "placement_preference list"

record network_attachment_config =
  attach_target :: string
  attach_aliases :: "string list"

record health_config =
  health_test :: "string list"
  health_interval :: "duration option"
  health_timeout :: "duration option"
  health_retries :: nat
  health_start_period :: "duration option"

record dns_config =
  nameservers :: "string list"
  dns_search :: "string list"
  dns_options :: "string list"

datatype mount_type = Bind | Volume | Tmpfs

record mount =
  mount_kind :: mount_type
  mount_source :: "string option"
  mount_target :: string
  mount_read_only :: bool

record file_target =
  file_name :: string
  file_uid :: string
  file_gid :: string
  file_mode :: nat

record secret_reference =
  ref_secret_id :: id
  ref_secret_name :: string
  ref_secret_file :: file_target

record config_reference =
  ref_config_id :: id
  ref_config_name :: string
  ref_config_file :: file_target

record pull_options =
  registry_auth :: string

record container_spec =
  image :: string
  container_labels :: labels
  command :: "string list"
  container_args :: "string list"
  container_hostname :: "string option"
  container_env :: "string list"
  container_dir :: "string option"
  container_user :: "string option"
  container_groups :: "string list"
  tty :: bool
  open_stdin :: bool
  read_only :: bool
  stop_signal :: "string option"
  stop_grace_period :: "duration option"
  healthcheck :: "health_config option"
  container_hosts :: "string list"
  container_dns_config :: "dns_config option"
  mounts :: "mount list"
  container_secrets :: "secret_reference list"
  container_configs :: "config_reference list"
  container_pull_options :: "pull_options option"
  container_platform :: "platform option"

record task_spec =
  tspec_container :: container_spec
  tspec_resources :: resource_requirements
  tspec_restart :: restart_policy
  tspec_placement :: placement
  tspec_networks :: "network_attachment_config list"
  force_update :: nat

section \<open>Endpoint\<close>

datatype endpoint_mode = DnsRR

record endpoint_spec =
  espec_mode :: endpoint_mode
  espec_ports :: "port_config list"

record endpoint =
  endpoint_spec :: endpoint_spec
  endpoint_ports :: "port_config list"

section \<open>Service\<close>

datatype service_mode =
    Replicated (replicas: nat)
  | Global
  | ReplicatedJob (max_concurrent: "nat option") (total_completions: "nat option")
  | GlobalJob

definition is_job :: "service_mode \<Rightarrow> bool" where
  "is_job m \<longleftrightarrow> (case m of ReplicatedJob _ _ \<Rightarrow> True | GlobalJob \<Rightarrow> True | _ \<Rightarrow> False)"

datatype failure_action = Pause | Continue | Rollback

datatype update_order = StopFirst | StartFirst

record update_config =
  parallelism :: nat
  update_delay :: duration
  failure_action :: failure_action
  update_monitor :: duration
  max_failure_ratio :: rat
  update_order :: update_order

datatype update_state_kind =
    Updating | Completed | Paused | RollbackStarted | RollbackCompleted | RollbackPaused

record update_status =
  update_state :: update_state_kind
  update_started_at :: "system_time option"
  update_completed_at :: "system_time option"
  update_message :: string

record service_spec =
  sspec_annotations :: annotations
  sspec_task :: task_spec
  sspec_mode :: service_mode
  sspec_update :: "update_config option"
  sspec_rollback :: "update_config option"
  sspec_endpoint :: "endpoint_spec option"

record service =
  service_id :: id
  service_meta :: meta
  service_spec :: service_spec
  service_endpoint :: "endpoint option"
  service_spec_version :: version
  previous_spec :: "service_spec option"
  service_update_status :: "update_status option"

section \<open>Task\<close>

record network_attachment =
  attached_network_id :: id
  attached_addresses :: "string list"
  attached_aliases :: "string list"

record task =
  task_id :: id
  task_meta :: meta
  task_spec :: task_spec
  task_spec_version :: "version option"
  task_service_id :: "id option"
  task_slot :: nat
  task_node_id :: "id option"
  task_annotations :: annotations
  task_service_annotations :: annotations
  task_status :: task_status
  task_desired_state :: desired_state
  task_networks :: "network_attachment list"
  task_endpoint :: "endpoint option"
  job_iteration :: "nat option"

section \<open>Network\<close>

datatype network_driver = Bridge | Overlay

record ipam_config =
  ipam_subnet :: "string option"
  ipam_gateway :: "string option"
  ipam_ip_range :: "string option"

record network_spec =
  nwspec_annotations :: annotations
  nwspec_driver :: network_driver
  nwspec_ipam :: "ipam_config option"
  nwspec_internal :: bool
  nwspec_attachable :: bool
  nwspec_ingress :: bool
  nwspec_encrypted :: bool

record network_key =
  key_tag :: nat
  key_bytes :: bytes
  key_primary :: bool

record network =
  network_id :: id
  network_meta :: meta
  network_spec :: network_spec
  vni :: "nat option"
  vxlan_port :: "nat option"
  network_subnet :: "string option"
  node_gateways :: "(id, string) btree_map"
  network_keys :: "network_key list"
  keys_updated_at :: "system_time option"

definition INGRESS_NETWORK_NAME :: string where
  "INGRESS_NETWORK_NAME = ''ingress''"

text \<open>\<open>Network::default_ingress\<close>, with the generated id and the clock as arguments.\<close>

definition default_ingress :: "id \<Rightarrow> system_time \<Rightarrow> network" where
  "default_ingress i now = \<lparr>network_id = i, network_meta = new_meta now,
     network_spec = \<lparr>nwspec_annotations = \<lparr>ann_name = INGRESS_NETWORK_NAME, ann_labels = []\<rparr>,
       nwspec_driver = Overlay, nwspec_ipam = None, nwspec_internal = False,
       nwspec_attachable = False, nwspec_ingress = True, nwspec_encrypted = False\<rparr>,
     vni = None, vxlan_port = None, network_subnet = None, node_gateways = [],
     network_keys = [], keys_updated_at = None\<rparr>"

section \<open>Secret and config\<close>

datatype validation_error =
    SecretDataSize (secret_size: nat) (secret_max: nat)
  | ConfigDataSize (config_size: nat) (config_max: nat)

definition MAX_SECRET_SIZE :: nat where
  "MAX_SECRET_SIZE = 500 * 1024"

definition MAX_CONFIG_SIZE :: nat where
  "MAX_CONFIG_SIZE = 1000 * 1024"

record secret_spec =
  secret_annotations :: annotations
  secret_data :: bytes

record secret =
  secret_id :: id
  secret_meta :: meta
  secret_spec :: secret_spec

definition secret_validate :: "secret_spec \<Rightarrow> (validation_error, unit) result" where
  "secret_validate s =
     (if secret_data s = [] \<or> MAX_SECRET_SIZE \<le> length (secret_data s)
      then Inl (SecretDataSize (length (secret_data s)) MAX_SECRET_SIZE) else Inr ())"

definition secret_spec_new :: "annotations \<Rightarrow> bytes \<Rightarrow> (validation_error, secret_spec) result" where
  "secret_spec_new anns data =
     (let spec = \<lparr>secret_annotations = anns, secret_data = data\<rparr>
      in case secret_validate spec of Inl e \<Rightarrow> Inl e | Inr _ \<Rightarrow> Inr spec)"

record config_spec =
  config_annotations :: annotations
  config_data :: bytes

record config =
  config_id :: id
  config_meta :: meta
  config_spec :: config_spec

definition config_validate :: "config_spec \<Rightarrow> (validation_error, unit) result" where
  "config_validate s =
     (if config_data s = [] \<or> MAX_CONFIG_SIZE \<le> length (config_data s)
      then Inl (ConfigDataSize (length (config_data s)) MAX_CONFIG_SIZE) else Inr ())"

definition config_spec_new :: "annotations \<Rightarrow> bytes \<Rightarrow> (validation_error, config_spec) result" where
  "config_spec_new anns data =
     (let spec = \<lparr>config_annotations = anns, config_data = data\<rparr>
      in case config_validate spec of Inl e \<Rightarrow> Inl e | Inr _ \<Rightarrow> Inr spec)"

section \<open>Store vocabulary\<close>

datatype object_kind = Cluster | Node | Service | Task | Network | Secret | Config

datatype store_object =
    Cluster cluster | Node node | Service service | Task task | Network network
  | Secret secret | Config config

definition obj_kind :: "store_object \<Rightarrow> object_kind" where
  "obj_kind obj = (case obj of
       store_object.Cluster _ \<Rightarrow> object_kind.Cluster | store_object.Node _ \<Rightarrow> object_kind.Node
     | store_object.Service _ \<Rightarrow> object_kind.Service | store_object.Task _ \<Rightarrow> object_kind.Task
     | store_object.Network _ \<Rightarrow> object_kind.Network | store_object.Secret _ \<Rightarrow> object_kind.Secret
     | store_object.Config _ \<Rightarrow> object_kind.Config)"

definition obj_id :: "store_object \<Rightarrow> id" where
  "obj_id obj = (case obj of
       store_object.Cluster x \<Rightarrow> cluster_id x | store_object.Node x \<Rightarrow> node_id x
     | store_object.Service x \<Rightarrow> service_id x | store_object.Task x \<Rightarrow> task_id x
     | store_object.Network x \<Rightarrow> network_id x | store_object.Secret x \<Rightarrow> secret_id x
     | store_object.Config x \<Rightarrow> config_id x)"

datatype store_action =
    Create store_object
  | Update store_object
  | Remove object_kind id

datatype store_event =
    Created store_object
  | Updated "store_object option" store_object
  | Removed object_kind id
  | Commit version

definition MAX_TX_ACTIONS :: nat where
  "MAX_TX_ACTIONS = 200"

definition MAX_TX_BYTES :: nat where
  "MAX_TX_BYTES = 1572864"

lemma secret_spec_new_ok_iff:
  "secret_spec_new anns data = Inr spec \<longleftrightarrow>
     spec = \<lparr>secret_annotations = anns, secret_data = data\<rparr> \<and>
     0 < length data \<and> length data < MAX_SECRET_SIZE"
  by (auto simp: secret_spec_new_def secret_validate_def Let_def split: if_splits)

lemma config_spec_new_ok_iff:
  "config_spec_new anns data = Inr spec \<longleftrightarrow>
     spec = \<lparr>config_annotations = anns, config_data = data\<rparr> \<and>
     0 < length data \<and> length data < MAX_CONFIG_SIZE"
  by (auto simp: config_spec_new_def config_validate_def Let_def split: if_splits)

end
