(* ===== verification/Cluster_Store.thy ===== *)
theory Cluster_Store
  imports Core_Objects
begin

text \<open>
  \<open>satl-cluster/src/state_machine.rs\<close> and \<open>types.rs\<close>: the replicated object store. A store is
  seven typed maps, a name index and the Raft cursors; a committed log entry is applied to it
  whole or not at all. \<open>openraft\<close>'s log ids and memberships are type parameters, with the three
  operations the code uses of them in the record \<open>raft_types\<close>; the CBOR length of a proposal is
  an argument, as it is in the source.
\<close>

section \<open>State\<close>

record ('lid, 'mem) raft_types =
  lid_index :: "'lid \<Rightarrow> nat"
  mem_ids :: "'mem \<Rightarrow> nat list"
  mem_default :: "'mem"

record ('lid, 'mem) store_inner =
  st_clusters :: "(id, cluster) hash_map"
  st_nodes :: "(id, node) hash_map"
  st_services :: "(id, service) hash_map"
  st_tasks :: "(id, task) hash_map"
  st_networks :: "(id, network) hash_map"
  st_secrets :: "(id, secret) hash_map"
  st_configs :: "(id, config) hash_map"
  st_names :: "(object_kind \<times> string, id) hash_map"
  last_applied :: "'lid option"
  last_membership :: "'lid option \<times> 'mem"
  removed_raft_ids :: "nat set"

definition store_default :: "('lid, 'mem) raft_types \<Rightarrow> ('lid, 'mem) store_inner" where
  "store_default R = \<lparr>st_clusters = [], st_nodes = [], st_services = [], st_tasks = [],
     st_networks = [], st_secrets = [], st_configs = [], st_names = [], last_applied = None,
     last_membership = (None, mem_default R), removed_raft_ids = {}\<rparr>"

record proposal =
  proposal_actions :: "store_action list"

datatype proposal_rejection =
    SequenceConflict (conflict_kind: object_kind) (conflict_id: id) (expected_version: nat) (found_version: nat)
  | NotFound object_kind id
  | AlreadyExists object_kind id
  | TooManyActions (action_count: nat)
  | TooLarge (tx_bytes: nat)

datatype proposal_response = Applied version | Rejected proposal_rejection

section \<open>Names, versions, stamps\<close>

definition object_name :: "store_object \<Rightarrow> string option" where
  "object_name obj = (case obj of
       store_object.Cluster x \<Rightarrow> Some (ann_name (cspec_annotations (cluster_spec x)))
     | store_object.Node x \<Rightarrow> nspec_name (node_spec x)
     | store_object.Service x \<Rightarrow> Some (ann_name (sspec_annotations (service_spec x)))
     | store_object.Task _ \<Rightarrow> None
     | store_object.Network x \<Rightarrow> Some (ann_name (nwspec_annotations (network_spec x)))
     | store_object.Secret x \<Rightarrow> Some (ann_name (secret_annotations (secret_spec x)))
     | store_object.Config x \<Rightarrow> Some (ann_name (config_annotations (config_spec x))))"

definition object_version :: "store_object \<Rightarrow> nat" where
  "object_version obj = (case obj of
       store_object.Cluster x \<Rightarrow> meta_version (cluster_meta x)
     | store_object.Node x \<Rightarrow> meta_version (node_meta x)
     | store_object.Service x \<Rightarrow> meta_version (service_meta x)
     | store_object.Task x \<Rightarrow> meta_version (task_meta x)
     | store_object.Network x \<Rightarrow> meta_version (network_meta x)
     | store_object.Secret x \<Rightarrow> meta_version (secret_meta x)
     | store_object.Config x \<Rightarrow> meta_version (config_meta x))"

definition stamp_version :: "version \<Rightarrow> store_object \<Rightarrow> store_object" where
  "stamp_version v obj = (case obj of
       store_object.Cluster x \<Rightarrow>
         store_object.Cluster (x\<lparr>cluster_meta := (cluster_meta x)\<lparr>meta_version := v\<rparr>\<rparr>)
     | store_object.Node x \<Rightarrow> store_object.Node (x\<lparr>node_meta := (node_meta x)\<lparr>meta_version := v\<rparr>\<rparr>)
     | store_object.Service x \<Rightarrow>
         store_object.Service (x\<lparr>service_meta := (service_meta x)\<lparr>meta_version := v\<rparr>\<rparr>)
     | store_object.Task x \<Rightarrow> store_object.Task (x\<lparr>task_meta := (task_meta x)\<lparr>meta_version := v\<rparr>\<rparr>)
     | store_object.Network x \<Rightarrow>
         store_object.Network (x\<lparr>network_meta := (network_meta x)\<lparr>meta_version := v\<rparr>\<rparr>)
     | store_object.Secret x \<Rightarrow>
         store_object.Secret (x\<lparr>secret_meta := (secret_meta x)\<lparr>meta_version := v\<rparr>\<rparr>)
     | store_object.Config x \<Rightarrow>
         store_object.Config (x\<lparr>config_meta := (config_meta x)\<lparr>meta_version := v\<rparr>\<rparr>))"

definition stamp_spec_version ::
  "store_object option \<Rightarrow> version \<Rightarrow> store_object \<Rightarrow> store_object" where
  "stamp_spec_version old v new = (case new of
       store_object.Service n \<Rightarrow>
         (case old of
            Some (store_object.Service p) \<Rightarrow>
              if service_spec p = service_spec n
              then store_object.Service (n\<lparr>service_spec_version := service_spec_version p\<rparr>)
              else store_object.Service (n\<lparr>service_spec_version := v\<rparr>)
          | _ \<Rightarrow> store_object.Service (n\<lparr>service_spec_version := v\<rparr>))
     | _ \<Rightarrow> new)"

section \<open>Primitive operations\<close>

definition get_object ::
  "('lid, 'mem) store_inner \<Rightarrow> object_kind \<Rightarrow> id \<Rightarrow> store_object option" where
  "get_object s k i = (case k of
       object_kind.Cluster \<Rightarrow> map_option store_object.Cluster (map_of (st_clusters s) i)
     | object_kind.Node \<Rightarrow> map_option store_object.Node (map_of (st_nodes s) i)
     | object_kind.Service \<Rightarrow> map_option store_object.Service (map_of (st_services s) i)
     | object_kind.Task \<Rightarrow> map_option store_object.Task (map_of (st_tasks s) i)
     | object_kind.Network \<Rightarrow> map_option store_object.Network (map_of (st_networks s) i)
     | object_kind.Secret \<Rightarrow> map_option store_object.Secret (map_of (st_secrets s) i)
     | object_kind.Config \<Rightarrow> map_option store_object.Config (map_of (st_configs s) i))"

definition contains :: "('lid, 'mem) store_inner \<Rightarrow> object_kind \<Rightarrow> id \<Rightarrow> bool" where
  "contains s k i \<longleftrightarrow> (case k of
       object_kind.Cluster \<Rightarrow> map_of (st_clusters s) i \<noteq> None
     | object_kind.Node \<Rightarrow> map_of (st_nodes s) i \<noteq> None
     | object_kind.Service \<Rightarrow> map_of (st_services s) i \<noteq> None
     | object_kind.Task \<Rightarrow> map_of (st_tasks s) i \<noteq> None
     | object_kind.Network \<Rightarrow> map_of (st_networks s) i \<noteq> None
     | object_kind.Secret \<Rightarrow> map_of (st_secrets s) i \<noteq> None
     | object_kind.Config \<Rightarrow> map_of (st_configs s) i \<noteq> None)"

definition version_of :: "('lid, 'mem) store_inner \<Rightarrow> object_kind \<Rightarrow> id \<Rightarrow> nat option" where
  "version_of s k i = (case k of
       object_kind.Cluster \<Rightarrow> map_option (meta_version \<circ> cluster_meta) (map_of (st_clusters s) i)
     | object_kind.Node \<Rightarrow> map_option (meta_version \<circ> node_meta) (map_of (st_nodes s) i)
     | object_kind.Service \<Rightarrow> map_option (meta_version \<circ> service_meta) (map_of (st_services s) i)
     | object_kind.Task \<Rightarrow> map_option (meta_version \<circ> task_meta) (map_of (st_tasks s) i)
     | object_kind.Network \<Rightarrow> map_option (meta_version \<circ> network_meta) (map_of (st_networks s) i)
     | object_kind.Secret \<Rightarrow> map_option (meta_version \<circ> secret_meta) (map_of (st_secrets s) i)
     | object_kind.Config \<Rightarrow> map_option (meta_version \<circ> config_meta) (map_of (st_configs s) i))"

text \<open>The index entry of the stored object, dropped when it points at that object.\<close>

definition drop_old_name ::
  "object_kind \<Rightarrow> id \<Rightarrow> ('lid, 'mem) store_inner \<Rightarrow> ('lid, 'mem) store_inner" where
  "drop_old_name k i s = (case get_object s k i of
       None \<Rightarrow> s
     | Some old \<Rightarrow> (case object_name old of
         None \<Rightarrow> s
       | Some n \<Rightarrow> if map_of (st_names s) (k, n) = Some i
                  then s\<lparr>st_names := hm_remove (k, n) (st_names s)\<rparr> else s))"

definition add_name :: "store_object \<Rightarrow> ('lid, 'mem) store_inner \<Rightarrow> ('lid, 'mem) store_inner" where
  "add_name obj s = (case object_name obj of
       None \<Rightarrow> s
     | Some n \<Rightarrow> s\<lparr>st_names := hm_insert (obj_kind obj, n) (obj_id obj) (st_names s)\<rparr>)"

definition put_typed :: "store_object \<Rightarrow> ('lid, 'mem) store_inner \<Rightarrow> ('lid, 'mem) store_inner" where
  "put_typed obj s = (case obj of
       store_object.Cluster x \<Rightarrow> s\<lparr>st_clusters := hm_insert (cluster_id x) x (st_clusters s)\<rparr>
     | store_object.Node x \<Rightarrow> s\<lparr>st_nodes := hm_insert (node_id x) x (st_nodes s)\<rparr>
     | store_object.Service x \<Rightarrow> s\<lparr>st_services := hm_insert (service_id x) x (st_services s)\<rparr>
     | store_object.Task x \<Rightarrow> s\<lparr>st_tasks := hm_insert (task_id x) x (st_tasks s)\<rparr>
     | store_object.Network x \<Rightarrow> s\<lparr>st_networks := hm_insert (network_id x) x (st_networks s)\<rparr>
     | store_object.Secret x \<Rightarrow> s\<lparr>st_secrets := hm_insert (secret_id x) x (st_secrets s)\<rparr>
     | store_object.Config x \<Rightarrow> s\<lparr>st_configs := hm_insert (config_id x) x (st_configs s)\<rparr>)"

definition insert_object ::
  "store_object \<Rightarrow> ('lid, 'mem) store_inner \<Rightarrow> ('lid, 'mem) store_inner" where
  "insert_object obj s =
     put_typed obj (add_name obj (drop_old_name (obj_kind obj) (obj_id obj) s))"

definition remove_typed ::
  "object_kind \<Rightarrow> id \<Rightarrow> ('lid, 'mem) store_inner \<Rightarrow> ('lid, 'mem) store_inner" where
  "remove_typed k i s = (case k of
       object_kind.Cluster \<Rightarrow> s\<lparr>st_clusters := hm_remove i (st_clusters s)\<rparr>
     | object_kind.Node \<Rightarrow> s\<lparr>st_nodes := hm_remove i (st_nodes s)\<rparr>
     | object_kind.Service \<Rightarrow> s\<lparr>st_services := hm_remove i (st_services s)\<rparr>
     | object_kind.Task \<Rightarrow> s\<lparr>st_tasks := hm_remove i (st_tasks s)\<rparr>
     | object_kind.Network \<Rightarrow> s\<lparr>st_networks := hm_remove i (st_networks s)\<rparr>
     | object_kind.Secret \<Rightarrow> s\<lparr>st_secrets := hm_remove i (st_secrets s)\<rparr>
     | object_kind.Config \<Rightarrow> s\<lparr>st_configs := hm_remove i (st_configs s)\<rparr>)"

definition remove_object ::
  "object_kind \<Rightarrow> id \<Rightarrow> ('lid, 'mem) store_inner \<Rightarrow> ('lid, 'mem) store_inner" where
  "remove_object k i s = remove_typed k i (drop_old_name k i s)"

section \<open>Transactions\<close>

datatype overlay = Exists nat | Removed

fun validate_actions ::
  "('lid, 'mem) store_inner \<Rightarrow> nat \<Rightarrow> store_action list \<Rightarrow>
   (object_kind \<times> id, overlay) hash_map \<Rightarrow> (proposal_rejection, unit) result" where
  "validate_actions s index [] ov = Inr ()"
| "validate_actions s index (Create obj # acts) ov =
     (let k = obj_kind obj; i = obj_id obj;
          exists = (case map_of ov (k, i) of
                      Some (overlay.Exists _) \<Rightarrow> True
                    | Some overlay.Removed \<Rightarrow> False
                    | None \<Rightarrow> contains s k i)
      in if exists then Inl (AlreadyExists k i)
         else validate_actions s index acts (hm_insert (k, i) (overlay.Exists index) ov))"
| "validate_actions s index (Update obj # acts) ov =
     (let k = obj_kind obj; i = obj_id obj;
          current = (case map_of ov (k, i) of
                       Some (overlay.Exists v) \<Rightarrow> Some v
                     | Some overlay.Removed \<Rightarrow> None
                     | None \<Rightarrow> version_of s k i)
      in case current of
           None \<Rightarrow> Inl (NotFound k i)
         | Some cur \<Rightarrow>
             if object_version obj \<noteq> cur
             then Inl (SequenceConflict k i cur (object_version obj))
             else validate_actions s index acts (hm_insert (k, i) (overlay.Exists index) ov))"
| "validate_actions s index (store_action.Remove k i # acts) ov =
     (let exists = (case map_of ov (k, i) of
                      Some (overlay.Exists _) \<Rightarrow> True
                    | Some overlay.Removed \<Rightarrow> False
                    | None \<Rightarrow> contains s k i)
      in if \<not> exists then Inl (NotFound k i)
         else validate_actions s index acts (hm_insert (k, i) overlay.Removed ov))"

definition validate_transaction ::
  "('lid, 'mem) store_inner \<Rightarrow> proposal \<Rightarrow> nat \<Rightarrow> nat \<Rightarrow> (proposal_rejection, unit) result" where
  "validate_transaction s p index serialized_len =
     (if length (proposal_actions p) > MAX_TX_ACTIONS
      then Inl (TooManyActions (length (proposal_actions p)))
      else if serialized_len > MAX_TX_BYTES then Inl (TooLarge serialized_len)
      else validate_actions s index (proposal_actions p) [])"

fun apply_action ::
  "version \<Rightarrow> store_action \<Rightarrow> ('lid, 'mem) store_inner \<times> store_event list \<Rightarrow>
   ('lid, 'mem) store_inner \<times> store_event list" where
  "apply_action v (Create obj) (s, evs) =
     (let obj' = stamp_spec_version None v (stamp_version v obj)
      in (insert_object obj' s, evs @ [Created obj']))"
| "apply_action v (Update obj) (s, evs) =
     (let old = get_object s (obj_kind obj) (obj_id obj);
          new = stamp_spec_version old v (stamp_version v obj)
      in (insert_object new s, evs @ [Updated old new]))"
| "apply_action v (store_action.Remove k i) (s, evs) =
     (remove_object k i s, evs @ [store_event.Removed k i])"

definition apply_transaction ::
  "('lid, 'mem) store_inner \<Rightarrow> proposal \<Rightarrow> nat \<Rightarrow> nat \<Rightarrow>
   proposal_response \<times> store_event list \<times> ('lid, 'mem) store_inner" where
  "apply_transaction s p index serialized_len =
     (case validate_transaction s p index serialized_len of
        Inl r \<Rightarrow> (Rejected r, [], s)
      | Inr _ \<Rightarrow>
          (let (s', evs) = fold (apply_action index) (proposal_actions p) (s, [])
           in (Applied index, evs @ [Commit index], s')))"

section \<open>Log entries\<close>

datatype 'mem entry_payload = Blank | Membership 'mem | Normal proposal

record ('lid, 'mem) entry =
  entry_log_id :: 'lid
  entry_payload :: "'mem entry_payload"

definition apply_entry ::
  "('lid, 'mem) raft_types \<Rightarrow> ('lid, 'mem) store_inner \<Rightarrow> ('lid, 'mem) entry \<Rightarrow> nat \<Rightarrow>
   proposal_response \<times> store_event list \<times> ('lid, 'mem) store_inner" where
  "apply_entry R s e serialized_len =
     (let index = lid_index R (entry_log_id e);
          (reply, evs, s') = (case entry_payload e of
             Blank \<Rightarrow> (Applied index, [], s)
           | Membership m \<Rightarrow>
               (let old_ids = set (mem_ids R (snd (last_membership s)));
                    new_ids = set (mem_ids R m)
                in (Applied index, [],
                    s\<lparr>removed_raft_ids := removed_raft_ids s \<union> (old_ids - new_ids),
                      last_membership := (Some (entry_log_id e), m)\<rparr>))
           | Normal p \<Rightarrow> apply_transaction s p index serialized_len)
      in (reply, evs, s'\<lparr>last_applied := Some (entry_log_id e)\<rparr>))"

text \<open>\<open>apply_sized\<close>: the replies and the published events of a batch, in order.\<close>

fun apply_sized ::
  "('lid, 'mem) raft_types \<Rightarrow> ('lid, 'mem) store_inner \<Rightarrow> (('lid, 'mem) entry \<times> nat) list \<Rightarrow>
   proposal_response list \<times> store_event list \<times> ('lid, 'mem) store_inner" where
  "apply_sized R s [] = ([], [], s)"
| "apply_sized R s ((e, len) # rest) =
     (let (reply, evs, s') = apply_entry R s e len;
          (replies, evs', s'') = apply_sized R s' rest
      in (reply # replies, evs @ evs', s''))"

section \<open>Snapshots\<close>

record ('lid, 'mem) snapshot_payload =
  snapshot_id :: string
  snap_last_applied :: "'lid option"
  snap_last_membership :: "'lid option \<times> 'mem"
  snap_removed_raft_ids :: "nat set"
  snap_clusters :: "cluster list"
  snap_nodes :: "node list"
  snap_services :: "service list"
  snap_tasks :: "task list"
  snap_networks :: "network list"
  snap_secrets :: "secret list"
  snap_configs :: "config list"

definition from_store :: "('lid, 'mem) store_inner \<Rightarrow> string \<Rightarrow> ('lid, 'mem) snapshot_payload" where
  "from_store s sid = \<lparr>snapshot_id = sid, snap_last_applied = last_applied s,
     snap_last_membership = last_membership s, snap_removed_raft_ids = removed_raft_ids s,
     snap_clusters = values_of (st_clusters s), snap_nodes = values_of (st_nodes s),
     snap_services = values_of (st_services s), snap_tasks = values_of (st_tasks s),
     snap_networks = values_of (st_networks s), snap_secrets = values_of (st_secrets s),
     snap_configs = values_of (st_configs s)\<rparr>"

text \<open>The objects of a payload in the order \<open>install_into\<close> inserts them.\<close>

definition snapshot_objects :: "('lid, 'mem) snapshot_payload \<Rightarrow> store_object list" where
  "snapshot_objects p = map store_object.Cluster (snap_clusters p) @
     map store_object.Node (snap_nodes p) @ map store_object.Service (snap_services p) @
     map store_object.Task (snap_tasks p) @ map store_object.Network (snap_networks p) @
     map store_object.Secret (snap_secrets p) @ map store_object.Config (snap_configs p)"

definition install_into ::
  "('lid, 'mem) raft_types \<Rightarrow> ('lid, 'mem) snapshot_payload \<Rightarrow> ('lid, 'mem) store_inner" where
  "install_into R p =
     fold insert_object (snapshot_objects p)
       ((store_default R)\<lparr>last_applied := snap_last_applied p,
          last_membership := snap_last_membership p,
          removed_raft_ids := snap_removed_raft_ids p\<rparr>)"

section \<open>Read views\<close>

text \<open>\<open>store.rs\<close>: what a \<open>StoreView\<close> answers. \<open>HashMap::values\<close> is the order of the list.\<close>

definition view_cluster :: "('lid, 'mem) store_inner \<Rightarrow> cluster option" where
  "view_cluster s = (case values_of (st_clusters s) of [] \<Rightarrow> None | c # _ \<Rightarrow> Some c)"

definition view_node :: "('lid, 'mem) store_inner \<Rightarrow> id \<Rightarrow> node option" where
  "view_node s i = map_of (st_nodes s) i"

definition view_service :: "('lid, 'mem) store_inner \<Rightarrow> id \<Rightarrow> service option" where
  "view_service s i = map_of (st_services s) i"

definition view_task :: "('lid, 'mem) store_inner \<Rightarrow> id \<Rightarrow> task option" where
  "view_task s i = map_of (st_tasks s) i"

definition view_nodes :: "('lid, 'mem) store_inner \<Rightarrow> node list" where
  "view_nodes s = values_of (st_nodes s)"

definition view_services :: "('lid, 'mem) store_inner \<Rightarrow> service list" where
  "view_services s = values_of (st_services s)"

definition view_tasks :: "('lid, 'mem) store_inner \<Rightarrow> task list" where
  "view_tasks s = values_of (st_tasks s)"

definition by_name :: "('lid, 'mem) store_inner \<Rightarrow> object_kind \<Rightarrow> string \<Rightarrow> id option" where
  "by_name s k n = map_of (st_names s) (k, n)"

definition node_by_name :: "('lid, 'mem) store_inner \<Rightarrow> string \<Rightarrow> node option" where
  "node_by_name s n = Option.bind (by_name s object_kind.Node n) (map_of (st_nodes s))"

definition service_by_name :: "('lid, 'mem) store_inner \<Rightarrow> string \<Rightarrow> service option" where
  "service_by_name s n = Option.bind (by_name s object_kind.Service n) (map_of (st_services s))"

definition network_by_name :: "('lid, 'mem) store_inner \<Rightarrow> string \<Rightarrow> network option" where
  "network_by_name s n = Option.bind (by_name s object_kind.Network n) (map_of (st_networks s))"

definition secret_by_name :: "('lid, 'mem) store_inner \<Rightarrow> string \<Rightarrow> secret option" where
  "secret_by_name s n = Option.bind (by_name s object_kind.Secret n) (map_of (st_secrets s))"

definition config_by_name :: "('lid, 'mem) store_inner \<Rightarrow> string \<Rightarrow> config option" where
  "config_by_name s n = Option.bind (by_name s object_kind.Config n) (map_of (st_configs s))"

end
