(* ===== verification/Cluster_Store_Proofs.thy ===== *)
theory Cluster_Store_Proofs
  imports Cluster_Store
begin

text \<open>
  The replicated store against its specification: one map from \<open>(kind, id)\<close> to objects. The
  locale \<open>object_store\<close> is the contract between the typed maps and the transaction machinery;
  it is discharged for the store and for the specification map, and the refinement, the
  replay of the event feed, the snapshot round trip, the name index, the version discipline
  and the removal blacklist rest on it.
\<close>

section \<open>The contract of an object store\<close>

abbreviation obj_key :: "store_object \<Rightarrow> object_kind \<times> id" where
  "obj_key obj \<equiv> (obj_kind obj, obj_id obj)"

type_synonym object_map = "object_kind \<times> id \<Rightarrow> store_object option"

locale object_store =
  fixes get :: "'s \<Rightarrow> object_kind \<Rightarrow> id \<Rightarrow> store_object option"
    and put :: "store_object \<Rightarrow> 's \<Rightarrow> 's"
    and del :: "object_kind \<Rightarrow> id \<Rightarrow> 's \<Rightarrow> 's"
  assumes get_put: "get (put obj s) k i = (if (k, i) = obj_key obj then Some obj else get s k i)"
    and get_del: "get (del k' i' s) k i = (if (k, i) = (k', i') then None else get s k i)"
begin

lemma map_put: "(\<lambda>(k, i). get (put obj s) k i) = (\<lambda>(k, i). get s k i)(obj_key obj \<mapsto> obj)"
  by (auto simp: get_put fun_eq_iff)

lemma map_del: "(\<lambda>(k, i). get (del k' i' s) k i) = (\<lambda>(k, i). get s k i)((k', i') := None)"
  by (auto simp: get_del fun_eq_iff)

lemma get_fold_put:
  "(\<lambda>(k, i). get (fold put objs s) k i) =
   (\<lambda>(k, i). get s k i) ++ map_of (rev (map (\<lambda>x. (obj_key x, x)) objs))"
  by (induction objs arbitrary: s) (simp_all add: map_put fun_upd_def map_add_def fun_eq_iff
      split: option.split)

lemma put_keeps_key:
  assumes "\<And>k i x. get s k i = Some x \<Longrightarrow> obj_key x = (k, i)" and "get (put obj s) k i = Some x"
  shows "obj_key x = (k, i)"
  using assms by (auto simp: get_put split: if_splits)

end

section \<open>The store keeps the contract\<close>

lemmas object_cases = store_object.exhaust object_kind.exhaust

lemma stamp_version_simps [simp]:
  "obj_kind (stamp_version v obj) = obj_kind obj"
  "obj_id (stamp_version v obj) = obj_id obj"
  "object_name (stamp_version v obj) = object_name obj"
  "object_version (stamp_version v obj) = v"
  by (cases obj; simp add: stamp_version_def obj_kind_def obj_id_def object_name_def
      object_version_def)+

lemma stamp_spec_version_simps [simp]:
  "obj_kind (stamp_spec_version old v obj) = obj_kind obj"
  "obj_id (stamp_spec_version old v obj) = obj_id obj"
  "object_name (stamp_spec_version old v obj) = object_name obj"
  "object_version (stamp_spec_version old v obj) = object_version obj"
  by (cases obj; simp add: stamp_spec_version_def obj_kind_def obj_id_def object_name_def
      object_version_def split: option.split store_object.split)+

lemma get_drop_old_name [simp]: "get_object (drop_old_name k' i' s) k i = get_object s k i"
  by (cases k) (auto simp: drop_old_name_def get_object_def split: option.split)

lemma get_add_name [simp]: "get_object (add_name obj s) k i = get_object s k i"
  by (cases k) (auto simp: add_name_def get_object_def split: option.split)

lemma get_put_typed [simp]:
  "get_object (put_typed obj s) k i = (if (k, i) = obj_key obj then Some obj else get_object s k i)"
  by (cases obj; cases k) (auto simp: put_typed_def get_object_def obj_kind_def obj_id_def)

lemma get_remove_typed [simp]:
  "get_object (remove_typed k' i' s) k i = (if (k, i) = (k', i') then None else get_object s k i)"
  by (cases k'; cases k) (auto simp: remove_typed_def get_object_def)

interpretation st: object_store get_object insert_object remove_object
  by unfold_locales (simp_all add: insert_object_def remove_object_def)

interpretation spec: object_store "\<lambda>m k i. m (k, i)" "\<lambda>obj m. m(obj_key obj \<mapsto> obj)"
    "\<lambda>k i m. m((k, i) := None)"
  by unfold_locales auto

lemma contains_get: "contains s k i \<longleftrightarrow> get_object s k i \<noteq> None"
  by (cases k) (simp_all add: contains_def get_object_def)

lemma version_of_get: "version_of s k i = map_option object_version (get_object s k i)"
  by (cases k) (simp_all add: version_of_def get_object_def object_version_def option.map_comp
      comp_def)

definition store_map :: "('lid, 'mem) store_inner \<Rightarrow> object_map" where
  "store_map s = (\<lambda>(k, i). get_object s k i)"

lemma store_map_insert [simp]: "store_map (insert_object obj s) = (store_map s)(obj_key obj \<mapsto> obj)"
  by (simp add: store_map_def st.map_put)

lemma store_map_remove [simp]: "store_map (remove_object k i s) = (store_map s)((k, i) := None)"
  by (simp add: store_map_def st.map_del)

section \<open>The specification of a transaction\<close>

text \<open>Each action against the map as the earlier ones left it; the first failure rejects all.\<close>

fun spec_action ::
  "version \<Rightarrow> store_action \<Rightarrow> object_map \<Rightarrow> (proposal_rejection, object_map) result" where
  "spec_action v (Create obj) m =
     (if m (obj_key obj) \<noteq> None then Inl (AlreadyExists (obj_kind obj) (obj_id obj))
      else Inr (m(obj_key obj \<mapsto> stamp_spec_version None v (stamp_version v obj))))"
| "spec_action v (Update obj) m =
     (case m (obj_key obj) of
        None \<Rightarrow> Inl (NotFound (obj_kind obj) (obj_id obj))
      | Some cur \<Rightarrow>
          if object_version obj \<noteq> object_version cur
          then Inl (SequenceConflict (obj_kind obj) (obj_id obj) (object_version cur)
                      (object_version obj))
          else Inr (m(obj_key obj \<mapsto> stamp_spec_version (Some cur) v (stamp_version v obj))))"
| "spec_action v (store_action.Remove k i) m =
     (if m (k, i) = None then Inl (NotFound k i) else Inr (m((k, i) := None)))"

fun spec_actions ::
  "version \<Rightarrow> store_action list \<Rightarrow> object_map \<Rightarrow> (proposal_rejection, object_map) result" where
  "spec_actions v [] m = Inr m"
| "spec_actions v (a # as) m = (case spec_action v a m of
     Inl r \<Rightarrow> Inl r | Inr m' \<Rightarrow> spec_actions v as m')"

definition spec_transaction ::
  "object_map \<Rightarrow> proposal \<Rightarrow> nat \<Rightarrow> nat \<Rightarrow> (proposal_rejection, object_map) result" where
  "spec_transaction m p index len =
     (if length (proposal_actions p) > MAX_TX_ACTIONS
      then Inl (TooManyActions (length (proposal_actions p)))
      else if len > MAX_TX_BYTES then Inl (TooLarge len)
      else spec_actions index (proposal_actions p) m)"

text \<open>The overlay of the validator is the version view of the map the actions so far produce.\<close>

definition overlay_agrees ::
  "('lid, 'mem) store_inner \<Rightarrow> (object_kind \<times> id, overlay) hash_map \<Rightarrow> object_map \<Rightarrow> bool" where
  "overlay_agrees s ov m \<longleftrightarrow>
     (\<forall>k i. (case map_of ov (k, i) of
               None \<Rightarrow> version_of s k i
             | Some (overlay.Exists v) \<Rightarrow> Some v
             | Some overlay.Removed \<Rightarrow> None) = map_option object_version (m (k, i)))"

lemma overlay_agrees_init: "overlay_agrees s [] (store_map s)"
  by (simp add: overlay_agrees_def store_map_def version_of_get)

lemma overlay_agrees_write:
  "overlay_agrees s ov m \<Longrightarrow> object_version obj = v \<Longrightarrow>
   overlay_agrees s (hm_insert key (overlay.Exists v) ov) (m(key \<mapsto> obj))"
  by (auto simp: overlay_agrees_def)

lemma overlay_agrees_remove:
  "overlay_agrees s ov m \<Longrightarrow> overlay_agrees s (hm_insert key overlay.Removed ov) (m(key := None))"
  by (auto simp: overlay_agrees_def)

lemma overlay_current:
  assumes "overlay_agrees s ov m"
  shows "(case map_of ov (k, i) of
            Some (overlay.Exists v) \<Rightarrow> Some v | Some overlay.Removed \<Rightarrow> None
          | None \<Rightarrow> version_of s k i) = map_option object_version (m (k, i))"
  using assms by (simp add: overlay_agrees_def)

lemma overlay_exists:
  assumes "overlay_agrees s ov m"
  shows "(case map_of ov (k, i) of
            Some (overlay.Exists _) \<Rightarrow> True | Some overlay.Removed \<Rightarrow> False
          | None \<Rightarrow> contains s k i) \<longleftrightarrow> m (k, i) \<noteq> None"
  using overlay_current [OF assms, of k i]
  by (cases "m (k, i)") (auto simp: contains_get version_of_get split: option.splits overlay.splits)

lemma validate_actions_spec:
  "overlay_agrees s ov m \<Longrightarrow>
   validate_actions s v acts ov =
     (case spec_actions v acts m of Inl r \<Rightarrow> Inl r | Inr _ \<Rightarrow> Inr ())"
proof (induction acts arbitrary: ov m)
  case (Cons a acts)
  note IH_write = Cons.IH [OF overlay_agrees_write [OF Cons.prems]]
    and IH_remove = Cons.IH [OF overlay_agrees_remove [OF Cons.prems]]
  show ?case
  proof (cases a)
    case (Create obj)
    with overlay_exists [OF Cons.prems] show ?thesis
      by (simp add: Let_def IH_write)
  next
    case (Update obj)
    with overlay_current [OF Cons.prems] show ?thesis
      by (simp add: Let_def IH_write split: option.split)
  next
    case (Remove k i)
    with overlay_exists [OF Cons.prems] show ?thesis
      by (simp add: Let_def IH_remove fun_upd_def)
  qed
qed simp

lemma get_store_map: "get_object s k i = store_map s (k, i)"
  by (simp add: store_map_def)

lemma apply_action_spec:
  "spec_action v a (store_map s) = Inr m \<Longrightarrow> store_map (fst (apply_action v a (s, evs))) = m"
  by (cases a) (auto simp: Let_def get_store_map split: if_splits option.splits)

lemma apply_actions_spec:
  "spec_actions v acts (store_map s) = Inr m \<Longrightarrow>
   store_map (fst (fold (apply_action v) acts (s, evs))) = m"
proof (induction acts arbitrary: s evs)
  case (Cons a acts)
  obtain s' evs' where step: "apply_action v a (s, evs) = (s', evs')"
    by fastforce
  from Cons.prems obtain m' where "spec_action v a (store_map s) = Inr m'"
    and rest: "spec_actions v acts m' = Inr m"
    by (auto split: sum.splits)
  with apply_action_spec [of v a s m' evs] step have "store_map s' = m'"
    by simp
  with Cons.IH [of s' evs'] rest step show ?case
    by simp
qed simp

lemma validate_transaction_spec:
  "validate_transaction s p index len =
     (case spec_transaction (store_map s) p index len of Inl r \<Rightarrow> Inl r | Inr _ \<Rightarrow> Inr ())"
  by (simp add: validate_transaction_def spec_transaction_def
      validate_actions_spec [OF overlay_agrees_init])

lemma rejected_spec:
  "apply_transaction s p index len = (Rejected r, evs, s') \<Longrightarrow>
   spec_transaction (store_map s) p index len = Inl r \<and> evs = [] \<and> s' = s"
  by (auto simp: apply_transaction_def validate_transaction_spec split: sum.splits prod.splits)

lemma applied_spec:
  assumes "apply_transaction s p index len = (Applied v, evs, s')"
  shows "v = index \<and> spec_transaction (store_map s) p index len = Inr (store_map s')"
proof -
  from assms obtain m where m: "spec_transaction (store_map s) p index len = Inr m"
    by (auto simp: apply_transaction_def validate_transaction_spec split: sum.splits)
  then have "spec_actions index (proposal_actions p) (store_map s) = Inr m"
    by (simp add: spec_transaction_def split: if_splits)
  with apply_actions_spec [OF this, of "[]"] assms m show ?thesis
    by (auto simp: apply_transaction_def validate_transaction_spec split: prod.splits)
qed

text \<open>
  C1. Applying a proposal refines the specification, in which each action is checked against the
  map its predecessors left and the first failure rejects the whole proposal: the reply is the
  specification's rejection, with the store and the feed untouched, or it is the log index, and
  the typed maps then hold exactly the specification's map.
\<close>

theorem apply_transaction_refines:
  "case apply_transaction s p index len of
     (Rejected r, evs, s') \<Rightarrow>
       spec_transaction (store_map s) p index len = Inl r \<and> evs = [] \<and> s' = s
   | (Applied v, evs, s') \<Rightarrow>
       v = index \<and> spec_transaction (store_map s) p index len = Inr (store_map s')"
  by (auto split: prod.split proposal_response.split dest: rejected_spec applied_spec)

section \<open>The event feed\<close>

text \<open>A watcher's mirror of the store: what a consumer of the feed computes from the events.\<close>

fun mirror_event :: "store_event \<Rightarrow> object_map \<Rightarrow> object_map" where
  "mirror_event (Created obj) m = m(obj_key obj \<mapsto> obj)"
| "mirror_event (Updated old new) m = m(obj_key new \<mapsto> new)"
| "mirror_event (store_event.Removed k i) m = m((k, i) := None)"
| "mirror_event (Commit v) m = m"

lemma apply_action_events:
  "\<exists>e. snd (apply_action v a (s, evs)) = evs @ [e] \<and>
       mirror_event e (store_map s) = store_map (fst (apply_action v a (s, evs)))"
  by (cases a) (simp_all add: Let_def)

lemma apply_actions_events:
  "\<exists>new. snd (fold (apply_action v) acts (s, evs)) = evs @ new \<and> length new = length acts \<and>
         fold mirror_event new (store_map s) = store_map (fst (fold (apply_action v) acts (s, evs)))"
proof (induction acts arbitrary: s evs)
  case (Cons a acts)
  obtain s' evs' where step: "apply_action v a (s, evs) = (s', evs')"
    by fastforce
  with apply_action_events [of v a s evs] obtain e
    where "evs' = evs @ [e]" "mirror_event e (store_map s) = store_map s'"
    by auto
  moreover obtain new where "snd (fold (apply_action v) acts (s', evs')) = evs' @ new"
    "length new = length acts"
    "fold mirror_event new (store_map s') = store_map (fst (fold (apply_action v) acts (s', evs')))"
    using Cons.IH by blast
  ultimately show ?case
    by (intro exI [of _ "e # new"]) (simp add: step)
qed simp

lemma apply_transaction_mirror:
  "apply_transaction s p index len = (reply, evs, s') \<Longrightarrow>
   fold mirror_event evs (store_map s) = store_map s'"
  using apply_actions_events [of index "proposal_actions p" s "[]"]
  by (auto simp: apply_transaction_def split: sum.splits prod.splits)

lemma store_map_cursors [simp]:
  "store_map (s\<lparr>last_applied := x\<rparr>) = store_map s"
  "store_map (s\<lparr>removed_raft_ids := g, last_membership := m\<rparr>) = store_map s"
  by (simp_all add: store_map_def get_object_def fun_eq_iff split: object_kind.split)

lemma apply_entry_mirror:
  "apply_entry R s e len = (reply, evs, s') \<Longrightarrow> fold mirror_event evs (store_map s) = store_map s'"
  by (auto simp: apply_entry_def Let_def dest: apply_transaction_mirror
      split: prod.splits entry_payload.splits)

text \<open>
  C12. The feed is complete: a watcher that starts from the store's contents and applies the events
  published by a batch of entries, in order, ends with exactly the contents of the store after the
  batch, whatever mixture of blank, membership, accepted and rejected entries it held.
\<close>

theorem apply_sized_feed_replays:
  "(case apply_sized R s batch of (replies, evs, s') \<Rightarrow>
      length replies = length batch \<and> fold mirror_event evs (store_map s) = store_map s')"
proof (induction batch arbitrary: s)
  case (Cons b batch)
  obtain e len where b: "b = (e, len)"
    by fastforce
  obtain reply evs s' where e: "apply_entry R s e len = (reply, evs, s')"
    by (metis prod_cases3)
  from Cons.IH [of s'] apply_entry_mirror [OF e] show ?case
    by (simp add: b e split: prod.splits)
qed simp

end
