(* ===== verification/Sample_Objects.thy ===== *)
theory Sample_Objects
  imports Cluster_Store "HOL-Library.Code_Target_Numeral"
begin

text \<open>
  Concrete objects on which the theorems of the other theories are exercised: a service, its
  tasks, nodes, secrets, and an instance of the Raft parameters in which a log id is its index
  and a membership is the list of its member ids.
\<close>

definition sample_ann :: "string \<Rightarrow> annotations" where
  "sample_ann n = \<lparr>ann_name = n, ann_labels = []\<rparr>"

definition sample_meta :: "nat \<Rightarrow> meta" where
  "sample_meta v = \<lparr>meta_version = v, created_at = 0, updated_at = 0\<rparr>"

definition sample_secret :: "id \<Rightarrow> string \<Rightarrow> nat \<Rightarrow> bytes \<Rightarrow> secret" where
  "sample_secret i n v d = \<lparr>secret_id = i, secret_meta = sample_meta v,
     secret_spec = \<lparr>secret_annotations = sample_ann n, secret_data = d\<rparr>\<rparr>"

definition sample_container :: container_spec where
  "sample_container = \<lparr>image = ''nginx'', container_labels = [], command = [], container_args = [],
     container_hostname = None, container_env = [], container_dir = None, container_user = None,
     container_groups = [], tty = False, open_stdin = False, read_only = False,
     stop_signal = None, stop_grace_period = None, healthcheck = None, container_hosts = [],
     container_dns_config = None, mounts = [], container_secrets = [], container_configs = [],
     container_pull_options = None, container_platform = None\<rparr>"

definition sample_restart :: restart_policy where
  "sample_restart = \<lparr>restart_condition = Any, restart_delay = 5000000000, max_attempts = 0,
     restart_window = 0\<rparr>"

definition sample_placement :: placement where
  "sample_placement = \<lparr>constraints = [], max_replicas = 0, platforms = [], preferences = []\<rparr>"

definition sample_tspec :: task_spec where
  "sample_tspec = \<lparr>tspec_container = sample_container,
     tspec_resources = \<lparr>limits = None, reservations = Some \<lparr>nano_cpus = 1000, memory_bytes = 64\<rparr>\<rparr>,
     tspec_restart = sample_restart, tspec_placement = sample_placement, tspec_networks = [],
     force_update = 0\<rparr>"

definition sample_service :: "id \<Rightarrow> service_mode \<Rightarrow> service" where
  "sample_service i m = \<lparr>service_id = i, service_meta = sample_meta 1,
     service_spec = \<lparr>sspec_annotations = sample_ann ''web'', sspec_task = sample_tspec,
       sspec_mode = m, sspec_update = None, sspec_rollback = None, sspec_endpoint = None\<rparr>,
     service_endpoint = None, service_spec_version = 1, previous_spec = None,
     service_update_status = None\<rparr>"

definition sample_task :: "id \<Rightarrow> id \<Rightarrow> nat \<Rightarrow> task_state \<Rightarrow> desired_state \<Rightarrow> task" where
  "sample_task i svc sl st d = \<lparr>task_id = i, task_meta = sample_meta 1, task_spec = sample_tspec,
     task_spec_version = Some 1, task_service_id = Some svc, task_slot = sl, task_node_id = None,
     task_annotations = sample_ann ''web.1'', task_service_annotations = sample_ann ''web'',
     task_status = new_task_status 0 st ''created'', task_desired_state = d, task_networks = [],
     task_endpoint = None, job_iteration = None\<rparr>"

definition sample_node :: "id \<Rightarrow> node_state \<Rightarrow> availability \<Rightarrow> node" where
  "sample_node i st av = \<lparr>node_id = i, node_meta = sample_meta 1,
     node_spec = \<lparr>nspec_name = Some i, nspec_labels = [], nspec_role = Worker,
       nspec_availability = av\<rparr>,
     node_desc = Some \<lparr>hostname = i, desc_platform = \<lparr>plat_os = ''freebsd'', plat_arch = ''amd64''\<rparr>,
       desc_resources = \<lparr>nano_cpus = 4000, memory_bytes = 1024\<rparr>,
       desc_engine = \<lparr>engine_version = ''0.1'', engine_labels = []\<rparr>, linux_emulation = True,
       racct_enabled = True, data_addr = None\<rparr>,
     node_status = \<lparr>nstatus_state = st, nstatus_message = '''', nstatus_addr = ''10.0.0.1''\<rparr>,
     node_manager_status = None, node_certificate_status = Issued, certificate_issuer = None\<rparr>"

lemmas sample_defs = sample_ann_def sample_meta_def sample_secret_def sample_container_def
  sample_restart_def sample_placement_def sample_tspec_def sample_service_def sample_task_def
  sample_node_def

definition nat_raft :: "(nat, nat list) raft_types" where
  "nat_raft = \<lparr>lid_index = (\<lambda>n. n), mem_ids = (\<lambda>m. m), mem_default = []\<rparr>"

definition tx_entry :: "nat \<Rightarrow> store_action list \<Rightarrow> (nat, nat list) entry" where
  "tx_entry n acts = \<lparr>entry_log_id = n, entry_payload = Normal \<lparr>proposal_actions = acts\<rparr>\<rparr>"

definition after :: "(nat, nat list) store_inner \<Rightarrow> (nat, nat list) entry \<Rightarrow> (nat, nat list) store_inner" where
  "after s e = snd (snd (apply_entry nat_raft s e 0))"

end
