(* ===== verification/Cluster_Store_Invariants.thy ===== *)
theory Cluster_Store_Invariants
  imports Cluster_Store_Proofs Sample_Objects
begin

text \<open>
  What holds of every store a replica can reach from the empty one by applying log entries in
  index order and by installing snapshots: objects sit under their own kind and id, the name
  index only names live objects, no version is ahead of the log, and no update is ever lost.
\<close>

section \<open>Well-formed stores\<close>

definition well_keyed :: "('lid, 'mem) store_inner \<Rightarrow> bool" where
  "well_keyed s \<longleftrightarrow> (\<forall>k i obj. get_object s k i = Some obj \<longrightarrow> obj_key obj = (k, i))"

definition maps_distinct :: "('lid, 'mem) store_inner \<Rightarrow> bool" where
  "maps_distinct s \<longleftrightarrow> hm_invar (st_clusters s) \<and> hm_invar (st_nodes s) \<and>
     hm_invar (st_services s) \<and> hm_invar (st_tasks s) \<and> hm_invar (st_networks s) \<and>
     hm_invar (st_secrets s) \<and> hm_invar (st_configs s) \<and> hm_invar (st_names s)"

definition names_sound :: "('lid, 'mem) store_inner \<Rightarrow> bool" where
  "names_sound s \<longleftrightarrow>
     (\<forall>k n i. map_of (st_names s) (k, n) = Some i \<longrightarrow>
        (\<exists>obj. get_object s k i = Some obj \<and> object_name obj = Some n))"

definition store_wf :: "('lid, 'mem) store_inner \<Rightarrow> bool" where
  "store_wf s \<longleftrightarrow> well_keyed s \<and> maps_distinct s \<and> names_sound s"

lemma names_put_typed [simp]: "st_names (put_typed obj s) = st_names s"
  by (simp add: put_typed_def split: store_object.split)

lemma names_remove_typed [simp]: "st_names (remove_typed k i s) = st_names s"
  by (simp add: remove_typed_def split: object_kind.split)

lemma lookup_drop_old_name:
  "map_of (st_names (drop_old_name k i s)) (k', n) =
     (if k' = k \<and> map_of (st_names s) (k, n) = Some i \<and>
         (\<exists>old. get_object s k i = Some old \<and> object_name old = Some n)
      then None else map_of (st_names s) (k', n))"
  by (auto simp: drop_old_name_def split: option.split)

lemma dropped_name_sound:
  assumes "names_sound s" and "map_of (st_names (drop_old_name k i s)) (k', n) = Some i'"
  shows "(k', i') \<noteq> (k, i) \<and> map_of (st_names s) (k', n) = Some i'"
proof -
  have "map_of (st_names s) (k', n) = Some i'"
    using assms(2) by (simp add: lookup_drop_old_name split: if_splits)
  moreover from this assms(1) obtain obj
    where "get_object s k' i' = Some obj" "object_name obj = Some n"
    unfolding names_sound_def by blast
  ultimately show ?thesis
    using assms(2) by (auto simp: lookup_drop_old_name)
qed

lemma insert_names_sound:
  assumes "names_sound s" and "well_keyed s"
  shows "names_sound (insert_object obj s)"
  unfolding names_sound_def
proof (intro allI impI)
  fix k n i
  assume "map_of (st_names (insert_object obj s)) (k, n) = Some i"
  then consider "object_name obj = Some n" "obj_key obj = (k, i)"
    | "map_of (st_names (drop_old_name (obj_kind obj) (obj_id obj) s)) (k, n) = Some i"
    by (auto simp: insert_object_def add_name_def split: option.splits if_splits)
  then show "\<exists>x. get_object (insert_object obj s) k i = Some x \<and> object_name x = Some n"
  proof cases
    case 2
    from dropped_name_sound [OF assms(1) this] assms(1) show ?thesis
      by (auto simp: st.get_put names_sound_def)
  qed (auto simp: st.get_put)
qed

lemma remove_names_sound:
  assumes "names_sound s"
  shows "names_sound (remove_object k i s)"
  unfolding names_sound_def
proof (intro allI impI)
  fix k' n i'
  assume "map_of (st_names (remove_object k i s)) (k', n) = Some i'"
  then have "map_of (st_names (drop_old_name k i s)) (k', n) = Some i'"
    by (simp add: remove_object_def)
  from dropped_name_sound [OF assms this] assms
  show "\<exists>x. get_object (remove_object k i s) k' i' = Some x \<and> object_name x = Some n"
    by (auto simp: st.get_del names_sound_def)
qed

lemma insert_well_keyed: "well_keyed s \<Longrightarrow> well_keyed (insert_object obj s)"
  by (simp add: well_keyed_def st.get_put)

lemma remove_well_keyed: "well_keyed s \<Longrightarrow> well_keyed (remove_object k i s)"
  by (simp add: well_keyed_def st.get_del)

lemma drop_old_name_distinct: "maps_distinct s \<Longrightarrow> maps_distinct (drop_old_name k i s)"
  by (auto simp: maps_distinct_def drop_old_name_def hm.invar_del split: option.split)

lemma insert_maps_distinct:
  assumes "maps_distinct s"
  shows "maps_distinct (insert_object obj s)"
proof -
  have "maps_distinct (add_name obj (drop_old_name (obj_kind obj) (obj_id obj) s))"
    using drop_old_name_distinct [OF assms]
    by (auto simp: maps_distinct_def add_name_def hm.invar_ins split: option.split)
  then show ?thesis
    by (auto simp: insert_object_def maps_distinct_def put_typed_def hm.invar_ins
        split: store_object.split)
qed

lemma remove_maps_distinct: "maps_distinct s \<Longrightarrow> maps_distinct (remove_object k i s)"
  using drop_old_name_distinct [of s k i]
  by (auto simp: remove_object_def maps_distinct_def remove_typed_def hm.invar_del
      split: object_kind.split)

lemma insert_store_wf: "store_wf s \<Longrightarrow> store_wf (insert_object obj s)"
  by (simp add: store_wf_def insert_well_keyed insert_maps_distinct insert_names_sound)

lemma remove_store_wf: "store_wf s \<Longrightarrow> store_wf (remove_object k i s)"
  by (simp add: store_wf_def remove_well_keyed remove_maps_distinct remove_names_sound)

lemma apply_action_wf: "store_wf s \<Longrightarrow> store_wf (fst (apply_action v a (s, evs)))"
  by (cases a) (simp_all add: Let_def insert_store_wf remove_store_wf)

lemma apply_actions_wf: "store_wf s \<Longrightarrow> store_wf (fst (fold (apply_action v) acts (s, evs)))"
proof (induction acts arbitrary: s evs)
  case (Cons a acts)
  with apply_action_wf [of s v a evs] show ?case
    by (cases "apply_action v a (s, evs)") simp
qed simp

lemma apply_transaction_wf:
  "store_wf s \<Longrightarrow> apply_transaction s p index len = (reply, evs, s') \<Longrightarrow> store_wf s'"
  using apply_actions_wf [of s index "proposal_actions p" "[]"]
  by (auto simp: apply_transaction_def split: sum.splits prod.splits)

lemma get_object_cursors [simp]:
  "get_object (s\<lparr>last_applied := x\<rparr>) = get_object s"
  "get_object (s\<lparr>removed_raft_ids := g\<rparr>) = get_object s"
  "get_object (s\<lparr>last_membership := m\<rparr>) = get_object s"
  by (simp_all add: get_object_def fun_eq_iff split: object_kind.split)

lemma store_wf_cursors [simp]:
  "store_wf (s\<lparr>last_applied := x\<rparr>) = store_wf s"
  "store_wf (s\<lparr>removed_raft_ids := g\<rparr>) = store_wf s"
  "store_wf (s\<lparr>last_membership := m\<rparr>) = store_wf s"
  by (simp_all add: store_wf_def well_keyed_def maps_distinct_def names_sound_def)

lemma apply_entry_wf: "store_wf s \<Longrightarrow> apply_entry R s e len = (reply, evs, s') \<Longrightarrow> store_wf s'"
  by (auto simp: apply_entry_def Let_def dest: apply_transaction_wf
      split: prod.splits entry_payload.splits)

lemma get_object_default [simp]: "get_object (store_default R) k i = None"
  by (cases k) (simp_all add: get_object_def store_default_def)

lemma store_default_wf [simp]: "store_wf (store_default R)"
  by (simp add: store_wf_def well_keyed_def names_sound_def maps_distinct_def hm_invar_def)
     (simp add: store_default_def)

lemma fold_insert_wf: "store_wf s \<Longrightarrow> store_wf (fold insert_object objs s)"
  by (induction objs arbitrary: s) (simp_all add: insert_store_wf)

lemma install_wf: "store_wf (install_into R p)"
  by (simp add: install_into_def fold_insert_wf)

section \<open>Snapshots\<close>

lemma hm_value_ex: "hm_invar m \<Longrightarrow> (\<exists>e\<in>set m. v = snd e) \<longleftrightarrow> (\<exists>i. map_of m i = Some v)"
  using hm.values_mem [of m v] by (auto simp: image_iff)

lemma snapshot_objects_mem:
  assumes "store_wf s"
  shows "obj \<in> set (snapshot_objects (from_store s sid)) \<longleftrightarrow>
         get_object s (obj_kind obj) (obj_id obj) = Some obj"
proof -
  have maps: "maps_distinct s" and keyed: "\<And>k i x. get_object s k i = Some x \<Longrightarrow> obj_id x = i"
    using assms by (simp_all add: store_wf_def well_keyed_def)
  have "obj \<in> set (snapshot_objects (from_store s sid)) \<longleftrightarrow>
        (\<exists>i. get_object s (obj_kind obj) i = Some obj)"
    using maps by (cases obj) (simp_all add: snapshot_objects_def from_store_def get_object_def
      obj_kind_def maps_distinct_def hm_value_ex image_iff)
  with keyed show ?thesis
    by metis
qed

lemma map_of_keyed_objects:
  assumes "\<And>x y. x \<in> set objs \<Longrightarrow> y \<in> set objs \<Longrightarrow> obj_key x = obj_key y \<Longrightarrow> x = y"
  shows "map_of (map (\<lambda>x. (obj_key x, x)) objs) key = Some x \<longleftrightarrow> x \<in> set objs \<and> obj_key x = key"
  using assms by (induction objs) auto

lemma fold_insert_map:
  assumes "\<And>x y. x \<in> set objs \<Longrightarrow> y \<in> set objs \<Longrightarrow> obj_key x = obj_key y \<Longrightarrow> x = y"
    and "\<And>k i. get_object s k i = None"
  shows "get_object (fold insert_object objs s) k i = Some x \<longleftrightarrow>
         x \<in> set objs \<and> obj_key x = (k, i)"
proof -
  have "get_object (fold insert_object objs s) k i =
        ((\<lambda>(k, i). get_object s k i) ++ map_of (map (\<lambda>x. (obj_key x, x)) (rev objs))) (k, i)"
    using st.get_fold_put [of objs s] by (simp add: fun_eq_iff rev_map)
  with map_of_keyed_objects [of "rev objs" "(k, i)" x] assms show ?thesis
    by (auto simp: map_add_def split: option.splits)
qed

lemma snapshot_objects_functional:
  assumes "store_wf s" "x \<in> set (snapshot_objects (from_store s sid))"
    "y \<in> set (snapshot_objects (from_store s sid))" "obj_key x = obj_key y"
  shows "x = y"
proof -
  have "get_object s (obj_kind x) (obj_id x) = Some x" "get_object s (obj_kind y) (obj_id y) = Some y"
    using assms(2,3) snapshot_objects_mem [OF assms(1)] by blast+
  with assms(4) show ?thesis
    by (metis Pair_inject option.inject)
qed

lemma install_get_object:
  assumes "store_wf s"
  shows "get_object (install_into R (from_store s sid)) k i = get_object s k i"
proof -
  have "get_object (install_into R (from_store s sid)) k i = Some x \<longleftrightarrow> get_object s k i = Some x"
    for x
  proof -
    have "get_object s k i = Some x \<Longrightarrow> obj_key x = (k, i)"
      using assms by (simp add: store_wf_def well_keyed_def)
    then have "x \<in> set (snapshot_objects (from_store s sid)) \<and> obj_key x = (k, i) \<longleftrightarrow>
        get_object s k i = Some x"
      using snapshot_objects_mem [OF assms, of x sid] by auto
    then show ?thesis
      unfolding install_into_def
      by (subst fold_insert_map) (use snapshot_objects_functional [OF assms] in blast, simp_all)
  qed
  then show ?thesis
    by (metis option.exhaust)
qed

text \<open>An exact name index: it holds precisely the names of the live objects.\<close>

definition names_exact :: "('lid, 'mem) store_inner \<Rightarrow> bool" where
  "names_exact s \<longleftrightarrow>
     (\<forall>k n i. by_name s k n = Some i \<longleftrightarrow>
        (\<exists>obj. get_object s k i = Some obj \<and> object_name obj = Some n))"

lemma names_exact_unique:
  assumes "names_exact s" "get_object s k i = Some x" "object_name x = Some n"
    "get_object s k j = Some y" "object_name y = Some n"
  shows "i = j"
proof -
  have "by_name s k n = Some i" "by_name s k n = Some j"
    using assms unfolding names_exact_def by blast+
  then show ?thesis
    by simp
qed

lemma lookup_insert_names:
  "map_of (st_names (insert_object obj s)) (k, n) =
     (if k = obj_kind obj \<and> object_name obj = Some n then Some (obj_id obj)
      else map_of (st_names (drop_old_name (obj_kind obj) (obj_id obj) s)) (k, n))"
  by (auto simp: insert_object_def add_name_def split: option.split)

lemma insert_names_exact:
  assumes "names_exact s"
    and unique: "\<And>n i x. object_name obj = Some n \<Longrightarrow> get_object s (obj_kind obj) i = Some x \<Longrightarrow>
       object_name x = Some n \<Longrightarrow> i = obj_id obj"
  shows "names_exact (insert_object obj s)"
  unfolding names_exact_def
proof (intro allI)
  fix k n i
  have old: "map_of (st_names s) (k, n) = Some i \<longleftrightarrow>
      (\<exists>x. get_object s k i = Some x \<and> object_name x = Some n)" for k n i
    using assms(1) by (simp add: names_exact_def by_name_def)
  show "by_name (insert_object obj s) k n = Some i \<longleftrightarrow>
      (\<exists>x. get_object (insert_object obj s) k i = Some x \<and> object_name x = Some n)"
  proof (cases "k = obj_kind obj \<and> object_name obj = Some n")
    case True
    then show ?thesis
      using unique by (auto simp: by_name_def lookup_insert_names st.get_put)
  next
    case False
    then show ?thesis
      by (auto simp: by_name_def lookup_insert_names lookup_drop_old_name st.get_put old
          dest: names_exact_unique [OF assms(1)])
  qed
qed

lemma remove_names_exact:
  assumes "names_exact s"
  shows "names_exact (remove_object k' i' s)"
  unfolding names_exact_def
proof (intro allI)
  fix k n i
  have old: "map_of (st_names s) (k, n) = Some i \<longleftrightarrow>
      (\<exists>x. get_object s k i = Some x \<and> object_name x = Some n)" for k n i
    using assms by (simp add: names_exact_def by_name_def)
  show "by_name (remove_object k' i' s) k n = Some i \<longleftrightarrow>
      (\<exists>x. get_object (remove_object k' i' s) k i = Some x \<and> object_name x = Some n)"
    by (auto simp: by_name_def remove_object_def lookup_drop_old_name old
        dest: names_exact_unique [OF assms])
qed

lemma fold_insert_exact:
  assumes "names_exact s" "\<And>k i. get_object s k i = None"
    and functional: "\<And>x y. x \<in> set objs \<Longrightarrow> y \<in> set objs \<Longrightarrow> obj_key x = obj_key y \<Longrightarrow> x = y"
    and unique: "\<And>x y n. x \<in> set objs \<Longrightarrow> y \<in> set objs \<Longrightarrow> obj_kind x = obj_kind y \<Longrightarrow>
      object_name x = Some n \<Longrightarrow> object_name y = Some n \<Longrightarrow> obj_id x = obj_id y"
  shows "names_exact (fold insert_object objs s)"
  using functional unique
proof (induction objs rule: rev_induct)
  case (snoc x objs)
  have functional: "y = z" if "y \<in> set objs" "z \<in> set objs" "obj_key y = obj_key z" for y z
    using snoc.prems(1) [of y z] that by simp
  have "obj_id y = obj_id z" if "y \<in> set objs" "z \<in> set objs" "obj_kind y = obj_kind z"
    "object_name y = Some n" "object_name z = Some n" for y z n
    using snoc.prems(2) [of y z n] that by simp
  with functional have exact: "names_exact (fold insert_object objs s)"
    by (rule snoc.IH)
  have "i = obj_id x" if name: "object_name x = Some n"
    and stored: "get_object (fold insert_object objs s) (obj_kind x) i = Some y"
    and other: "object_name y = Some n" for n i y
  proof -
    from stored have "y \<in> set objs" "obj_key y = (obj_kind x, i)"
      using fold_insert_map [of objs s "obj_kind x" i y] functional assms(2) by simp_all
    with name other snoc.prems(2) [of x y n] show ?thesis
      by simp
  qed
  with insert_names_exact [OF exact, of x] show ?case
    by simp
qed (simp add: assms(1))

lemma fold_insert_cursors [simp]:
  "last_applied (fold insert_object objs s) = last_applied s"
  "last_membership (fold insert_object objs s) = last_membership s"
  "removed_raft_ids (fold insert_object objs s) = removed_raft_ids s"
  by (induction objs arbitrary: s) (simp_all add: insert_object_def put_typed_def add_name_def
      drop_old_name_def split: store_object.split option.split)

lemma install_names_exact:
  assumes "store_wf s" "names_exact s"
  shows "names_exact (install_into R (from_store s sid))"
  unfolding install_into_def
proof (rule fold_insert_exact)
  show "names_exact ((store_default R)\<lparr>last_applied := snap_last_applied (from_store s sid),
      last_membership := snap_last_membership (from_store s sid),
      removed_raft_ids := snap_removed_raft_ids (from_store s sid)\<rparr>)"
    by (simp add: names_exact_def by_name_def) (simp add: store_default_def)
next
  fix x y n
  assume "x \<in> set (snapshot_objects (from_store s sid))"
    "y \<in> set (snapshot_objects (from_store s sid))"
    "obj_kind x = obj_kind y" "object_name x = Some n" "object_name y = Some n"
  then show "obj_id x = obj_id y"
    using names_exact_unique [OF assms(2)] snapshot_objects_mem [OF assms(1)] by metis
next
  show "x = y" if "x \<in> set (snapshot_objects (from_store s sid))"
    "y \<in> set (snapshot_objects (from_store s sid))" "obj_key x = obj_key y" for x y
    using snapshot_objects_functional [OF assms(1)] that by blast
qed simp


section \<open>Reachable stores\<close>

text \<open>
  \<open>openraft\<close> applies the committed log in index order; a replica that is behind may instead
  install a snapshot another replica took of a store it reached.
\<close>

definition log_ordered :: "('lid, 'mem) raft_types \<Rightarrow> ('lid, 'mem) store_inner \<Rightarrow> 'lid \<Rightarrow> bool" where
  "log_ordered R s l \<longleftrightarrow> (case last_applied s of None \<Rightarrow> True | Some p \<Rightarrow> lid_index R p < lid_index R l)"

inductive store_step ::
  "('lid, 'mem) raft_types \<Rightarrow> ('lid, 'mem) store_inner \<Rightarrow> ('lid, 'mem) store_inner \<Rightarrow> bool"
  for R where
  entry: "log_ordered R s (entry_log_id e) \<Longrightarrow> apply_entry R s e len = (reply, evs, s') \<Longrightarrow>
    store_step R s s'"
| reload: "store_step R s (install_into R (from_store s sid))"

inductive store_run ::
  "('lid, 'mem) raft_types \<Rightarrow> ('lid, 'mem) store_inner \<Rightarrow> ('lid, 'mem) store_inner \<Rightarrow> bool"
  for R where
  stay: "store_run R s s"
| step: "store_run R s s' \<Longrightarrow> store_step R s' s'' \<Longrightarrow> store_run R s s''"

abbreviation store_reach ::
  "('lid, 'mem) raft_types \<Rightarrow> ('lid, 'mem) store_inner \<Rightarrow> bool" where
  "store_reach R s \<equiv> store_run R (store_default R) s"

inductive_cases store_stepE: "store_step R s s'"

definition applied_index :: "('lid, 'mem) raft_types \<Rightarrow> ('lid, 'mem) store_inner \<Rightarrow> nat" where
  "applied_index R s = (case last_applied s of None \<Rightarrow> 0 | Some l \<Rightarrow> lid_index R l)"

definition versions_bounded :: "('lid, 'mem) raft_types \<Rightarrow> ('lid, 'mem) store_inner \<Rightarrow> bool" where
  "versions_bounded R s \<longleftrightarrow>
     (\<forall>k i obj. get_object s k i = Some obj \<longrightarrow>
        last_applied s \<noteq> None \<and> object_version obj \<le> applied_index R s)"

lemma store_run_invariant:
  assumes "store_run R s s'" "P s" "\<And>s s'. P s \<Longrightarrow> store_step R s s' \<Longrightarrow> P s'"
  shows "P s'"
  using assms by (induction rule: store_run.induct) auto

lemma spec_action_written:
  "spec_action v a m = Inr m' \<Longrightarrow> m' key = Some x \<Longrightarrow> m key = Some x \<or> object_version x = v"
  by (cases a) (auto split: if_splits option.splits)

lemma spec_actions_written:
  assumes "spec_actions v acts m = Inr m'" "m' key = Some x"
  shows "m key = Some x \<or> object_version x = v"
  using assms
proof (induction acts arbitrary: m)
  case (Cons a acts)
  then obtain m1 where step: "spec_action v a m = Inr m1" and "spec_actions v acts m1 = Inr m'"
    by (auto split: sum.splits)
  with Cons have "m1 key = Some x \<or> object_version x = v"
    by blast
  with spec_action_written [OF step] show ?case
    by blast
qed simp

lemma apply_entry_cases:
  assumes "apply_entry R s e len = (reply, evs, s')"
  obtains (same) "store_map s' = store_map s" "last_applied s' = Some (entry_log_id e)"
  | (written) p where "entry_payload e = Normal p"
      "reply = Applied (lid_index R (entry_log_id e))"
      "spec_actions (lid_index R (entry_log_id e)) (proposal_actions p) (store_map s) =
         Inr (store_map s')" "last_applied s' = Some (entry_log_id e)"
proof (cases "entry_payload e")
  case (Normal p)
  obtain r evs' s1 where tx: "apply_transaction s p (lid_index R (entry_log_id e)) len = (r, evs', s1)"
    by (metis prod_cases3)
  with assms Normal have s': "s' = s1\<lparr>last_applied := Some (entry_log_id e)\<rparr>" "reply = r"
    by (simp_all add: apply_entry_def Let_def)
  show ?thesis
  proof (cases r)
    case (Applied v)
    with applied_spec [of s p "lid_index R (entry_log_id e)" len v evs' s1] tx
    have "spec_transaction (store_map s) p (lid_index R (entry_log_id e)) len =
        Inr (store_map s1)" "v = lid_index R (entry_log_id e)"
      by simp_all
    with Applied s' show ?thesis
      by (intro written [OF Normal]) (simp_all add: spec_transaction_def split: if_splits)
  next
    case (Rejected x)
    with rejected_spec [of s p "lid_index R (entry_log_id e)" len x evs' s1] tx s' show ?thesis
      by (intro same) simp_all
  qed
next
  case Blank
  with assms show ?thesis
    by (intro same) (auto simp: apply_entry_def Let_def)
next
  case (Membership m)
  with assms show ?thesis
    by (intro same) (auto simp: apply_entry_def Let_def)
qed

lemma install_applied [simp]:
  "last_applied (install_into R (from_store s sid)) = last_applied s"
  "last_membership (install_into R (from_store s sid)) = last_membership s"
  "removed_raft_ids (install_into R (from_store s sid)) = removed_raft_ids s"
  by (simp_all add: install_into_def from_store_def)

lemma install_store_map [simp]: "store_wf s \<Longrightarrow> store_map (install_into R (from_store s sid)) = store_map s"
  by (simp add: store_map_def install_get_object fun_eq_iff)

lemma store_step_wf: "store_wf s \<Longrightarrow> store_step R s s' \<Longrightarrow> store_wf s'"
  by (auto elim!: store_stepE intro: apply_entry_wf install_wf)

lemma store_run_wf: "store_run R s s' \<Longrightarrow> store_wf s \<Longrightarrow> store_wf s'"
  by (rule store_run_invariant) (auto intro: store_step_wf)

text \<open>
  The shape of every invariant over one object of the store: it survives whatever an action of
  entry \<open>v\<close> writes there, and the removal of the object.
\<close>

definition object_invariant ::
  "('lid, 'mem) raft_types \<Rightarrow> nat \<Rightarrow> object_kind \<times> id \<Rightarrow> (store_object \<Rightarrow> bool) \<Rightarrow>
   ('lid, 'mem) store_inner \<Rightarrow> bool" where
  "object_invariant R n key P s \<longleftrightarrow> store_wf s \<and> last_applied s \<noteq> None \<and> n \<le> applied_index R s \<and>
     (\<forall>x. store_map s key = Some x \<longrightarrow> P x)"

lemma spec_action_object:
  "spec_action v a m = Inr m' \<Longrightarrow> m' key = Some x \<Longrightarrow>
   m key = Some x \<or> (\<exists>obj. x = stamp_spec_version (m key) v (stamp_version v obj))"
  by (cases a) (auto split: if_splits option.splits)

lemma spec_actions_object:
  assumes "spec_actions v acts m = Inr m'" "m' key = Some x" "\<And>y. m key = Some y \<Longrightarrow> P y"
    and stamped: "\<And>old obj. (case old of None \<Rightarrow> True | Some y \<Rightarrow> P y) \<Longrightarrow>
      P (stamp_spec_version old v (stamp_version v obj))"
  shows "P x"
  using assms(1-3)
proof (induction acts arbitrary: m)
  case (Cons a acts)
  then obtain m1 where step: "spec_action v a m = Inr m1" and rest: "spec_actions v acts m1 = Inr m'"
    by (auto split: sum.splits)
  have old: "case m key of None \<Rightarrow> True | Some y \<Rightarrow> P y"
    using Cons.prems(3) by (simp split: option.split)
  have "P y" if "m1 key = Some y" for y
    using spec_action_object [OF step that] Cons.prems(3) [of y] stamped [OF old] by blast
  with Cons.IH [OF rest Cons.prems(2)] show ?case
    by blast
qed simp

lemma object_invariant_step:
  assumes "object_invariant R n key P s" "store_step R s s'"
    and stamped: "\<And>v old obj. n < v \<Longrightarrow> (case old of None \<Rightarrow> True | Some y \<Rightarrow> P y) \<Longrightarrow>
      P (stamp_spec_version old v (stamp_version v obj))"
  shows "object_invariant R n key P s'"
  using assms(2)
proof cases
  case (entry e len reply evs)
  have old: "store_map s key = Some x \<Longrightarrow> P x" for x
    using assms(1) by (simp add: object_invariant_def)
  have n: "n < lid_index R (entry_log_id e)"
    using assms(1) entry(1) by (auto simp: object_invariant_def log_ordered_def applied_index_def)
  have wf: "store_wf s'"
    using assms(1) apply_entry_wf [OF _ entry(2)] by (simp add: object_invariant_def)
  from entry(2) have "last_applied s' = Some (entry_log_id e) \<and> (\<forall>x. store_map s' key = Some x \<longrightarrow> P x)"
  proof (cases rule: apply_entry_cases)
    case same
    with old show ?thesis
      by simp
  next
    case (written p)
    have "P x" if "store_map s' key = Some x" for x
      using written(3) that old stamped [OF n] by (rule spec_actions_object)
    with written(4) show ?thesis
      by blast
  qed
  with n wf show ?thesis
    by (simp add: object_invariant_def applied_index_def)
next
  case (reload sid)
  with assms(1) show ?thesis
    by (simp add: object_invariant_def applied_index_def install_wf)
qed

lemma object_invariant_run:
  assumes "store_run R s s'" "object_invariant R n key P s"
    and stamped: "\<And>v old obj. n < v \<Longrightarrow> (case old of None \<Rightarrow> True | Some y \<Rightarrow> P y) \<Longrightarrow>
      P (stamp_spec_version old v (stamp_version v obj))"
  shows "object_invariant R n key P s'"
  using assms(1,2)
proof (induction rule: store_run.induct)
  case (step s s' s'')
  show ?case
    by (rule object_invariant_step [OF step.IH [OF step.prems] step.hyps(2)]) (rule stamped)
qed simp

text \<open>Neither version of an object is ahead of the log.\<close>

definition stamps_upto :: "nat \<Rightarrow> store_object \<Rightarrow> bool" where
  "stamps_upto n x \<longleftrightarrow> object_version x \<le> n \<and>
     (case x of store_object.Service q \<Rightarrow> service_spec_version q \<le> n | _ \<Rightarrow> True)"

lemma stamps_upto_mono: "stamps_upto n x \<Longrightarrow> n \<le> n' \<Longrightarrow> stamps_upto n' x"
  by (auto simp: stamps_upto_def split: store_object.splits)

lemma stamps_upto_stamped:
  assumes "case old of None \<Rightarrow> True | Some y \<Rightarrow> stamps_upto v y"
  shows "stamps_upto v (stamp_spec_version old v (stamp_version v obj))"
proof -
  have "object_version (stamp_spec_version old v (stamp_version v obj)) \<le> v"
    by simp
  moreover have "case stamp_spec_version old v x of
      store_object.Service q \<Rightarrow> service_spec_version q \<le> v | _ \<Rightarrow> True" for x
    using assms by (cases x) (auto simp: stamps_upto_def stamp_spec_version_def
        split: option.splits store_object.splits)
  ultimately show ?thesis
    unfolding stamps_upto_def by blast
qed

definition log_bounded :: "('lid, 'mem) raft_types \<Rightarrow> ('lid, 'mem) store_inner \<Rightarrow> bool" where
  "log_bounded R s \<longleftrightarrow>
     (\<forall>key x. store_map s key = Some x \<longrightarrow> last_applied s \<noteq> None \<and> stamps_upto (applied_index R s) x)"

lemma store_step_log_bounded:
  assumes "store_wf s" "log_bounded R s" "store_step R s s'"
  shows "log_bounded R s'"
  using assms(3)
proof cases
  case (entry e len reply evs)
  let ?v = "lid_index R (entry_log_id e)"
  have old: "stamps_upto ?v x" if "store_map s key = Some x" for key x
  proof (rule stamps_upto_mono)
    show "stamps_upto (applied_index R s) x"
      using assms(2) that unfolding log_bounded_def by blast
    show "applied_index R s \<le> ?v"
      using entry(1) by (simp add: log_ordered_def applied_index_def split: option.splits)
  qed
  from entry(2) have "last_applied s' = Some (entry_log_id e) \<and>
      (\<forall>key x. store_map s' key = Some x \<longrightarrow> stamps_upto ?v x)"
  proof (cases rule: apply_entry_cases)
    case same
    with old show ?thesis
      by simp
  next
    case (written p)
    have "stamps_upto ?v x" if "store_map s' key = Some x" for key x
      using written(3) that old stamps_upto_stamped by (rule spec_actions_object)
    with written(4) show ?thesis
      by blast
  qed
  then show ?thesis
    by (simp add: log_bounded_def applied_index_def)
next
  case (reload sid)
  with assms show ?thesis
    by (simp add: log_bounded_def applied_index_def)
qed

lemma store_reach_invariant: "store_reach R s \<Longrightarrow> store_wf s \<and> log_bounded R s"
proof (erule store_run_invariant)
  show "store_wf (store_default R) \<and> log_bounded R (store_default R)"
    by (simp add: log_bounded_def store_map_def)
qed (blast intro: store_step_wf store_step_log_bounded)

text \<open>
  C9. Every store a replica can reach, by applying entries in log order and by installing
  snapshots, is well formed: each object is stored under its own kind and id, once; every entry
  of the name index leads to a live object that bears that name; and no object's version, nor
  a service's spec version, is ahead of the last applied index.
\<close>

theorem store_reach_wf:
  assumes "store_reach R s"
  shows "well_keyed s \<and> maps_distinct s \<and> names_sound s \<and>
    (\<forall>k i x. get_object s k i = Some x \<longrightarrow> object_version x \<le> applied_index R s) \<and>
    (\<forall>i q. view_service s i = Some q \<longrightarrow> service_spec_version q \<le> applied_index R s)"
proof -
  have wf: "store_wf s" and bound: "get_object s k i = Some x \<Longrightarrow> stamps_upto (applied_index R s) x" for k i x
    using store_reach_invariant [OF assms] by (auto simp: log_bounded_def store_map_def)
  have "view_service s i = Some q \<Longrightarrow> get_object s object_kind.Service i = Some (store_object.Service q)"
    for i q
    by (simp add: view_service_def get_object_def)
  with bound have "view_service s i = Some q \<Longrightarrow> service_spec_version q \<le> applied_index R s" for i q
    by (fastforce simp: stamps_upto_def)
  with wf bound show ?thesis
    by (auto simp: store_wf_def stamps_upto_def)
qed

section \<open>Optimistic concurrency\<close>

lemma spec_actions_updated:
  assumes "spec_actions v acts m = Inr m'" "Update a \<in> set acts" "m' (obj_key a) = Some x"
  shows "object_version x = v"
  using assms
proof (induction acts arbitrary: m)
  case (Cons act acts)
  then obtain m1 where step: "spec_action v act m = Inr m1" and rest: "spec_actions v acts m1 = Inr m'"
    by (auto split: sum.splits)
  show ?case
  proof (cases "Update a \<in> set acts")
    case True
    with Cons.IH rest Cons.prems(3) show ?thesis
      by blast
  next
    case False
    with Cons.prems(2) have "act = Update a"
      by simp
    with step have "\<exists>y. m1 (obj_key a) = Some y \<and> object_version y = v"
      by (auto split: option.splits if_splits)
    with spec_actions_written [OF rest Cons.prems(3)] show ?thesis
      by auto
  qed
qed simp

lemma spec_actions_stale:
  assumes "spec_actions v acts m = Inr m'" "n \<le> v" "Update b \<in> set acts" "object_version b < n"
    and "\<And>y. m (obj_key b) = Some y \<Longrightarrow> n \<le> object_version y"
  shows False
  using assms(1,3,5)
proof (induction acts arbitrary: m)
  case (Cons act acts)
  then obtain m1 where step: "spec_action v act m = Inr m1" and rest: "spec_actions v acts m1 = Inr m'"
    by (auto split: sum.splits)
  show ?case
  proof (cases "act = Update b")
    case True
    with step Cons.prems(3) assms(4) show ?thesis
      by (auto split: option.splits if_splits)
  next
    case False
    with Cons.prems(2) have "Update b \<in> set acts"
      by simp
    moreover have "n \<le> object_version y" if "m1 (obj_key b) = Some y" for y
      using spec_action_written [OF step that] Cons.prems(3) assms(2) by auto
    ultimately show ?thesis
      using Cons.IH [OF rest] by blast
  qed
qed simp

lemma apply_entry_applied:
  assumes "entry_payload e = Normal p" "apply_entry R s e len = (Applied n, evs, s')"
  shows "n = lid_index R (entry_log_id e) \<and> last_applied s' = Some (entry_log_id e) \<and>
    spec_actions n (proposal_actions p) (store_map s) = Inr (store_map s')"
proof -
  obtain r evs' s1 where tx: "apply_transaction s p (lid_index R (entry_log_id e)) len = (r, evs', s1)"
    by (metis prod_cases3)
  with assms have "r = Applied n" "s' = s1\<lparr>last_applied := Some (entry_log_id e)\<rparr>"
    by (simp_all add: apply_entry_def Let_def)
  with applied_spec [of s p "lid_index R (entry_log_id e)" len n evs' s1] tx show ?thesis
    by (simp add: spec_transaction_def split: if_splits)
qed

lemma log_bounded_before:
  assumes "log_bounded R s" "log_ordered R s l" "store_map s key = Some x"
  shows "\<exists>m < lid_index R l. stamps_upto m x"
proof -
  from assms(1,3) have "last_applied s \<noteq> None" "stamps_upto (applied_index R s) x"
    unfolding log_bounded_def by blast+
  with assms(2) show ?thesis
    by (intro exI [of _ "applied_index R s"]) (auto simp: log_ordered_def applied_index_def)
qed

text \<open>
  C2. No update is lost. Two writers read the same version of an object; once the first one's update
  has been applied, every later proposal that still updates the object from that version is
  rejected, however many entries and snapshot installations lie in between, and even if the
  object was removed and created again meanwhile.
\<close>

theorem no_lost_update:
  assumes reach: "store_reach R s" and read: "get_object s k i = Some x"
    and first: "log_ordered R s (entry_log_id e1)" "entry_payload e1 = Normal p1"
      "Update a \<in> set (proposal_actions p1)" "obj_key a = (k, i)"
      "apply_entry R s e1 len1 = (Applied n, evs1, s1)"
    and run: "store_run R s1 s2"
    and second: "log_ordered R s2 (entry_log_id e2)" "entry_payload e2 = Normal p2"
      "Update b \<in> set (proposal_actions p2)" "obj_key b = (k, i)"
      "object_version b = object_version x"
  shows "\<exists>r. fst (apply_entry R s2 e2 len2) = Rejected r"
proof (rule ccontr)
  assume "\<not> ?thesis"
  then obtain n2 evs2 s3 where e2: "apply_entry R s2 e2 len2 = (Applied n2, evs2, s3)"
    by (metis fst_conv prod_cases3 proposal_response.exhaust)
  note tx1 = apply_entry_applied [OF first(2,5)] and tx2 = apply_entry_applied [OF second(2) e2]
  have inv: "store_wf s" "log_bounded R s"
    using store_reach_invariant [OF reach] by auto
  have stale: "object_version b < n"
    using log_bounded_before [OF inv(2) first(1), of "(k, i)" x] read tx1 second(5)
    by (auto simp: store_map_def stamps_upto_def)
  have "object_version y = n" if "store_map s1 (k, i) = Some y" for y
    using spec_actions_updated [OF _ first(3), of n "store_map s" "store_map s1" y] tx1 first(4) that
    by metis
  then have "object_invariant R n (k, i) (\<lambda>y. n \<le> object_version y) s1"
    using apply_entry_wf [OF inv(1) first(5)] tx1
    by (simp add: object_invariant_def applied_index_def)
  then have floor: "object_invariant R n (k, i) (\<lambda>y. n \<le> object_version y) s2"
    by (rule object_invariant_run [OF run]) simp
  then have "n \<le> n2"
    using second(1) tx2 by (auto simp: object_invariant_def applied_index_def log_ordered_def)
  moreover have "n \<le> object_version y" if "store_map s2 (obj_key b) = Some y" for y
    using floor that second(4) by (simp add: object_invariant_def)
  ultimately show False
    using spec_actions_stale [OF _ _ second(3) stale] tx2 by blast
qed

section \<open>Spec versions\<close>

text \<open>
  C11. A service's spec version identifies its spec: if a service has, at two points of a replica's
  history, the same spec version, then it has the same spec, whatever updates of its status,
  removals and re-creations happened in between. (A task carrying the version of its service is
  therefore built from the service's present spec.)
\<close>

theorem spec_version_identifies_spec:
  assumes reach: "store_reach R s" and before: "view_service s i = Some p"
    and run: "store_run R s s'" and later: "view_service s' i = Some q"
    and same: "service_spec_version q = service_spec_version p"
  shows "service_spec q = service_spec p"
proof -
  let ?key = "(object_kind.Service, i)"
  let ?P = "\<lambda>x. case x of
      store_object.Service y \<Rightarrow> applied_index R s < service_spec_version y \<or>
        service_spec_version y = service_spec_version p \<and> service_spec y = service_spec p
    | _ \<Rightarrow> True"
  have inv: "store_wf s" "log_bounded R s"
    using store_reach_invariant [OF reach] by auto
  have stored: "store_map s ?key = Some (store_object.Service p)"
      "store_map s' ?key = Some (store_object.Service q)"
    using before later by (simp_all add: view_service_def store_map_def get_object_def)
  then have "last_applied s \<noteq> None \<and> stamps_upto (applied_index R s) (store_object.Service p)"
    using inv(2) unfolding log_bounded_def by blast
  then have bound: "last_applied s \<noteq> None" "service_spec_version p \<le> applied_index R s"
    by (simp_all add: stamps_upto_def)
  have "object_invariant R (applied_index R s) ?key ?P s"
    using inv(1) bound(1) stored(1) by (simp add: object_invariant_def)
  then have "object_invariant R (applied_index R s) ?key ?P s'"
  proof (rule object_invariant_run [OF run])
    fix v old obj
    assume "applied_index R s < v" "case old of None \<Rightarrow> True | Some y \<Rightarrow> ?P y"
    then show "?P (stamp_spec_version old v (stamp_version v obj))"
      by (cases "stamp_version v obj")
        (simp_all add: stamp_spec_version_def split: option.splits store_object.splits, auto)
  qed
  then have "?P (store_object.Service q)"
    using stored(2) unfolding object_invariant_def by blast
  with bound(2) same show ?thesis
    by simp
qed

text \<open>So does the version of any object: the same version at two points is the same object.\<close>

lemma version_identifies_object:
  assumes reach: "store_reach R s" and stored: "store_map s key = Some x"
    and run: "store_run R s s'" and later: "store_map s' key = Some y"
    and same: "object_version y = object_version x"
  shows "y = x"
proof -
  let ?P = "\<lambda>z. applied_index R s < object_version z \<or> z = x"
  have inv: "store_wf s" "log_bounded R s"
    using store_reach_invariant [OF reach] by auto
  then have bound: "last_applied s \<noteq> None" "object_version x \<le> applied_index R s"
    using stored unfolding log_bounded_def stamps_upto_def by blast+
  have "object_invariant R (applied_index R s) key ?P s"
    using inv(1) bound(1) stored by (simp add: object_invariant_def)
  then have "object_invariant R (applied_index R s) key ?P s'"
    by (rule object_invariant_run [OF run]) simp
  with later same bound(2) show ?thesis
    by (auto simp: object_invariant_def)
qed

lemma single_update:
  assumes "spec_actions n [Update obj] m = Inr m'"
  shows "\<exists>x. m (obj_key obj) = Some x \<and> object_version x = object_version obj \<and>
    m' = m(obj_key obj \<mapsto> stamp_spec_version (Some x) n (stamp_version n obj))"
  using assms by (auto split: option.splits if_splits)

lemma task_stored: "view_task s i = Some t \<longleftrightarrow> store_map s (object_kind.Task, i) = Some (store_object.Task t)"
  by (auto simp: view_task_def store_map_def get_object_def)

section \<open>The removal blacklist\<close>

lemma insert_cursors [simp]:
  "last_membership (insert_object obj s) = last_membership s"
  "removed_raft_ids (insert_object obj s) = removed_raft_ids s"
  using fold_insert_cursors [of "[obj]" s] by simp_all

lemma drop_old_name_cursors [simp]:
  "last_membership (drop_old_name k i s) = last_membership s"
  "removed_raft_ids (drop_old_name k i s) = removed_raft_ids s"
  by (simp_all add: drop_old_name_def split: option.split)

lemma remove_cursors [simp]:
  "last_membership (remove_object k i s) = last_membership s"
  "removed_raft_ids (remove_object k i s) = removed_raft_ids s"
  by (cases k; simp add: remove_object_def remove_typed_def)+

lemma apply_transaction_cursors:
  assumes "apply_transaction s p index len = (reply, evs, s')"
  shows "removed_raft_ids s' = removed_raft_ids s \<and> last_membership s' = last_membership s"
proof -
  have one: "removed_raft_ids (fst (apply_action v a (s, evs))) = removed_raft_ids s \<and>
      last_membership (fst (apply_action v a (s, evs))) = last_membership s" for v a s evs
    by (cases a) (simp_all add: Let_def)
  have "removed_raft_ids (fst (fold (apply_action v) acts (s, evs))) = removed_raft_ids s \<and>
      last_membership (fst (fold (apply_action v) acts (s, evs))) = last_membership s" for v acts s evs
  proof (induction acts arbitrary: s evs)
    case (Cons a acts)
    then show ?case
      using one [of v a s evs] by (cases "apply_action v a (s, evs)") simp
  qed simp
  from this [of index "proposal_actions p" s "[]"] assms show ?thesis
    by (auto simp: apply_transaction_def split: sum.splits prod.splits)
qed

lemma store_step_blacklist:
  assumes "store_step R s s'"
  shows "removed_raft_ids s \<subseteq> removed_raft_ids s' \<and>
    set (mem_ids R (snd (last_membership s))) \<subseteq>
      set (mem_ids R (snd (last_membership s'))) \<union> removed_raft_ids s'"
  using assms
proof cases
  case (entry e len reply evs)
  show ?thesis
  proof (cases "entry_payload e")
    case (Normal p)
    with entry(2) have "\<exists>s1. s' = s1\<lparr>last_applied := Some (entry_log_id e)\<rparr> \<and>
        removed_raft_ids s1 = removed_raft_ids s \<and> last_membership s1 = last_membership s"
      using apply_transaction_cursors [of s p "lid_index R (entry_log_id e)" len]
      by (cases "apply_transaction s p (lid_index R (entry_log_id e)) len")
        (auto simp: apply_entry_def)
    then show ?thesis
      by auto
  next
    case Blank
    with entry(2) have "s' = s\<lparr>last_applied := Some (entry_log_id e)\<rparr>"
      by (simp add: apply_entry_def)
    then show ?thesis
      by simp
  next
    case (Membership m)
    with entry(2) have "s' = s\<lparr>removed_raft_ids := removed_raft_ids s \<union>
        (set (mem_ids R (snd (last_membership s))) - set (mem_ids R m)),
        last_membership := (Some (entry_log_id e), m), last_applied := Some (entry_log_id e)\<rparr>"
      by (simp add: apply_entry_def Let_def)
    then show ?thesis
      by auto
  qed
qed simp

text \<open>
  C17. A Raft id is never forgotten: blacklisted ids stay blacklisted, and whoever was a member at
  some point of a replica's history is, at every later point, a member still or blacklisted.
\<close>

theorem removed_raft_ids_sticky:
  assumes "store_run R s s'"
  shows "removed_raft_ids s \<subseteq> removed_raft_ids s' \<and>
    set (mem_ids R (snd (last_membership s))) \<subseteq>
      set (mem_ids R (snd (last_membership s'))) \<union> removed_raft_ids s'"
  using assms
proof (induction rule: store_run.induct)
  case (step s s' s'')
  with store_step_blacklist [OF step.hyps(2)] show ?case
    by blast
qed simp

section \<open>Duplicate names\<close>

lemma spec_actions_single: "spec_actions v [a] m = spec_action v a m"
  by (simp split: sum.split)

text \<open>
  C22. The store does not keep names unique. Creating a second object of a kind under a name already
  taken (the race two API calls run that both found the name free) is accepted and takes the
  name over; when that second object is removed, the name resolves to nothing although the
  first object, which bears it, is still stored.
\<close>

theorem duplicate_name_shadows:
  assumes "store_wf s" and old: "get_object s k i = Some x" "object_name x = Some n"
    and new: "obj_kind obj = k" "object_name obj = Some n" "get_object s k (obj_id obj) = None"
    and size: "len \<le> MAX_TX_BYTES"
  shows "\<exists>evs1 s1 evs2 s2.
    apply_transaction s \<lparr>proposal_actions = [Create obj]\<rparr> v len = (Applied v, evs1, s1) \<and>
    by_name s1 k n = Some (obj_id obj) \<and>
    apply_transaction s1 \<lparr>proposal_actions = [store_action.Remove k (obj_id obj)]\<rparr> w len =
      (Applied w, evs2, s2) \<and>
    by_name s2 k n = None \<and> get_object s2 k i = Some x"
proof -
  define obj' where "obj' = stamp_spec_version None v (stamp_version v obj)"
  define s1 where "s1 = insert_object obj' s"
  have obj': "obj_kind obj' = k" "obj_id obj' = obj_id obj" "object_name obj' = Some n"
    using new by (simp_all add: obj'_def)
  have other: "i \<noteq> obj_id obj"
    using old(1) new(3) by auto
  have s1: "get_object s1 k (obj_id obj) = Some obj'" "get_object s1 k i = Some x"
    "by_name s1 k n = Some (obj_id obj)"
    using old(1) other by (simp_all add: s1_def st.get_put obj' by_name_def lookup_insert_names)
  have create: "apply_transaction s \<lparr>proposal_actions = [Create obj]\<rparr> v len =
      (Applied v, [Created obj', Commit v], s1)"
    using new size by (simp add: apply_transaction_def validate_transaction_def MAX_TX_ACTIONS_def
        contains_get s1_def obj'_def Let_def)
  have remove: "apply_transaction s1 \<lparr>proposal_actions = [store_action.Remove k (obj_id obj)]\<rparr> w len =
      (Applied w, [store_event.Removed k (obj_id obj), Commit w], remove_object k (obj_id obj) s1)"
    using s1(1) size by (simp add: apply_transaction_def validate_transaction_def MAX_TX_ACTIONS_def
        contains_get)
  have "by_name (remove_object k (obj_id obj) s1) k n = None"
    using s1(1,3) obj'(3) by (simp add: by_name_def remove_object_def lookup_drop_old_name)
  moreover have "get_object (remove_object k (obj_id obj) s1) k i = Some x"
    using s1(2) other by (simp add: st.get_del)
  ultimately show ?thesis
    using create remove s1(3) by blast
qed

end
