(* ===== verification/Cluster_Store_Witnesses.thy ===== *)
theory Cluster_Store_Witnesses
  imports Cluster_Store_Invariants
begin

text \<open>The theorems about the store at concrete stores, logs and proposals.\<close>

definition w_secret :: "nat \<Rightarrow> bytes \<Rightarrow> store_object" where
  "w_secret v d = store_object.Secret (sample_secret ''s1'' ''pw'' v d)"

definition w_create :: "(nat, nat list) entry" where
  "w_create = tx_entry 1 [Create (w_secret 0 ''a'')]"

definition w_update :: "nat \<Rightarrow> bytes \<Rightarrow> (nat, nat list) entry" where
  "w_update n d = tx_entry n [Update (w_secret 1 d)]"

definition w_store :: "(nat, nat list) store_inner" where
  "w_store = after (store_default nat_raft) w_create"

definition w_service :: "(nat, nat list) entry" where
  "w_service = tx_entry 2 [Create (store_object.Service (sample_service ''v1'' (Replicated 2)))]"

definition w_resave :: "(nat, nat list) entry" where
  "w_resave = tx_entry 3 [Update (store_object.Service
     ((sample_service ''v1'' (Replicated 2))\<lparr>service_meta := sample_meta 2\<rparr>))]"

definition w_members :: "nat \<Rightarrow> nat list \<Rightarrow> (nat, nat list) entry" where
  "w_members n ms = \<lparr>entry_log_id = n, entry_payload = Membership ms\<rparr>"

lemma after_step:
  "log_ordered nat_raft s (entry_log_id e) \<Longrightarrow> store_step nat_raft s (after s e)"
  by (rule store_step.entry [where e = e and len = 0 and reply = "fst (apply_entry nat_raft s e 0)"
        and evs = "fst (snd (apply_entry nat_raft s e 0))"]) (simp_all add: after_def)

lemma after_run:
  "store_run nat_raft s s' \<Longrightarrow> log_ordered nat_raft s' (entry_log_id e) \<Longrightarrow>
   store_run nat_raft s (after s' e)"
  by (rule store_run.step [OF _ after_step])

lemma w_store_reach: "store_reach nat_raft w_store"
  unfolding w_store_def by (rule after_run [OF store_run.stay]) code_simp

lemma w_store_object: "get_object w_store object_kind.Secret ''s1'' = Some (w_secret 1 ''a'')"
  by code_simp

lemma w_store_insert:
  "w_store = (insert_object (w_secret 1 ''a'') (store_default nat_raft))\<lparr>last_applied := Some 1\<rparr>"
proof -
  have "stamp_spec_version None 1 (stamp_version 1 (w_secret 0 ''a'')) = w_secret 1 ''a''"
    by code_simp
  moreover have "contains (store_default nat_raft) k i = False" for k i
    by (simp add: contains_get)
  ultimately show ?thesis
    by (simp add: w_store_def after_def w_create_def tx_entry_def apply_entry_def nat_raft_def
        apply_transaction_def validate_transaction_def MAX_TX_ACTIONS_def Let_def)
qed

lemma w_store_names_exact: "names_exact w_store"
proof -
  have "names_exact (store_default nat_raft)"
    by (simp add: names_exact_def by_name_def) (simp add: store_default_def)
  then have "names_exact (insert_object (w_secret 1 ''a'') (store_default nat_raft))"
    by (rule insert_names_exact) simp
  then show ?thesis
    by (simp add: w_store_insert names_exact_def by_name_def)
qed

theorem store_reach_wf_witness:
  "names_sound w_store \<and> object_version (w_secret 1 ''a'') \<le> applied_index nat_raft w_store"
  using store_reach_wf [OF w_store_reach] w_store_object by blast


theorem no_lost_update_witness:
  "\<exists>r. fst (apply_entry nat_raft (after w_store (w_update 2 ''b'')) (w_update 3 ''c'') 0) = Rejected r"
proof (rule no_lost_update [OF w_store_reach w_store_object])
  show "apply_entry nat_raft w_store (w_update 2 ''b'') 0 = (Applied 2,
      fst (snd (apply_entry nat_raft w_store (w_update 2 ''b'') 0)), after w_store (w_update 2 ''b''))"
    unfolding after_def by (rule prod_eqI) (code_simp, simp)
  show "log_ordered nat_raft w_store (entry_log_id (w_update 2 ''b''))"
    "log_ordered nat_raft (after w_store (w_update 2 ''b'')) (entry_log_id (w_update 3 ''c''))"
    "obj_key (w_secret 1 ''b'') = (object_kind.Secret, ''s1'')"
    "obj_key (w_secret 1 ''c'') = (object_kind.Secret, ''s1'')"
    "object_version (w_secret 1 ''c'') = object_version (w_secret 1 ''a'')"
    by code_simp+
  show "entry_payload (w_update 2 ''b'') = Normal \<lparr>proposal_actions = [Update (w_secret 1 ''b'')]\<rparr>"
    "entry_payload (w_update 3 ''c'') = Normal \<lparr>proposal_actions = [Update (w_secret 1 ''c'')]\<rparr>"
    by (simp_all add: w_update_def tx_entry_def)
qed (simp_all add: store_run.stay)

theorem spec_version_identifies_spec_witness:
  "map_option service_spec (view_service (after (after w_store w_service) w_resave) ''v1'') =
   Some (service_spec (sample_service ''v1'' (Replicated 2)))"
proof -
  let ?p = "(sample_service ''v1'' (Replicated 2))\<lparr>service_meta := sample_meta 2, service_spec_version := 2\<rparr>"
  let ?q = "?p\<lparr>service_meta := sample_meta 3\<rparr>"
  have "service_spec ?q = service_spec ?p"
  proof (rule spec_version_identifies_spec)
    show "store_reach nat_raft (after w_store w_service)"
      by (rule after_run [OF w_store_reach]) code_simp
    show "store_run nat_raft (after w_store w_service) (after (after w_store w_service) w_resave)"
      by (rule after_run [OF store_run.stay]) code_simp
    show "view_service (after w_store w_service) ''v1'' = Some ?p"
      "view_service (after (after w_store w_service) w_resave) ''v1'' = Some ?q"
      by code_simp+
  qed simp
  moreover have "view_service (after (after w_store w_service) w_resave) ''v1'' = Some ?q"
    by code_simp
  ultimately show ?thesis
    by simp
qed

theorem removed_raft_ids_sticky_witness:
  "1 \<in> removed_raft_ids (after (after w_store (w_members 2 [1, 2])) (w_members 3 [2]))"
proof -
  have "store_run nat_raft (after w_store (w_members 2 [1, 2]))
      (after (after w_store (w_members 2 [1, 2])) (w_members 3 [2]))"
    by (rule after_run [OF store_run.stay]) code_simp
  from removed_raft_ids_sticky [OF this] show ?thesis
    by (auto simp: after_def apply_entry_def w_members_def nat_raft_def Let_def)
qed

theorem duplicate_name_shadows_witness:
  "\<exists>evs1 s1 evs2 s2.
    apply_transaction w_store \<lparr>proposal_actions =
      [Create (store_object.Secret (sample_secret ''s2'' ''pw'' 0 ''z''))]\<rparr> 2 10 = (Applied 2, evs1, s1) \<and>
    by_name s1 object_kind.Secret ''pw'' = Some ''s2'' \<and>
    apply_transaction s1 \<lparr>proposal_actions = [store_action.Remove object_kind.Secret ''s2'']\<rparr> 3 10 =
      (Applied 3, evs2, s2) \<and>
    by_name s2 object_kind.Secret ''pw'' = None \<and>
    get_object s2 object_kind.Secret ''s1'' = Some (w_secret 1 ''a'')"
  using duplicate_name_shadows [of w_store object_kind.Secret "''s1''" "w_secret 1 ''a''" "''pw''"
      "store_object.Secret (sample_secret ''s2'' ''pw'' 0 ''z'')" 10 2 3]
    store_reach_invariant [OF w_store_reach] w_store_object
  by (simp add: obj_kind_def obj_id_def object_name_def w_secret_def sample_defs MAX_TX_BYTES_def)
     (simp add: w_store_insert w_secret_def st.get_put obj_kind_def obj_id_def sample_defs)

end
