(* ===== verification/Core_Constraint.thy ===== *)
theory Core_Constraint
  imports Core_Objects "HOL-Library.Word" "HOL-Library.Sublist"
begin

unbundle bit_operations_syntax

text \<open>
  \<open>satl-core/src/constraint.rs\<close>: placement constraints, with what they use of the Rust standard
  library (\<open>str::find\<close>, \<open>trim\<close>, \<open>eq_ignore_ascii_case\<close>, the \<open>IpAddr\<close> parser). A string is
  its UTF-8 bytes.
\<close>

section \<open>Strings\<close>

abbreviation byte :: "char \<Rightarrow> nat" where
  "byte c \<equiv> of_char c"

definition is_ascii_digit :: "char \<Rightarrow> bool" where
  "is_ascii_digit c \<longleftrightarrow> 48 \<le> byte c \<and> byte c \<le> 57"

definition is_ascii_alphabetic :: "char \<Rightarrow> bool" where
  "is_ascii_alphabetic c \<longleftrightarrow> 65 \<le> byte c \<and> byte c \<le> 90 \<or> 97 \<le> byte c \<and> byte c \<le> 122"

definition is_ascii_alphanumeric :: "char \<Rightarrow> bool" where
  "is_ascii_alphanumeric c \<longleftrightarrow> is_ascii_digit c \<or> is_ascii_alphabetic c"

definition is_ascii_whitespace :: "char \<Rightarrow> bool" where
  "is_ascii_whitespace c \<longleftrightarrow> byte c \<in> {9, 10, 12, 13, 32}"

definition ascii_lower :: "char \<Rightarrow> char" where
  "ascii_lower c = (if 65 \<le> byte c \<and> byte c \<le> 90 then char_of (byte c + 32) else c)"

definition eq_ignore_ascii_case :: "string \<Rightarrow> string \<Rightarrow> bool" where
  "eq_ignore_ascii_case a b \<longleftrightarrow> map ascii_lower a = map ascii_lower b"

text \<open>\<open>str::find\<close>: the first position at which the pattern stands.\<close>

fun str_find :: "string \<Rightarrow> string \<Rightarrow> nat option" where
  "str_find [] pat = (if pat = [] then Some 0 else None)"
| "str_find (c # cs) pat =
     (if prefix pat (c # cs) then Some 0 else map_option Suc (str_find cs pat))"

text \<open>
  \<open>str::trim\<close> removes the characters with the Unicode property \<open>White_Space\<close>, here by their
  UTF-8 encodings.
\<close>

definition white_space :: "string list" where
  "white_space = map (map char_of) ([[9], [10], [11], [12], [13], [32 :: nat],
     [194, 133], [194, 160], [225, 154, 128], [226, 128, 168], [226, 128, 169], [226, 128, 175],
     [226, 129, 159], [227, 128, 128]] @ map (\<lambda>n. [226, 128, n]) [128..<139])"

definition strip_one :: "string list \<Rightarrow> string \<Rightarrow> string option" where
  "strip_one ws s = map_option (\<lambda>w. drop (length w) s) (find (\<lambda>w. prefix w s) ws)"

fun trim_fuel :: "nat \<Rightarrow> string list \<Rightarrow> string \<Rightarrow> string" where
  "trim_fuel 0 ws s = s"
| "trim_fuel (Suc n) ws s = (case strip_one ws s of None \<Rightarrow> s | Some s' \<Rightarrow> trim_fuel n ws s')"

definition trim :: "string \<Rightarrow> string" where
  "trim s = (let front = trim_fuel (length s) white_space s
     in rev (trim_fuel (length front) (map rev white_space) (rev front)))"

section \<open>Addresses\<close>

datatype ip_addr = V4 (octets4: "8 word list") | V6 (octets6: "8 word list")

text \<open>The parser of \<open>core::net\<close>: a reader returns the value and the unread rest.\<close>

definition digit_value :: "nat \<Rightarrow> char \<Rightarrow> nat option" where
  "digit_value radix c =
     (let d = (if is_ascii_digit c then byte c - 48
               else if 97 \<le> byte c \<and> byte c \<le> 122 then byte c - 87
               else if 65 \<le> byte c \<and> byte c \<le> 90 then byte c - 55 else 36)
      in if d < radix then Some d else None)"

fun read_digits :: "nat \<Rightarrow> string \<Rightarrow> nat list \<times> string" where
  "read_digits radix [] = ([], [])"
| "read_digits radix (c # cs) = (case digit_value radix c of
     None \<Rightarrow> ([], c # cs)
   | Some d \<Rightarrow> (let (ds, rest) = read_digits radix cs in (d # ds, rest)))"

definition read_number :: "nat \<Rightarrow> nat \<Rightarrow> bool \<Rightarrow> nat \<Rightarrow> string \<Rightarrow> (nat \<times> string) option" where
  "read_number radix max_digits allow_zero_prefix bound s =
     (let (ds, rest) = read_digits radix s; n = foldl (\<lambda>acc d. acc * radix + d) 0 ds
      in if ds = [] \<or> length ds > max_digits \<or>
            \<not> allow_zero_prefix \<and> hd ds = 0 \<and> length ds > 1 \<or> n \<ge> bound
         then None else Some (n, rest))"

definition read_char :: "char \<Rightarrow> string \<Rightarrow> string option" where
  "read_char c s = (case s of [] \<Rightarrow> None | x # xs \<Rightarrow> if x = c then Some xs else None)"

definition read_separator ::
  "char \<Rightarrow> nat \<Rightarrow> (string \<Rightarrow> ('a \<times> string) option) \<Rightarrow> string \<Rightarrow> ('a \<times> string) option" where
  "read_separator sep i inner s =
     (if i > 0 then Option.bind (read_char sep s) inner else inner s)"

fun read_octets :: "nat \<Rightarrow> nat \<Rightarrow> string \<Rightarrow> (nat list \<times> string) option" where
  "read_octets i 0 s = Some ([], s)"
| "read_octets i (Suc n) s =
     Option.bind (read_separator CHR ''.'' i (read_number 10 3 False 256) s)
       (\<lambda>(d, rest). map_option (\<lambda>(ds, rest'). (d # ds, rest')) (read_octets (Suc i) n rest))"

definition read_ipv4 :: "string \<Rightarrow> (nat list \<times> string) option" where
  "read_ipv4 s = read_octets 0 4 s"

text \<open>\<open>read_groups\<close>: 16-bit groups from index \<open>i\<close>, at most \<open>left\<close> more, and whether the last
  two came from an embedded IPv4 address.\<close>

fun read_groups :: "nat \<Rightarrow> nat \<Rightarrow> string \<Rightarrow> nat list \<times> bool \<times> string" where
  "read_groups i 0 s = ([], False, s)"
| "read_groups i (Suc left) s =
     (case (if left > 0 then read_separator CHR '':'' i read_ipv4 s else None) of
        Some (os, rest) \<Rightarrow> ([os ! 0 * 256 + os ! 1, os ! 2 * 256 + os ! 3], True, rest)
      | None \<Rightarrow>
          (case read_separator CHR '':'' i (read_number 16 4 True 65536) s of
             None \<Rightarrow> ([], False, s)
           | Some (g, rest) \<Rightarrow>
               (let (gs, v4, rest') = read_groups (Suc i) left rest in (g # gs, v4, rest'))))"

definition read_ipv6 :: "string \<Rightarrow> (nat list \<times> string) option" where
  "read_ipv6 s =
     (let (head, v4, rest) = read_groups 0 8 s
      in if length head = 8 then Some (head, rest)
         else if v4 then None
         else Option.bind (Option.bind (read_char CHR '':'' rest) (read_char CHR '':''))
           (\<lambda>rest'. let (tail, _, rest'') = read_groups 0 (8 - (length head + 1)) rest'
             in Some (head @ replicate (8 - length head - length tail) 0 @ tail, rest'')))"

definition parse_ip :: "string \<Rightarrow> ip_addr option" where
  "parse_ip s = (case read_ipv4 s of
       Some (os, rest) \<Rightarrow> if rest = [] then Some (V4 (map word_of_nat os)) else None
     | None \<Rightarrow> (case read_ipv6 s of
         Some (gs, rest) \<Rightarrow>
           if rest = []
           then Some (V6 (concat (map (\<lambda>g. [word_of_nat (g div 256), word_of_nat (g mod 256)]) gs)))
           else None
       | None \<Rightarrow> None))"

definition canonical_ip :: "ip_addr \<Rightarrow> ip_addr" where
  "canonical_ip ip = (case ip of
       V4 _ \<Rightarrow> ip
     | V6 os \<Rightarrow> if take 12 os = replicate 10 0 @ [255, 255] then V4 (drop 12 os) else ip)"

record cidr =
  cidr_addr :: ip_addr
  cidr_prefix :: nat

definition cidr_bits :: "ip_addr \<Rightarrow> nat" where
  "cidr_bits ip = (case ip of V4 _ \<Rightarrow> 32 | V6 _ \<Rightarrow> 128)"

definition cidr_parse :: "string \<Rightarrow> cidr option" where
  "cidr_parse s =
     Option.bind (str_find s ''/'') (\<lambda>pos.
       let addr_text = take pos s; prefix_text = drop (Suc pos) s
       in Option.bind (map_option canonical_ip (parse_ip addr_text)) (\<lambda>addr.
            if prefix_text = [] \<or> \<not> list_all is_ascii_digit prefix_text then None
            else let p = foldl (\<lambda>acc c. acc * 10 + (byte c - 48)) 0 prefix_text
                 in if p \<ge> 2 ^ 32 \<or> p > cidr_bits addr then None
                    else Some \<lparr>cidr_addr = addr, cidr_prefix = p\<rparr>))"

definition prefix_eq :: "8 word list \<Rightarrow> 8 word list \<Rightarrow> nat \<Rightarrow> bool" where
  "prefix_eq a b p =
     (let whole = p div 8; bits = p mod 8
      in if take whole a \<noteq> take whole b then False
         else if bits = 0 then True
         else let mask = push_bit (8 - bits) (255 :: 8 word)
              in a ! whole AND mask = b ! whole AND mask)"

definition cidr_contains :: "cidr \<Rightarrow> ip_addr \<Rightarrow> bool" where
  "cidr_contains c ip = (case (cidr_addr c, ip) of
       (V4 net, V4 x) \<Rightarrow> prefix_eq net x (cidr_prefix c)
     | (V6 net, V6 x) \<Rightarrow> prefix_eq net x (cidr_prefix c)
     | _ \<Rightarrow> False)"

section \<open>Constraints\<close>

datatype operator = Equal | NotEqual

definition holds :: "operator \<Rightarrow> bool \<Rightarrow> bool" where
  "holds oper eq = (case oper of operator.Equal \<Rightarrow> eq | NotEqual \<Rightarrow> \<not> eq)"

record constraint =
  con_key :: string
  con_operator :: operator
  con_value :: string

datatype invalid_constraint =
    BadOperator (bad_expression: string)
  | BadKey (bad_expression: string) (bad_key: string)
  | BadValue (bad_expression: string) (bad_value: string)

definition OPERATORS :: "(string \<times> operator) list" where
  "OPERATORS = [(''=='', operator.Equal), (''!='', NotEqual)]"

definition VALUE_PUNCTUATION :: string where
  "VALUE_PUNCTUATION = '':-_.*()?+[]'' @ [CHR 0x5C] @ ''^$|/''"

definition valid_key :: "string \<Rightarrow> bool" where
  "valid_key key = (case key of
       [] \<Rightarrow> False
     | c # rest \<Rightarrow> rest \<noteq> [] \<and> (is_ascii_alphabetic c \<or> c = CHR ''_'') \<and>
         list_all (\<lambda>b. is_ascii_alphanumeric b \<or> b \<in> {CHR ''-'', CHR ''_'', CHR ''.''}) rest)"

definition valid_value :: "string \<Rightarrow> bool" where
  "valid_value v \<longleftrightarrow> v \<noteq> [] \<and>
     list_all (\<lambda>b. is_ascii_alphanumeric b \<or> is_ascii_whitespace b \<or> b \<in> set VALUE_PUNCTUATION) v"

fun parse_with_operators ::
  "(string \<times> operator) list \<Rightarrow> string \<Rightarrow> (invalid_constraint, constraint) result" where
  "parse_with_operators [] e = Inl (BadOperator e)"
| "parse_with_operators ((token, oper) # ops) e = (case str_find e token of
     None \<Rightarrow> parse_with_operators ops e
   | Some pos \<Rightarrow>
       (let key = trim (take pos e); v = trim (drop (pos + length token) e)
        in if \<not> valid_key key then Inl (BadKey e key)
           else if \<not> valid_value v then Inl (BadValue e v)
           else Inr \<lparr>con_key = key, con_operator = oper, con_value = v\<rparr>))"

definition constraint_parse :: "string \<Rightarrow> (invalid_constraint, constraint) result" where
  "constraint_parse e = parse_with_operators OPERATORS e"

definition strip_prefix_ignore_case :: "string \<Rightarrow> string \<Rightarrow> string option" where
  "strip_prefix_ignore_case key p =
     (if length key > length p \<and> eq_ignore_ascii_case (take (length p) key) p
      then Some (drop (length p) key) else None)"

definition role_name :: "node_role \<Rightarrow> string" where
  "role_name r = (case r of Worker \<Rightarrow> ''worker'' | Manager \<Rightarrow> ''manager'')"

definition description_str :: "node \<Rightarrow> (node_description \<Rightarrow> string) \<Rightarrow> string" where
  "description_str n pick = (case node_desc n of None \<Rightarrow> '''' | Some d \<Rightarrow> pick d)"

definition compare_value :: "constraint \<Rightarrow> string \<Rightarrow> bool" where
  "compare_value c what = holds (con_operator c) (eq_ignore_ascii_case (con_value c) what)"

definition matches_ip :: "constraint \<Rightarrow> string \<Rightarrow> bool" where
  "matches_ip c addr =
     (let node_ip = map_option canonical_ip (parse_ip addr)
      in case parse_ip (con_value c) of
           Some ip \<Rightarrow> holds (con_operator c) (node_ip = Some (canonical_ip ip))
         | None \<Rightarrow> (case cidr_parse (con_value c) of
             Some subnet \<Rightarrow> holds (con_operator c)
               (case node_ip of None \<Rightarrow> False | Some ip \<Rightarrow> cidr_contains subnet ip)
           | None \<Rightarrow> False))"

definition label_or_empty :: "labels \<Rightarrow> string \<Rightarrow> string" where
  "label_or_empty ls l = (case map_of ls l of None \<Rightarrow> '''' | Some v \<Rightarrow> v)"

definition constraint_matches :: "constraint \<Rightarrow> node \<Rightarrow> bool" where
  "constraint_matches c n =
     (let key = con_key c
      in if eq_ignore_ascii_case key ''node.id'' then compare_value c (node_id n)
         else if eq_ignore_ascii_case key ''node.hostname''
           then compare_value c (description_str n hostname)
         else if eq_ignore_ascii_case key ''node.ip'' then matches_ip c (nstatus_addr (node_status n))
         else if eq_ignore_ascii_case key ''node.role''
           then compare_value c (role_name (nspec_role (node_spec n)))
         else if eq_ignore_ascii_case key ''node.platform.os''
           then compare_value c (description_str n (plat_os \<circ> desc_platform))
         else if eq_ignore_ascii_case key ''node.platform.arch''
           then compare_value c (description_str n (plat_arch \<circ> desc_platform))
         else (case strip_prefix_ignore_case key ''node.labels.'' of
             Some l \<Rightarrow> compare_value c (label_or_empty (nspec_labels (node_spec n)) l)
           | None \<Rightarrow> (case strip_prefix_ignore_case key ''engine.labels.'' of
               Some l \<Rightarrow> compare_value c (case node_desc n of
                   None \<Rightarrow> '''' | Some d \<Rightarrow> label_or_empty (engine_labels (desc_engine d)) l)
             | None \<Rightarrow> False)))"

fun parse_all :: "string list \<Rightarrow> (invalid_constraint, constraint list) result" where
  "parse_all [] = Inr []"
| "parse_all (e # es) = (case constraint_parse e of
     Inl err \<Rightarrow> Inl err
   | Inr c \<Rightarrow> (case parse_all es of Inl err \<Rightarrow> Inl err | Inr cs \<Rightarrow> Inr (c # cs)))"

definition constraints_match :: "constraint list \<Rightarrow> node \<Rightarrow> bool" where
  "constraints_match cs n = list_all (\<lambda>c. constraint_matches c n) cs"

end
