(* ===== verification/Core_Constraint_Proofs.thy ===== *)
theory Core_Constraint_Proofs
  imports Core_Constraint "HOL-Library.Code_Target_Numeral"
begin

unbundle bit_operations_syntax

text \<open>
  Placement constraints: the masked comparison of addresses is agreement on the leading bits;
  a constraint is read back from its own text; the two operators are complementary except
  where both fail.
\<close>

section \<open>Address prefixes\<close>

text \<open>The bits of an address, most significant first.\<close>

definition octet_bits :: "8 word \<Rightarrow> bool list" where
  "octet_bits w = map (bit w) (rev [0..<8])"

definition addr_bits :: "8 word list \<Rightarrow> bool list" where
  "addr_bits os = concat (map octet_bits os)"

lemma length_octet_bits [simp]: "length (octet_bits w) = 8"
  by (simp add: octet_bits_def)

lemma octet_bits_inject [simp]: "octet_bits a = octet_bits b \<longleftrightarrow> a = b"
proof
  assume "octet_bits a = octet_bits b"
  then have "bit a i = bit b i" if "i < 8" for i
    using that by (auto simp: octet_bits_def)
  then show "a = b"
    by (intro bit_eqI) simp
qed simp

lemma addr_bits_inject: "length a = length b \<Longrightarrow> addr_bits a = addr_bits b \<longleftrightarrow> a = b"
  by (induction a b rule: list_induct2) (simp_all add: addr_bits_def)

lemma take_addr_bits:
  "w < length os \<Longrightarrow> r \<le> 8 \<Longrightarrow>
   take (8 * w + r) (addr_bits os) = addr_bits (take w os) @ take r (octet_bits (os ! w))"
proof (induction os arbitrary: w)
  case (Cons x os)
  then show ?case
    by (cases w) (simp_all add: addr_bits_def)
qed simp

lemma length_addr_bits [simp]: "length (addr_bits os) = 8 * length os"
  by (induction os) (simp_all add: addr_bits_def)

lemma octet_mask_eq:
  assumes "0 < r" "r < 8"
  shows "a AND push_bit (8 - r) (255 :: 8 word) = b AND push_bit (8 - r) 255 \<longleftrightarrow>
    take r (octet_bits a) = take r (octet_bits b)"
proof -
  have ones: "(255 :: 8 word) = - 1"
    by simp
  have "a AND push_bit (8 - r) 255 = b AND push_bit (8 - r) 255 \<longleftrightarrow>
      (\<forall>i. 8 - r \<le> i \<and> i < 8 \<longrightarrow> bit a i = bit b i)"
    unfolding ones by (auto simp: bit_eq_iff bit_simps)
  also have "\<dots> \<longleftrightarrow> (\<forall>j<r. bit a (7 - j) = bit b (7 - j))"
  proof safe
    fix i
    assume all: "\<forall>j<r. bit a (7 - j) = bit b (7 - j)" and i: "8 - r \<le> i" "i < 8"
    with all [rule_format, of "7 - i"] show "bit a i \<Longrightarrow> bit b i" "bit b i \<Longrightarrow> bit a i"
      by auto
  next
    fix j
    assume all: "\<forall>i. 8 - r \<le> i \<and> i < 8 \<longrightarrow> bit a i = bit b i" and "j < r"
    then have "8 - r \<le> 7 - j \<and> 7 - j < 8"
      using assms by linarith
    with all show "bit a (7 - j) \<Longrightarrow> bit b (7 - j)" "bit b (7 - j) \<Longrightarrow> bit a (7 - j)"
      by auto
  qed
  also have "\<dots> \<longleftrightarrow> take r (octet_bits a) = take r (octet_bits b)"
    using assms by (auto simp: list_eq_iff_nth_eq octet_bits_def rev_nth)
  finally show ?thesis .
qed

text \<open>
  C19. The masked comparison of two addresses of one family is agreement on their first \<open>p\<close> bits,
  for every prefix length the family admits (the last partial octet included).
\<close>

theorem prefix_eq_leading_bits:
  assumes "length a = length b" "p \<le> 8 * length a"
  shows "prefix_eq a b p \<longleftrightarrow> take p (addr_bits a) = take p (addr_bits b)"
proof (cases "p mod 8 = 0")
  case True
  then obtain w where p: "p = 8 * w"
    by auto
  have whole: "take (8 * w) (addr_bits os) = addr_bits (take w os)" if "w \<le> length os" for os
    using that take_addr_bits [of w os 0] by (cases "w = length os") simp_all
  from assms show ?thesis
    by (simp add: p whole prefix_eq_def addr_bits_inject)
next
  case False
  define w r where "w = p div 8" and "r = p mod 8"
  then have p: "p = 8 * w + r" and r: "0 < r" "r < 8"
    using False by simp_all
  with assms have w: "w < length a" "w < length b"
    by simp_all
  have "take p (addr_bits a) = take p (addr_bits b) \<longleftrightarrow>
      take w a = take w b \<and> take r (octet_bits (a ! w)) = take r (octet_bits (b ! w))"
    using w r unfolding p by (simp add: take_addr_bits addr_bits_inject append_eq_append_conv assms(1))
  with octet_mask_eq [OF r] r show ?thesis
    unfolding prefix_eq_def Let_def w_def [symmetric] r_def [symmetric] by simp
qed

theorem prefix_eq_leading_bits_witness:
  "prefix_eq [10, 1, 2, 3] [10, 7, 9, 9] 13 \<and>
   take 13 (addr_bits [10, 1, 2, 3]) = take 13 (addr_bits [10, 7, 9, 9])"
proof -
  have "prefix_eq [10, 1, 2, 3] [10, 7, 9, 9] 13"
    by code_simp
  with prefix_eq_leading_bits [of "[10, 1, 2, 3]" "[10, 7, 9, 9]" 13] show ?thesis
    by simp
qed

section \<open>Operators\<close>

text \<open>
  C20. The two operators are complementary on every node, except for a key the language does not
  know and for a \<open>node.ip\<close> value that is neither an address nor a block: those fail the node
  under either operator.
\<close>

theorem operators_complementary:
  fixes c :: constraint
  defines "eq \<equiv> c\<lparr>con_operator := operator.Equal\<rparr>" and "ne \<equiv> c\<lparr>con_operator := NotEqual\<rparr>"
  shows "\<not> (constraint_matches eq n \<and> constraint_matches ne n) \<and>
    (constraint_matches eq n \<or> constraint_matches ne n) =
      (if eq_ignore_ascii_case (con_key c) ''node.ip''
       then (\<exists>ip. parse_ip (con_value c) = Some ip) \<or> (\<exists>b. cidr_parse (con_value c) = Some b)
       else (\<exists>k \<in> {''node.id'', ''node.hostname'', ''node.role'', ''node.platform.os'',
               ''node.platform.arch''}. eq_ignore_ascii_case (con_key c) k) \<or>
         (\<exists>l. strip_prefix_ignore_case (con_key c) ''node.labels.'' = Some l) \<or>
         (\<exists>l. strip_prefix_ignore_case (con_key c) ''engine.labels.'' = Some l))"
proof (cases "eq_ignore_ascii_case (con_key c) ''node.ip''")
  case True
  then have "map ascii_lower (con_key c) = ''node.ip''"
    by (simp add: eq_ignore_ascii_case_def ascii_lower_def of_char_def)
  then have "\<not> eq_ignore_ascii_case (con_key c) ''node.id''"
    "\<not> eq_ignore_ascii_case (con_key c) ''node.hostname''"
    by (simp_all add: eq_ignore_ascii_case_def ascii_lower_def of_char_def)
  with True have "constraint_matches eq n = matches_ip eq (nstatus_addr (node_status n))"
    "constraint_matches ne n = matches_ip ne (nstatus_addr (node_status n))"
    by (simp_all add: eq_def ne_def constraint_matches_def)
  with True show ?thesis
    by (cases "parse_ip (con_value c)"; cases "cidr_parse (con_value c)")
      (simp_all add: eq_def ne_def matches_ip_def holds_def, auto)
next
  case False
  then show ?thesis
    by (simp add: eq_def ne_def constraint_matches_def Let_def compare_value_def holds_def
        split: option.split)
qed

section \<open>Reading a constraint back\<close>

definition operator_as_str :: "operator \<Rightarrow> string" where
  "operator_as_str oper = (case oper of operator.Equal \<Rightarrow> ''=='' | NotEqual \<Rightarrow> ''!='')"

definition render :: "constraint \<Rightarrow> string" where
  "render c = con_key c @ '' '' @ operator_as_str (con_operator c) @ '' '' @ con_value c"

text \<open>A character \<open>trim\<close> stops at, from either side.\<close>

definition plain :: "char \<Rightarrow> bool" where
  "plain c \<longleftrightarrow> byte c < 128 \<and> byte c \<notin> {9, 10, 11, 12, 13, 32}"

lemma byte_char_of [simp]: "n < 256 \<Longrightarrow> byte (char_of (n :: nat)) = n"
  by simp

lemma ws_heads:
  assumes "w \<in> set white_space"
  shows "\<exists>c cs. w = c # cs \<and> \<not> plain c" "\<exists>c cs. rev w = c # cs \<and> \<not> plain c"
proof -
  have "list_all (\<lambda>w. case w of [] \<Rightarrow> False | c # cs \<Rightarrow> \<not> plain c) white_space"
    "list_all (\<lambda>w. case rev w of [] \<Rightarrow> False | c # cs \<Rightarrow> \<not> plain c) white_space"
    by code_simp+
  with assms have "case w of [] \<Rightarrow> False | c # cs \<Rightarrow> \<not> plain c"
    "case rev w of [] \<Rightarrow> False | c # cs \<Rightarrow> \<not> plain c"
    by (simp_all add: list_all_iff)
  then show "\<exists>c cs. w = c # cs \<and> \<not> plain c" "\<exists>c cs. rev w = c # cs \<and> \<not> plain c"
    by (cases w; cases "rev w"; simp)+
qed

lemma strip_one_plain:
  assumes "plain c"
  shows "strip_one white_space (c # s) = None" "strip_one (map rev white_space) (c # s) = None"
proof -
  have "\<not> prefix w (c # s)" if "w \<in> set white_space" for w
    using ws_heads(1) [OF that] assms by auto
  moreover have "\<not> prefix (rev w) (c # s)" if "w \<in> set white_space" for w
    using ws_heads(2) [OF that] assms by (metis Cons_prefix_Cons)
  ultimately show "strip_one white_space (c # s) = None" "strip_one (map rev white_space) (c # s) = None"
    by (simp_all add: strip_one_def find_None_iff)
qed

lemma trim_fuel_plain:
  assumes "plain c"
  shows "trim_fuel n white_space (c # s) = c # s" "trim_fuel n (map rev white_space) (c # s) = c # s"
  by (cases n; simp add: strip_one_plain [OF assms])+

lemma strip_one_space:
  "strip_one white_space (CHR '' '' # s) = Some s"
  "strip_one (map rev white_space) (CHR '' '' # s) = Some s"
proof -
  have "takeWhile (\<lambda>w. w \<noteq> '' '') white_space =
      map (\<lambda>n. [char_of n]) [9, 10, 11, 12, 13 :: nat]"
    "dropWhile (\<lambda>w. w \<noteq> '' '') white_space = '' '' # drop 6 white_space"
    by code_simp+
  then have ws: "white_space = map (\<lambda>n. [char_of n]) [9, 10, 11, 12, 13 :: nat] @ '' '' # drop 6 white_space"
    by (metis takeWhile_dropWhile_id)
  show "strip_one white_space (CHR '' '' # s) = Some s"
    unfolding strip_one_def by (subst ws) (simp add: char_of_def)
  show "strip_one (map rev white_space) (CHR '' '' # s) = Some s"
    unfolding strip_one_def by (subst ws) (simp add: char_of_def)
qed

lemma trim_after_space:
  assumes "s \<noteq> []" "plain (hd s)" "plain (last s)"
  shows "trim (CHR '' '' # s) = s" "trim (s @ '' '') = s"
proof -
  obtain c cs where s: "s = c # cs" "plain c"
    using assms by (cases s) auto
  obtain d ds where r: "rev s = d # ds" "plain d"
    using assms by (cases s rule: rev_cases) auto
  have unrev: "rev (trim_fuel n (map rev white_space) (rev s)) = s" for n
    using r by (metis rev_rev_ident trim_fuel_plain(2))
  show "trim (CHR '' '' # s) = s"
    using unrev trim_fuel_plain(1) [OF s(2), of "length s" cs]
    by (simp add: trim_def Let_def strip_one_space s(1))
  have "trim_fuel (length (s @ '' '')) white_space (s @ '' '') = s @ '' ''"
    using trim_fuel_plain(1) [OF s(2), of _ "cs @ '' ''"] s(1) by (metis append_Cons)
  then show "trim (s @ '' '') = s"
    using unrev by (simp add: trim_def Let_def strip_one_space)
qed

lemma str_find_first:
  "t \<notin> set pre \<Longrightarrow> str_find (pre @ (t # ts) @ rest) (t # ts) = Some (length pre)"
  by (induction pre) auto

lemma str_find_prefix: "str_find s pat = Some n \<Longrightarrow> prefix pat (drop n s)"
  by (induction s pat arbitrary: n rule: str_find.induct) (auto split: if_splits)

lemma str_find_twice:
  assumes "count_list s c \<le> 1"
  shows "str_find s [c, c] = None"
proof (rule ccontr)
  assume "str_find s [c, c] \<noteq> None"
  then obtain n where "str_find s [c, c] = Some n"
    by auto
  then obtain rest where "drop n s = [c, c] @ rest"
    using str_find_prefix by (metis prefix_def)
  then have "s = take n s @ [c, c] @ rest"
    by (metis append_take_drop_id)
  then have "count_list s c = count_list (take n s @ [c, c] @ rest) c"
    by simp
  with assms show False
    by simp
qed

lemma valid_key_chars:
  assumes "valid_key k"
  shows "k \<noteq> []" "plain (hd k)" "plain (last k)" "CHR ''='' \<notin> set k" "CHR ''!'' \<notin> set k"
proof -
  have ok: "is_ascii_alphanumeric c \<or> c \<in> {CHR ''-'', CHR ''_'', CHR ''.''}" if "c \<in> set k" for c
    using assms that by (auto simp: valid_key_def list_all_iff is_ascii_alphanumeric_def split: list.splits)
  have plain: "plain c" if "c \<in> set k" for c
    using ok [OF that] by (auto simp: plain_def is_ascii_alphanumeric_def is_ascii_digit_def
        is_ascii_alphabetic_def)
  show "k \<noteq> []"
    using assms by (auto simp: valid_key_def)
  then show "plain (hd k)" "plain (last k)"
    by (auto intro: plain)
  show "CHR ''='' \<notin> set k" "CHR ''!'' \<notin> set k"
    using ok by (auto simp: is_ascii_alphanumeric_def is_ascii_digit_def is_ascii_alphabetic_def
        dest!: ok)
qed

lemma valid_value_chars: "valid_value v \<Longrightarrow> CHR ''='' \<notin> set v"
  by (auto simp: valid_value_def list_all_iff is_ascii_alphanumeric_def is_ascii_digit_def
      is_ascii_alphabetic_def is_ascii_whitespace_def VALUE_PUNCTUATION_def)

text \<open>
  C18. A constraint is read back from its own text: for a valid key, either operator and a valid
  value that does not begin or end with white space, parsing \<open>key op value\<close> gives exactly
  that key, operator and value.
\<close>

theorem constraint_round_trip:
  assumes "valid_key (con_key c)" "valid_value (con_value c)"
    and "plain (hd (con_value c))" "plain (last (con_value c))"
  shows "constraint_parse (render c) = Inr c"
proof -
  note k = valid_key_chars [OF assms(1)] and v = valid_value_chars [OF assms(2)]
  have vne: "con_value c \<noteq> []"
    using assms(2) by (simp add: valid_value_def)
  note trims = trim_after_space [OF k(1-3)] trim_after_space [OF vne assms(3,4)]
  show ?thesis
  proof (cases "con_operator c")
    case Equal
    have "str_find (render c) ''=='' = Some (length (con_key c @ '' ''))"
      using str_find_first [of "CHR ''=''" "con_key c @ '' ''" "''=''" "'' '' @ con_value c"] k(4)
      by (simp add: render_def Equal operator_as_str_def)
    with trims assms Equal show ?thesis
      by (simp add: constraint_parse_def OPERATORS_def render_def operator_as_str_def)
  next
    case NotEqual
    have "str_find (render c) ''=='' = None"
      using k(4) v by (intro str_find_twice) (simp add: render_def NotEqual operator_as_str_def count_list_0_iff)
    moreover have "str_find (render c) ''!='' = Some (length (con_key c @ '' ''))"
      using str_find_first [of "CHR ''!''" "con_key c @ '' ''" "''=''" "'' '' @ con_value c"] k(5)
      by (simp add: render_def NotEqual operator_as_str_def)
    ultimately show ?thesis
      using trims assms NotEqual
      by (simp add: constraint_parse_def OPERATORS_def render_def operator_as_str_def)
  qed
qed

theorem constraint_round_trip_witness:
  "constraint_parse ''node.labels.zone != eu-west 1'' =
   Inr \<lparr>con_key = ''node.labels.zone'', con_operator = NotEqual, con_value = ''eu-west 1''\<rparr>"
  using constraint_round_trip [of "\<lparr>con_key = ''node.labels.zone'', con_operator = NotEqual,
      con_value = ''eu-west 1''\<rparr>"]
  by (simp add: render_def operator_as_str_def) code_simp

end
