(* ===== verification/Sched_NodeInfo.thy ===== *)
theory Sched_NodeInfo
  imports Core_Constraint
begin

text \<open>
  \<open>satl-sched/src/node_info.rs\<close>: a node with the scheduler's bookkeeping for it, which is the
  tasks counted against it, what is left of its capacity, active counts, bound host ports and
  the failure log of the fault penalty.
\<close>

definition MONITOR_FAILURES :: duration where
  "MONITOR_FAILURES = 300 * 10 ^ 9"

definition MAX_FAILURES :: nat where
  "MAX_FAILURES = 5"

record host_port =
  hp_protocol :: port_protocol
  hp_published_port :: nat

text \<open>A \<open>TaskGroup\<close>: the owning service and the spec version, compared in that order.\<close>

type_synonym task_group = "id option \<times> version option"

definition group_of :: "task \<Rightarrow> task_group" where
  "group_of t = (task_service_id t, task_spec_version t)"

definition is_active :: "task \<Rightarrow> bool" where
  "is_active t \<longleftrightarrow> task_desired_state t \<le> desired_state.Complete"

definition no_resources :: resources where
  "no_resources = \<lparr>nano_cpus = 0, memory_bytes = 0\<rparr>"

definition reservations_of :: "task \<Rightarrow> resources" where
  "reservations_of t = (case reservations (tspec_resources (task_spec t)) of
     None \<Rightarrow> no_resources | Some r \<Rightarrow> r)"

definition host_ports :: "task \<Rightarrow> host_port list" where
  "host_ports t = (case task_endpoint t of
       None \<Rightarrow> []
     | Some e \<Rightarrow> map (\<lambda>p. \<lparr>hp_protocol = port_protocol p, hp_published_port = published_port p\<rparr>)
         (filter (\<lambda>p. port_publish_mode p = Host \<and> published_port p \<noteq> 0) (endpoint_ports e)))"

record node_info =
  ni_node :: node
  ni_tasks :: "(id, task) btree_map"
  ni_available :: resources
  ni_active_total :: nat
  ni_active_by_service :: "(id option, nat) btree_map"
  ni_used_host_ports :: "host_port set"
  ni_failures :: "(task_group, system_time list) btree_map"
  ni_last_cleanup :: system_time

definition capacity :: "node \<Rightarrow> resources" where
  "capacity n = (case node_desc n of None \<Rightarrow> no_resources | Some d \<Rightarrow> desc_resources d)"

definition subtract :: "resources \<Rightarrow> resources \<Rightarrow> resources" where
  "subtract l r = \<lparr>nano_cpus = saturating_sub (nano_cpus l) (nano_cpus r),
     memory_bytes = saturating_sub (memory_bytes l) (memory_bytes r)\<rparr>"

definition add_resources :: "resources \<Rightarrow> resources \<Rightarrow> resources" where
  "add_resources l r = \<lparr>nano_cpus = saturating_add (nano_cpus l) (nano_cpus r),
     memory_bytes = saturating_add (memory_bytes l) (memory_bytes r)\<rparr>"

definition elapsed :: "system_time \<Rightarrow> system_time \<Rightarrow> duration" where
  "elapsed earlier now = duration_since now earlier"

definition new_node_info :: "node \<Rightarrow> system_time \<Rightarrow> node_info" where
  "new_node_info n now = \<lparr>ni_node = n, ni_tasks = [], ni_available = capacity n,
     ni_active_total = 0, ni_active_by_service = [], ni_used_host_ports = {},
     ni_failures = [], ni_last_cleanup = now\<rparr>"

definition active_tasks_for :: "node_info \<Rightarrow> id option \<Rightarrow> nat" where
  "active_tasks_for info svc = (case map_of (ni_active_by_service info) svc of
     None \<Rightarrow> 0 | Some c \<Rightarrow> c)"

definition host_port_in_use :: "node_info \<Rightarrow> host_port \<Rightarrow> bool" where
  "host_port_in_use info p \<longleftrightarrow> p \<in> ni_used_host_ports info"

definition set_node :: "node \<Rightarrow> node_info \<Rightarrow> node_info" where
  "set_node n info = info\<lparr>ni_node := n,
     ni_available := foldl (\<lambda>a t. subtract a (reservations_of t)) (capacity n)
       (values_of (ni_tasks info))\<rparr>"

definition increment_active :: "id option \<Rightarrow> node_info \<Rightarrow> node_info" where
  "increment_active svc info = info\<lparr>ni_active_total := ni_active_total info + 1,
     ni_active_by_service :=
       bt_insert svc (active_tasks_for info svc + 1) (ni_active_by_service info)\<rparr>"

definition decrement_active :: "id option \<Rightarrow> node_info \<Rightarrow> node_info" where
  "decrement_active svc info = info\<lparr>ni_active_total := ni_active_total info - 1,
     ni_active_by_service := (case map_of (ni_active_by_service info) svc of
         None \<Rightarrow> ni_active_by_service info
       | Some c \<Rightarrow> if c - 1 = 0 then bt_remove svc (ni_active_by_service info)
                   else bt_insert svc (c - 1) (ni_active_by_service info))\<rparr>"

definition add_task :: "task \<Rightarrow> node_info \<Rightarrow> bool \<times> node_info" where
  "add_task t info = (case map_of (ni_tasks info) (task_id t) of
       Some old \<Rightarrow>
         (if is_active old = is_active t then (False, info)
          else
            let info' = (if is_active t then increment_active (task_service_id t) info
                         else decrement_active (task_service_id t) info)
            in (True, info'\<lparr>ni_tasks := bt_insert (task_id t) t (ni_tasks info')\<rparr>))
     | None \<Rightarrow>
         (let info1 = info\<lparr>ni_available := subtract (ni_available info) (reservations_of t),
                ni_used_host_ports := ni_used_host_ports info \<union> set (host_ports t)\<rparr>;
              info2 = (if is_active t then increment_active (task_service_id t) info1 else info1)
          in (True, info2\<lparr>ni_tasks := bt_insert (task_id t) t (ni_tasks info2)\<rparr>)))"

definition remove_task :: "id \<Rightarrow> node_info \<Rightarrow> bool \<times> node_info" where
  "remove_task i info = (case map_of (ni_tasks info) i of
       None \<Rightarrow> (False, info)
     | Some t \<Rightarrow>
         (let info1 = info\<lparr>ni_tasks := bt_remove i (ni_tasks info)\<rparr>;
              info2 = (if is_active t then decrement_active (task_service_id t) info1 else info1)
          in (True, info2\<lparr>ni_used_host_ports := ni_used_host_ports info2 - set (host_ports t),
                ni_available := add_resources (ni_available info2) (reservations_of t)\<rparr>)))"

definition cleanup_failures :: "system_time \<Rightarrow> node_info \<Rightarrow> node_info" where
  "cleanup_failures now info = info\<lparr>
     ni_failures := filter (\<lambda>(_, stamps). list_ex (\<lambda>t. elapsed t now < MONITOR_FAILURES) stamps)
       (ni_failures info),
     ni_last_cleanup := now\<rparr>"

definition record_failure :: "task_group \<Rightarrow> system_time \<Rightarrow> node_info \<Rightarrow> node_info" where
  "record_failure g now info =
     (let info1 = (if elapsed (ni_last_cleanup info) now \<ge> MONITOR_FAILURES
                   then cleanup_failures now info else info);
          stamps = (case map_of (ni_failures info1) g of None \<Rightarrow> [] | Some l \<Rightarrow> l)
      in info1\<lparr>ni_failures :=
           bt_insert g (filter (\<lambda>t. elapsed t now < MONITOR_FAILURES) stamps @ [now])
             (ni_failures info1)\<rparr>)"

definition recent_failures :: "node_info \<Rightarrow> task_group \<Rightarrow> system_time \<Rightarrow> nat" where
  "recent_failures info g now = (case map_of (ni_failures info) g of
       None \<Rightarrow> 0
     | Some stamps \<Rightarrow> length (filter (\<lambda>t. elapsed t now < MONITOR_FAILURES) stamps))"

definition is_tracked :: "task \<Rightarrow> bool" where
  "is_tracked t \<longleftrightarrow> task_state.Pending \<le> status_state (task_status t) \<and>
     status_state (task_status t) \<le> task_state.Running"

definition is_queued :: "task \<Rightarrow> bool" where
  "is_queued t \<longleftrightarrow> is_tracked t \<and> task_node_id t = None"

definition is_pending_preassigned :: "task \<Rightarrow> bool" where
  "is_pending_preassigned t \<longleftrightarrow> is_tracked t \<and> task_node_id t \<noteq> None \<and>
     status_state (task_status t) = task_state.Pending"

definition is_abandoned :: "task \<Rightarrow> bool" where
  "is_abandoned t \<longleftrightarrow> status_state (task_status t) = task_state.Pending \<and>
     desired_state.Complete < task_desired_state t"

end
