(* ===== verification/Sched_NodeInfo_Proofs.thy ===== *)
theory Sched_NodeInfo_Proofs
  imports Sched_NodeInfo Sample_Objects
begin

text \<open>
  The bookkeeping of a node is exact: whatever sequence of task additions, re-observations,
  removals and node updates produced it, the active counts are those of the tasks it holds and
  the available resources are the capacity minus their reservations, as long as the sums fit an
  \<open>i64\<close>.
\<close>

section \<open>The invariant\<close>

definition task_mset :: "node_info \<Rightarrow> task multiset" where
  "task_mset info = mset (values_of (ni_tasks info))"

definition active_count :: "id option \<Rightarrow> task multiset \<Rightarrow> nat" where
  "active_count svc T = size {#t \<in># T. is_active t \<and> task_service_id t = svc#}"

definition counts_exact :: "node_info \<Rightarrow> bool" where
  "counts_exact info \<longleftrightarrow>
     ni_active_total info = size {#t \<in># task_mset info. is_active t#} \<and>
     (\<forall>svc. map_of (ni_active_by_service info) svc =
        (if active_count svc (task_mset info) = 0 then None
         else Some (active_count svc (task_mset info))))"

definition reserved :: "(resources \<Rightarrow> int) \<Rightarrow> task multiset \<Rightarrow> int" where
  "reserved f T = (\<Sum>t\<in>#T. f (reservations_of t))"

definition available_exact :: "node_info \<Rightarrow> bool" where
  "available_exact info \<longleftrightarrow> (\<forall>f \<in> {nano_cpus, memory_bytes}.
     f (ni_available info) = f (capacity (ni_node info)) - reserved f (task_mset info))"

text \<open>No quantity of the node leaves the range of \<open>i64\<close>.\<close>

definition representable :: "node \<Rightarrow> task multiset \<Rightarrow> bool" where
  "representable n T \<longleftrightarrow> (\<forall>f \<in> {nano_cpus, memory_bytes}.
     0 \<le> f (capacity n) \<and> f (capacity n) \<le> i64_max \<and>
     (\<forall>t \<in># T. 0 \<le> f (reservations_of t)) \<and> reserved f T \<le> 2 ^ 63)"

definition node_info_wf :: "node_info \<Rightarrow> bool" where
  "node_info_wf info \<longleftrightarrow>
     bt_invar (ni_tasks info) \<and> bt_invar (ni_active_by_service info) \<and>
     (\<forall>i t. map_of (ni_tasks info) i = Some t \<longrightarrow> task_id t = i) \<and>
     counts_exact info \<and> available_exact info \<and>
     ni_used_host_ports info \<subseteq> (\<Union>t \<in> set_mset (task_mset info). set (host_ports t))"

lemma reserved_simps [simp]:
  "reserved f {#} = 0" "reserved f (add_mset t T) = f (reservations_of t) + reserved f T"
  by (simp_all add: reserved_def)

lemma active_count_simps [simp]:
  "active_count svc {#} = 0"
  "active_count svc (add_mset t T) =
     active_count svc T + (if is_active t \<and> task_service_id t = svc then 1 else 0)"
  by (simp_all add: active_count_def)

lemma representable_less: "representable n (add_mset t T) \<Longrightarrow> representable n T"
  by (fastforce simp: representable_def)

lemma reserved_nonneg: "(\<And>t. t \<in># T \<Longrightarrow> 0 \<le> f (reservations_of t)) \<Longrightarrow> 0 \<le> reserved f T"
  by (induction T) auto

lemma representable_in_i64:
  assumes "representable n T" "f \<in> {nano_cpus, memory_bytes}"
  shows "in_i64 (f (capacity n) - reserved f T)"
proof -
  have "0 \<le> f (capacity n)" "f (capacity n) \<le> i64_max" "reserved f T \<le> 2 ^ 63" "0 \<le> reserved f T"
    using assms reserved_nonneg [of T f] by (auto simp: representable_def)
  then show ?thesis
    by (simp add: in_i64_def i64_min_def i64_max_def)
qed

section \<open>What the operations do to the tasks and the counts\<close>

lemma task_mset_update [simp]: "task_mset (info\<lparr>ni_tasks := m\<rparr>) = mset (values_of m)"
  by (simp add: task_mset_def)

lemma task_mset_other [simp]:
  "task_mset (info\<lparr>ni_available := a\<rparr>) = task_mset info"
  "task_mset (info\<lparr>ni_used_host_ports := p\<rparr>) = task_mset info"
  "task_mset (info\<lparr>ni_node := n\<rparr>) = task_mset info"
  "task_mset (info\<lparr>ni_failures := l\<rparr>) = task_mset info"
  "task_mset (info\<lparr>ni_last_cleanup := c\<rparr>) = task_mset info"
  by (simp_all add: task_mset_def)

lemma increment_active_simps [simp]:
  "ni_tasks (increment_active svc info) = ni_tasks info"
  "ni_node (increment_active svc info) = ni_node info"
  "ni_available (increment_active svc info) = ni_available info"
  "ni_used_host_ports (increment_active svc info) = ni_used_host_ports info"
  "ni_active_total (increment_active svc info) = ni_active_total info + 1"
  by (simp_all add: increment_active_def)

lemma decrement_active_simps [simp]:
  "ni_tasks (decrement_active svc info) = ni_tasks info"
  "ni_node (decrement_active svc info) = ni_node info"
  "ni_available (decrement_active svc info) = ni_available info"
  "ni_used_host_ports (decrement_active svc info) = ni_used_host_ports info"
  "ni_active_total (decrement_active svc info) = ni_active_total info - 1"
  by (simp_all add: decrement_active_def)

text \<open>The counter map as a function of the service, zero entries left out.\<close>

definition no_zero_counts :: "node_info \<Rightarrow> bool" where
  "no_zero_counts info \<longleftrightarrow> bt_invar (ni_active_by_service info) \<and>
     (\<forall>svc. map_of (ni_active_by_service info) svc \<noteq> Some 0)"

lemma positive_entry_iff:
  "x = (if c = 0 then None else Some c) \<longleftrightarrow> x \<noteq> Some 0 \<and> (case x of None \<Rightarrow> 0 | Some n \<Rightarrow> n) = c"
  by (cases x) auto

lemma counts_exact_iff:
  "counts_exact info \<and> bt_invar (ni_active_by_service info) \<longleftrightarrow>
     ni_active_total info = size {#t \<in># task_mset info. is_active t#} \<and> no_zero_counts info \<and>
     (\<forall>svc. active_tasks_for info svc = active_count svc (task_mset info))"
  unfolding counts_exact_def no_zero_counts_def active_tasks_for_def positive_entry_iff by blast

lemma increment_counts:
  assumes "no_zero_counts info"
  shows "no_zero_counts (increment_active svc info)"
    "active_tasks_for (increment_active svc info) = (active_tasks_for info)(svc := active_tasks_for info svc + 1)"
  using assms by (auto simp: no_zero_counts_def increment_active_def
      active_tasks_for_def bt_lookup_insert bt_insert_invar fun_eq_iff)

lemma decrement_counts:
  assumes "no_zero_counts info"
  shows "no_zero_counts (decrement_active svc info)"
    "active_tasks_for (decrement_active svc info) = (active_tasks_for info)(svc := active_tasks_for info svc - 1)"
  using assms by (auto simp: no_zero_counts_def decrement_active_def
      active_tasks_for_def bt_lookup_insert bt_insert_invar bt_remove_invar bt_lookup_remove
      fun_eq_iff split: option.splits)

lemma other_counts [simp]:
  "no_zero_counts (info\<lparr>ni_tasks := m\<rparr>) = no_zero_counts info"
  "active_tasks_for (info\<lparr>ni_tasks := m\<rparr>) = active_tasks_for info"
  "no_zero_counts (info\<lparr>ni_available := a\<rparr>) = no_zero_counts info"
  "active_tasks_for (info\<lparr>ni_available := a\<rparr>) = active_tasks_for info"
  "no_zero_counts (info\<lparr>ni_used_host_ports := p\<rparr>) = no_zero_counts info"
  "active_tasks_for (info\<lparr>ni_used_host_ports := p\<rparr>) = active_tasks_for info"
  by (simp_all add: no_zero_counts_def active_tasks_for_def fun_eq_iff)

lemma node_info_wf_iff:
  "node_info_wf info \<longleftrightarrow>
     bt_invar (ni_tasks info) \<and> (\<forall>i t. map_of (ni_tasks info) i = Some t \<longrightarrow> task_id t = i) \<and>
     ni_active_total info = size {#t \<in># task_mset info. is_active t#} \<and> no_zero_counts info \<and>
     active_tasks_for info = (\<lambda>svc. active_count svc (task_mset info)) \<and> available_exact info \<and>
     ni_used_host_ports info \<subseteq> (\<Union>t \<in> set_mset (task_mset info). set (host_ports t))"
  unfolding node_info_wf_def fun_eq_iff using counts_exact_iff [of info] by blast

lemma add_task_new:
  fixes info t
  assumes "map_of (ni_tasks info) (task_id t) = None"
  defines "info' \<equiv> snd (add_task t info)"
  shows "ni_tasks info' = bt_insert (task_id t) t (ni_tasks info)"
    "ni_node info' = ni_node info"
    "task_mset info' = add_mset t (task_mset info)"
    "ni_available info' = subtract (ni_available info) (reservations_of t)"
    "ni_used_host_ports info' = ni_used_host_ports info \<union> set (host_ports t)"
    "ni_active_total info' = ni_active_total info + (if is_active t then 1 else 0)"
    "no_zero_counts info \<Longrightarrow> no_zero_counts info'"
    "no_zero_counts info \<Longrightarrow> active_tasks_for info' = (active_tasks_for info)
       (task_service_id t := active_tasks_for info (task_service_id t) + (if is_active t then 1 else 0))"
  using assms(1) by (simp_all add: info'_def add_task_def Let_def increment_counts
      bt_insert_new_mset, simp_all add: task_mset_def)

lemma saturating_exact:
  "in_i64 (a - b) \<Longrightarrow> saturating_sub a b = a - b" "in_i64 (a + b) \<Longrightarrow> saturating_add a b = a + b"
  by (simp_all add: saturating_sub_def saturating_add_def)

lemma add_task_new_available:
  assumes "map_of (ni_tasks info) (task_id t) = None" "available_exact info"
    and "representable (ni_node info) (add_mset t (task_mset info))"
  shows "available_exact (snd (add_task t info))"
  unfolding available_exact_def
proof
  fix f :: "resources \<Rightarrow> int"
  assume f: "f \<in> {nano_cpus, memory_bytes}"
  have "f (ni_available info) = f (capacity (ni_node info)) - reserved f (task_mset info)"
    using assms(2) f unfolding available_exact_def by blast
  then have "in_i64 (f (ni_available info) - f (reservations_of t))"
    using representable_in_i64 [OF assms(3) f] by (simp add: diff_diff_eq add.commute)
  with f assms(2) show "f (ni_available (snd (add_task t info))) =
      f (capacity (ni_node (snd (add_task t info)))) - reserved f (task_mset (snd (add_task t info)))"
    by (auto simp: add_task_new [OF assms(1)] subtract_def saturating_exact available_exact_def)
qed

lemma add_task_new_wf:
  assumes "node_info_wf info" "map_of (ni_tasks info) (task_id t) = None"
    and "representable (ni_node info) (add_mset t (task_mset info))"
  shows "node_info_wf (snd (add_task t info))"
  using assms add_task_new_available [OF assms(2) _ assms(3)]
  by (auto simp: node_info_wf_iff add_task_new [OF assms(2)] bt_insert_invar bt_lookup_insert fun_eq_iff
      split: if_splits)

text \<open>A task observed again agrees with the one counted, apart from its states.\<close>

definition same_footprint :: "task \<Rightarrow> task \<Rightarrow> bool" where
  "same_footprint old t \<longleftrightarrow> task_id t = task_id old \<and> task_service_id t = task_service_id old \<and>
     reservations_of t = reservations_of old \<and> host_ports t = host_ports old"

lemma add_task_old_wf:
  assumes wf: "node_info_wf info" and old: "map_of (ni_tasks info) (task_id t) = Some old"
    and same: "same_footprint old t"
  shows "node_info_wf (snd (add_task t info))"
proof (cases "is_active old = is_active t")
  case True
  with old wf show ?thesis
    by (simp add: add_task_def)
next
  case False
  let ?svc = "task_service_id t" and ?info = "snd (add_task t info)"
  define T where "T = mset (values_of (bt_remove (task_id t) (ni_tasks info)))"
  have bt: "bt_invar (ni_tasks info)" and zero: "no_zero_counts info"
    using wf by (simp_all add: node_info_wf_iff)
  have T: "task_mset info = add_mset old T" "task_mset ?info = add_mset t T"
    using bt_remove_mset [OF old] bt_insert_old_mset [OF bt old, of t] old False
    by (simp_all add: T_def task_mset_def add_task_def Let_def)
  have fields: "ni_tasks ?info = bt_insert (task_id t) t (ni_tasks info)"
    "ni_node ?info = ni_node info" "ni_available ?info = ni_available info"
    "ni_used_host_ports ?info = ni_used_host_ports info"
    "ni_active_total ?info = (if is_active t then ni_active_total info + 1 else ni_active_total info - 1)"
    "no_zero_counts ?info"
    "active_tasks_for ?info = (active_tasks_for info)(?svc :=
       (if is_active t then active_tasks_for info ?svc + 1 else active_tasks_for info ?svc - 1))"
    using old False zero by (simp_all add: add_task_def Let_def increment_counts decrement_counts)
  from wf same False T show ?thesis
    by (auto simp: node_info_wf_iff fields bt_insert_invar bt_lookup_insert available_exact_def
        same_footprint_def fun_eq_iff)
qed

lemma remove_task_fields:
  fixes info i
  assumes "map_of (ni_tasks info) i = Some t"
  defines "info' \<equiv> snd (remove_task i info)"
  shows "ni_tasks info' = bt_remove i (ni_tasks info)"
    "ni_node info' = ni_node info"
    "task_mset info = add_mset t (task_mset info')"
    "ni_available info' = add_resources (ni_available info) (reservations_of t)"
    "ni_used_host_ports info' = ni_used_host_ports info - set (host_ports t)"
    "ni_active_total info' = (if is_active t then ni_active_total info - 1 else ni_active_total info)"
    "no_zero_counts info \<Longrightarrow> no_zero_counts info'"
    "no_zero_counts info \<Longrightarrow> active_tasks_for info' = (active_tasks_for info)(task_service_id t :=
       (if is_active t then active_tasks_for info (task_service_id t) - 1
        else active_tasks_for info (task_service_id t)))"
  using assms(1) bt_remove_mset [OF assms(1)]
  by (simp_all add: info'_def remove_task_def Let_def decrement_counts, simp_all add: task_mset_def)

lemma remove_task_wf:
  assumes wf: "node_info_wf info" and rep: "representable (ni_node info) (task_mset info)"
  shows "node_info_wf (snd (remove_task i info))"
proof (cases "map_of (ni_tasks info) i")
  case None
  with wf show ?thesis
    by (simp add: remove_task_def)
next
  case (Some t)
  note fields = remove_task_fields [OF Some]
  have exact: "available_exact (snd (remove_task i info))"
    unfolding available_exact_def
  proof
    fix f :: "resources \<Rightarrow> int"
    assume f: "f \<in> {nano_cpus, memory_bytes}"
    have eq: "f (ni_available info) + f (reservations_of t) =
        f (capacity (ni_node info)) - reserved f (task_mset (snd (remove_task i info)))"
      using wf f fields(3) by (auto simp: node_info_wf_iff available_exact_def)
    have "in_i64 (f (ni_available info) + f (reservations_of t))"
      using representable_in_i64 [OF representable_less f] rep fields(3) unfolding eq by metis
    with f eq show "f (ni_available (snd (remove_task i info))) =
        f (capacity (ni_node (snd (remove_task i info)))) - reserved f (task_mset (snd (remove_task i info)))"
      by (auto simp: fields(2,4) add_resources_def saturating_exact)
  qed
  have bt: "bt_invar (ni_tasks info)" and zero: "no_zero_counts info"
    using wf by (simp_all add: node_info_wf_iff)
  from wf exact fields(3) show ?thesis
    by (auto simp: node_info_wf_iff fields(1,2,4-6) fields(7,8) [OF zero] bt_remove_invar [OF bt]
        bt_lookup_remove [OF bt] fun_eq_iff split: if_splits)
qed

lemma foldl_subtract:
  assumes "representable n (mset ts)"
  shows "nano_cpus (foldl (\<lambda>a t. subtract a (reservations_of t)) (capacity n) ts) =
      nano_cpus (capacity n) - reserved nano_cpus (mset ts) \<and>
    memory_bytes (foldl (\<lambda>a t. subtract a (reservations_of t)) (capacity n) ts) =
      memory_bytes (capacity n) - reserved memory_bytes (mset ts)"
  using assms
proof (induction ts rule: rev_induct)
  case (snoc t ts)
  have rep: "representable n (add_mset t (mset ts))"
    using snoc.prems by simp
  have "in_i64 (nano_cpus (capacity n) - (nano_cpus (reservations_of t) + reserved nano_cpus (mset ts)))"
    "in_i64 (memory_bytes (capacity n) - (memory_bytes (reservations_of t) + reserved memory_bytes (mset ts)))"
    using representable_in_i64 [OF rep, of nano_cpus] representable_in_i64 [OF rep, of memory_bytes]
    by simp_all
  with snoc.IH [OF representable_less [OF rep]] show ?case
    by (simp add: subtract_def saturating_sub_def diff_diff_eq add.commute)
qed simp

lemma set_node_wf:
  assumes "node_info_wf info" "representable n (task_mset info)"
  shows "node_info_wf (set_node n info)"
proof -
  have "available_exact (set_node n info)"
    using foldl_subtract [of n "values_of (ni_tasks info)"] assms(2)
    by (simp add: available_exact_def set_node_def task_mset_def)
  with assms(1) show ?thesis
    by (simp add: node_info_wf_def counts_exact_def set_node_def task_mset_def)
qed

lemma record_failure_wf: "node_info_wf info \<Longrightarrow> node_info_wf (record_failure g now info)"
  by (simp add: node_info_wf_def counts_exact_def available_exact_def record_failure_def
      cleanup_failures_def task_mset_def Let_def)

text \<open>Every way the scheduler's mirror touches a node.\<close>

inductive info_reach :: "node_info \<Rightarrow> bool" where
  fresh: "representable n {#} \<Longrightarrow> info_reach (new_node_info n now)"
| count: "info_reach info \<Longrightarrow> map_of (ni_tasks info) (task_id t) = None \<Longrightarrow>
    representable (ni_node info) (add_mset t (task_mset info)) \<Longrightarrow> info_reach (snd (add_task t info))"
| recount: "info_reach info \<Longrightarrow> map_of (ni_tasks info) (task_id t) = Some old \<Longrightarrow>
    same_footprint old t \<Longrightarrow> info_reach (snd (add_task t info))"
| uncount: "info_reach info \<Longrightarrow> info_reach (snd (remove_task i info))"
| refresh: "info_reach info \<Longrightarrow> representable n (task_mset info) \<Longrightarrow> info_reach (set_node n info)"
| failure: "info_reach info \<Longrightarrow> info_reach (record_failure g now info)"

lemma recount_representable:
  assumes "node_info_wf info" "map_of (ni_tasks info) (task_id t) = Some old" "same_footprint old t"
    "representable (ni_node info) (task_mset info)"
  shows "representable (ni_node (snd (add_task t info))) (task_mset (snd (add_task t info)))"
proof (cases "is_active old = is_active t")
  case True
  with assms show ?thesis
    by (simp add: add_task_def)
next
  case False
  have bt: "bt_invar (ni_tasks info)"
    using assms(1) by (simp add: node_info_wf_iff)
  define T where "T = mset (values_of (bt_remove (task_id t) (ni_tasks info)))"
  have "task_mset info = add_mset old T" "task_mset (snd (add_task t info)) = add_mset t T"
    "ni_node (snd (add_task t info)) = ni_node info"
    using bt_remove_mset [OF assms(2)] bt_insert_old_mset [OF bt assms(2), of t] assms(2) False
    by (simp_all add: T_def task_mset_def add_task_def Let_def)
  with assms(3,4) show ?thesis
    by (auto simp: representable_def same_footprint_def)
qed

lemma info_reach_invariant:
  "info_reach info \<Longrightarrow> node_info_wf info \<and> representable (ni_node info) (task_mset info)"
proof (induction rule: info_reach.induct)
  case (fresh n now)
  then show ?case
    by (auto simp: node_info_wf_iff new_node_info_def task_mset_def no_zero_counts_def bt_invar_def
        active_tasks_for_def available_exact_def)
next
  case (count info t)
  then show ?case
    by (simp add: add_task_new_wf) (simp add: add_task_new(2,3))
next
  case (recount info t old)
  then show ?case
    using add_task_old_wf recount_representable by blast
next
  case (uncount info i)
  then have "representable (ni_node (snd (remove_task i info))) (task_mset (snd (remove_task i info)))"
    using remove_task_fields(2,3) [of info i] representable_less
    by (cases "map_of (ni_tasks info) i") (simp add: remove_task_def, metis)
  with uncount show ?case
    by (simp add: remove_task_wf)
next
  case (refresh info n)
  then have "node_info_wf (set_node n info)"
    by (simp add: set_node_wf)
  with refresh show ?case
    by (simp add: set_node_def task_mset_def)
next
  case (failure info g now)
  then have "node_info_wf (record_failure g now info)"
    by (simp add: record_failure_wf)
  with failure show ?case
    by (simp add: record_failure_def cleanup_failures_def task_mset_def Let_def)
qed


definition w_info :: node_info where
  "w_info = new_node_info (sample_node ''n1'' node_state.Ready Active) 0"

definition w_task :: task where
  "w_task = sample_task ''t1'' ''v1'' 1 task_state.Pending desired_state.Running"

lemma w_info_reach: "info_reach w_info"
  unfolding w_info_def
  by (rule info_reach.fresh) (simp add: representable_def capacity_def sample_defs i64_max_def)

lemma w_representable: "representable (ni_node w_info) (add_mset w_task (task_mset w_info))"
  by (simp add: representable_def w_info_def w_task_def new_node_info_def task_mset_def capacity_def
      reservations_of_def sample_defs i64_max_def)


section \<open>Undoing a placement\<close>

lemma decrement_increment:
  assumes "no_zero_counts info"
  shows "decrement_active svc ((increment_active svc info)\<lparr>ni_tasks := m\<rparr>) = info\<lparr>ni_tasks := m\<rparr>"
proof -
  have bt: "bt_invar (ni_active_by_service info)"
    using assms by (simp add: no_zero_counts_def)
  show ?thesis
  proof (cases "map_of (ni_active_by_service info) svc")
    case None
    then show ?thesis
      by (simp add: decrement_active_def increment_active_def active_tasks_for_def bt_lookup_insert [OF bt]
          bt_remove_insert [OF bt])
  next
    case (Some c)
    with assms have "c \<noteq> 0"
      unfolding no_zero_counts_def by metis
    with Some show ?thesis
      by (simp add: decrement_active_def increment_active_def active_tasks_for_def bt_lookup_insert [OF bt]
          bt_insert_insert [OF bt] bt_insert_same [OF bt])
  qed
qed

text \<open>
  C16. A placement that could not be committed is undone exactly: for a task the node did not hold,
  with its host ports free there and with totals that fit an \<open>i64\<close>, removing the task after adding it
  gives back the very state the node had, counters, resources and ports included.
\<close>

theorem remove_undoes_add:
  assumes "node_info_wf info" "map_of (ni_tasks info) (task_id t) = None"
    and "set (host_ports t) \<inter> ni_used_host_ports info = {}"
    and "representable (ni_node info) (add_mset t (task_mset info))"
  shows "remove_task (task_id t) (snd (add_task t info)) = (True, info)"
proof -
  have bt: "bt_invar (ni_tasks info)" and zero: "no_zero_counts info" and exact: "available_exact info"
    using assms(1) by (simp_all add: node_info_wf_iff)
  have range: "in_i64 (f (ni_available info) - f (reservations_of t)) \<and> in_i64 (f (ni_available info))"
    if f: "f \<in> {nano_cpus, memory_bytes}" for f
  proof -
    have "f (ni_available info) = f (capacity (ni_node info)) - reserved f (task_mset info)"
      using exact f unfolding available_exact_def by blast
    with representable_in_i64 [OF assms(4) f] representable_in_i64 [OF representable_less [OF assms(4)] f]
    show ?thesis
      by (simp add: diff_diff_eq add.commute)
  qed
  have avail: "add_resources (subtract (ni_available info) (reservations_of t)) (reservations_of t) =
      ni_available info"
    using range [of nano_cpus] range [of memory_bytes]
    by (simp add: add_resources_def subtract_def saturating_exact)
  have ports: "ni_used_host_ports info \<union> set (host_ports t) - set (host_ports t) = ni_used_host_ports info"
    using assms(3) by blast
  show ?thesis
    using assms(2) zero by (simp add: remove_task_def add_task_def Let_def bt_lookup_insert [OF bt]
        bt_remove_insert [OF bt assms(2)] avail ports decrement_increment)
qed

theorem remove_undoes_add_witness:
  "remove_task ''t1'' (snd (add_task w_task w_info)) = (True, w_info)"
  using remove_undoes_add [of w_info w_task] info_reach_invariant [OF w_info_reach] w_representable
  by (simp add: w_info_def new_node_info_def w_task_def sample_defs)

section \<open>Observing a counted task\<close>


definition w_resized :: task where
  "w_resized = w_task\<lparr>task_spec := (task_spec w_task)\<lparr>tspec_resources :=
     \<lparr>limits = None, reservations = Some \<lparr>nano_cpus = 1000, memory_bytes = 1000\<rparr>\<rparr>\<rparr>\<rparr>"


section \<open>The failure log\<close>

lemma map_of_filter_values:
  "distinct (keys_of m) \<Longrightarrow> map_of (filter (\<lambda>(_, v). P v) m) k =
     (case map_of m k of None \<Rightarrow> None | Some v \<Rightarrow> if P v then Some v else None)"
proof (induction m)
  case (Cons e m)
  then have "fst e = k \<Longrightarrow> map_of m k = None"
    by (auto simp: map_of_eq_None_iff)
  with Cons show ?case
    by (cases e) auto
qed simp

lemma filter_values_invar: "bt_invar m \<Longrightarrow> bt_invar (filter (\<lambda>(_, v). P v) m)"
  by (simp add: bt_invar_def sorted_wrt_map sorted_wrt_filter)

lemma recent_cleanup:
  assumes "bt_invar (ni_failures info)"
  shows "recent_failures (cleanup_failures now info) g now = recent_failures info g now"
  using bt.invar_distinct [OF assms]
  by (auto simp: recent_failures_def cleanup_failures_def map_of_filter_values list_ex_iff filter_empty_conv
      split: option.split)

text \<open>
  Recording a failure adds exactly one recent failure to the group that failed and leaves the
  recent failures of every other group as they were, also when it triggers the periodic
  clean-up of the log: no failure within the window is dropped, none is counted twice.
\<close>

theorem record_failure_counts_one:
  assumes "bt_invar (ni_failures info)"
  shows "recent_failures (record_failure g now info) g' now =
    recent_failures info g' now + (if g' = g then 1 else 0)"
proof -
  define info1 where "info1 = (if elapsed (ni_last_cleanup info) now \<ge> MONITOR_FAILURES
    then cleanup_failures now info else info)"
  have bt: "bt_invar (ni_failures info1)"
    using assms by (simp add: info1_def cleanup_failures_def filter_values_invar)
  have recent: "recent_failures info1 g'' now = recent_failures info g'' now" for g''
    using recent_cleanup [OF assms] by (simp add: info1_def)
  have "elapsed now now < MONITOR_FAILURES"
    by (simp add: elapsed_def duration_since_def MONITOR_FAILURES_def)
  then have "recent_failures (record_failure g now info) g' now =
      recent_failures info1 g' now + (if g' = g then 1 else 0)"
    unfolding record_failure_def info1_def [symmetric] Let_def
    by (auto simp: recent_failures_def bt_lookup_insert [OF bt] split: option.split)
  with recent show ?thesis
    by simp
qed

theorem record_failure_counts_one_witness:
  "recent_failures (record_failure (Some ''v1'', Some 1) 7 w_info) (Some ''v1'', Some 1) 7 = 1"
  using record_failure_counts_one [of w_info "(Some ''v1'', Some 1)" 7 "(Some ''v1'', Some 1)"]
  by (simp add: w_info_def new_node_info_def bt_invar_def recent_failures_def)

end
