(* ===== verification/Sched_Filters.thy ===== *)
theory Sched_Filters
  imports Sched_NodeInfo
begin

text \<open>
  \<open>satl-sched/src/filters.rs\<close>: the checks a node must pass to run a task, and the ordered
  pipeline that runs them with its rejection counters.
\<close>

definition accepts_new_tasks :: "node \<Rightarrow> bool" where
  "accepts_new_tasks n \<longleftrightarrow> nstatus_state (node_status n) = node_state.Ready \<and>
     nspec_availability (node_spec n) = Active"

section \<open>Requirements on the node itself\<close>

definition normalize_arch :: "string \<Rightarrow> string" where
  "normalize_arch a = (if a = ''x86_64'' then ''amd64'' else if a = ''aarch64'' then ''arm64'' else a)"

definition platform_matches :: "platform \<Rightarrow> platform \<Rightarrow> bool" where
  "platform_matches wanted got \<longleftrightarrow>
     (plat_arch wanted = [] \<or> normalize_arch (plat_arch wanted) = normalize_arch (plat_arch got)) \<and>
     (plat_os wanted = [] \<or> plat_os wanted = plat_os got)"

definition platform_supported :: "platform list \<Rightarrow> node \<Rightarrow> bool" where
  "platform_supported supported n =
     (if supported = [] then True
      else case node_desc n of
             None \<Rightarrow> False
           | Some d \<Rightarrow> list_ex (\<lambda>wanted. platform_matches wanted (desc_platform d)) supported)"

record placement_requirements =
  req_constraints :: "constraint list"
  req_platforms :: "platform list"

definition requirements_of :: "task_spec \<Rightarrow> placement_requirements" where
  "requirements_of spec = \<lparr>
     req_constraints =
       (if constraints (tspec_placement spec) = [] then []
        else case parse_all (constraints (tspec_placement spec)) of Inr cs \<Rightarrow> cs | Inl _ \<Rightarrow> []),
     req_platforms = platforms (tspec_placement spec)\<rparr>"

definition satisfied_by :: "placement_requirements \<Rightarrow> node \<Rightarrow> bool" where
  "satisfied_by req n \<longleftrightarrow> constraints_match (req_constraints req) n \<and>
     platform_supported (req_platforms req) n"

section \<open>Filters\<close>

text \<open>The six implementations of the \<open>Filter\<close> trait, with their configured state.\<close>

datatype task_filter =
    NodeReadyFilter
  | ResourceFilter int int
  | ConstraintFilter "constraint list"
  | PlatformFilter "platform list"
  | HostPortFilter "host_port list"
  | MaxReplicasFilter "id option" nat

fun filter_set_task :: "task_filter \<Rightarrow> task \<Rightarrow> bool \<times> task_filter" where
  "filter_set_task NodeReadyFilter t = (True, NodeReadyFilter)"
| "filter_set_task (ResourceFilter c m) t = (case reservations (tspec_resources (task_spec t)) of
       None \<Rightarrow> (False, ResourceFilter c m)
     | Some r \<Rightarrow> if nano_cpus r = 0 \<and> memory_bytes r = 0 then (False, ResourceFilter c m)
                else (True, ResourceFilter (nano_cpus r) (memory_bytes r)))"
| "filter_set_task (ConstraintFilter cs) t =
     (let es = constraints (tspec_placement (task_spec t))
      in if es = [] then (False, ConstraintFilter cs)
         else case parse_all es of
                Inr cs' \<Rightarrow> (True, ConstraintFilter cs')
              | Inl _ \<Rightarrow> (False, ConstraintFilter cs))"
| "filter_set_task (PlatformFilter ps) t =
     (let ps' = platforms (tspec_placement (task_spec t)) in (ps' \<noteq> [], PlatformFilter ps'))"
| "filter_set_task (HostPortFilter hp) t = (let hp' = host_ports t in (hp' \<noteq> [], HostPortFilter hp'))"
| "filter_set_task (MaxReplicasFilter svc n) t =
     (let n' = max_replicas (tspec_placement (task_spec t))
      in (n' > 0, MaxReplicasFilter (task_service_id t) n'))"

fun filter_check :: "task_filter \<Rightarrow> node_info \<Rightarrow> bool" where
  "filter_check NodeReadyFilter info = accepts_new_tasks (ni_node info)"
| "filter_check (ResourceFilter c m) info =
     (c \<le> nano_cpus (ni_available info) \<and> m \<le> memory_bytes (ni_available info))"
| "filter_check (ConstraintFilter cs) info = constraints_match cs (ni_node info)"
| "filter_check (PlatformFilter ps) info = platform_supported ps (ni_node info)"
| "filter_check (HostPortFilter hp) info = (\<not> list_ex (host_port_in_use info) hp)"
| "filter_check (MaxReplicasFilter svc n) info = (active_tasks_for info svc < n)"

definition nodes_text :: "nat \<Rightarrow> string" where
  "nodes_text n = (if n = 1 then ''1 node'' else show_nat n @ '' nodes'')"

fun filter_explain :: "task_filter \<Rightarrow> nat \<Rightarrow> string" where
  "filter_explain NodeReadyFilter n = nodes_text n @ '' not available for new tasks''"
| "filter_explain (ResourceFilter c m) n = ''insufficient resources on '' @ nodes_text n"
| "filter_explain (ConstraintFilter cs) n =
     ''scheduling constraints not satisfied on '' @ nodes_text n"
| "filter_explain (PlatformFilter ps) n = ''unsupported platform on '' @ nodes_text n"
| "filter_explain (HostPortFilter hp) n = ''host-mode port already in use on '' @ nodes_text n"
| "filter_explain (MaxReplicasFilter svc m) n = ''max replicas per node limit exceed''"

section \<open>The pipeline\<close>

record pipeline =
  pl_filters :: "task_filter list"
  pl_enabled :: "bool list"
  pl_rejected :: "nat list"

definition with_filters :: "task_filter list \<Rightarrow> pipeline" where
  "with_filters fs = \<lparr>pl_filters = fs, pl_enabled = replicate (length fs) False,
     pl_rejected = replicate (length fs) 0\<rparr>"

definition new_pipeline :: pipeline where
  "new_pipeline = with_filters [NodeReadyFilter, ResourceFilter 0 0, ConstraintFilter [],
     PlatformFilter [], HostPortFilter [], MaxReplicasFilter None 0]"

definition pipeline_set_task :: "pipeline \<Rightarrow> task \<Rightarrow> pipeline" where
  "pipeline_set_task p t =
     (let set = map (\<lambda>f. filter_set_task f t) (pl_filters p)
      in \<lparr>pl_filters = map snd set, pl_enabled = map fst set, pl_rejected = map (\<lambda>_. 0) set\<rparr>)"

fun first_failing :: "nat \<Rightarrow> task_filter list \<Rightarrow> bool list \<Rightarrow> node_info \<Rightarrow> nat option" where
  "first_failing i (f # fs) (e # es) info =
     (if e \<and> \<not> filter_check f info then Some i else first_failing (Suc i) fs es info)"
| "first_failing i _ _ info = None"

definition pipeline_check :: "pipeline \<Rightarrow> node_info \<Rightarrow> bool \<times> pipeline" where
  "pipeline_check p info = (case first_failing 0 (pl_filters p) (pl_enabled p) info of
       Some i \<Rightarrow> (False, p\<lparr>pl_rejected := (pl_rejected p)[i := pl_rejected p ! i + 1]\<rparr>)
     | None \<Rightarrow> (True, p\<lparr>pl_rejected := map (\<lambda>_. 0) (pl_rejected p)\<rparr>))"

fun join :: "string \<Rightarrow> string list \<Rightarrow> string" where
  "join sep [] = []"
| "join sep [x] = x"
| "join sep (x # xs) = x @ sep @ join sep xs"

definition pipeline_explain :: "pipeline \<Rightarrow> string" where
  "pipeline_explain p =
     (let reasons = map (\<lambda>(f, n). (n, filter_explain f n))
            (filter (\<lambda>(f, n). n > 0) (zip (pl_filters p) (pl_rejected p)))
      in if reasons = [] then ''no nodes in the cluster''
         else join ''; '' (map snd (sort_by (\<lambda>a b. cmp (fst b) (fst a)) reasons)))"

end
