(* ===== verification/Sched_Placement.thy ===== *)
theory Sched_Placement
  imports Sched_Filters
begin

text \<open>
  \<open>satl-sched/src/placement.rs\<close>: the ranking of nodes and the placement of a group of
  interchangeable tasks. Indexing a node the map does not hold (\<open>nodes[id]\<close>, a panic in Rust)
  is \<^const>\<open>the\<close>; the candidates are always keys of the map.
\<close>

record assignment =
  asg_task :: task
  asg_node_id :: id

section \<open>Ranking\<close>

definition strip_prefix :: "string \<Rightarrow> string \<Rightarrow> string option" where
  "strip_prefix p s = (if prefix p s then Some (drop (length p) s) else None)"

definition descriptor_value :: "node \<Rightarrow> string \<Rightarrow> string" where
  "descriptor_value n d =
     (if d = ''node.id'' then node_id n
      else if d = ''node.hostname'' then (case node_desc n of None \<Rightarrow> '''' | Some x \<Rightarrow> hostname x)
      else case strip_prefix ''node.labels.'' d of
        Some key \<Rightarrow> label_or_empty (nspec_labels (node_spec n)) key
      | None \<Rightarrow> (case strip_prefix ''engine.labels.'' d of
          Some key \<Rightarrow> (case node_desc n of
              None \<Rightarrow> '''' | Some x \<Rightarrow> label_or_empty (engine_labels (desc_engine x)) key)
        | None \<Rightarrow> ''''))"

record spread_count =
  sc_descriptor :: string
  sc_counts :: "(string, nat) btree_map"

definition add_count :: "string \<Rightarrow> nat \<Rightarrow> (string, nat) btree_map \<Rightarrow> (string, nat) btree_map" where
  "add_count k n m = bt_insert k ((case map_of m k of None \<Rightarrow> 0 | Some c \<Rightarrow> c) + n) m"

definition spread_build :: "(id, node_info) btree_map \<Rightarrow> id option \<Rightarrow> string \<Rightarrow> spread_count" where
  "spread_build nodes svc d = \<lparr>sc_descriptor = d,
     sc_counts = foldl (\<lambda>m info. add_count (descriptor_value (ni_node info) d)
       (active_tasks_for info svc) m) [] (values_of nodes)\<rparr>"

definition spread_of :: "spread_count \<Rightarrow> node \<Rightarrow> nat" where
  "spread_of sc n = (case map_of (sc_counts sc) (descriptor_value n (sc_descriptor sc)) of
     None \<Rightarrow> 0 | Some c \<Rightarrow> c)"

definition spread_account :: "node \<Rightarrow> spread_count \<Rightarrow> spread_count" where
  "spread_account n sc =
     sc\<lparr>sc_counts := add_count (descriptor_value n (sc_descriptor sc)) 1 (sc_counts sc)\<rparr>"

fun compare_spread :: "spread_count list \<Rightarrow> node \<Rightarrow> node \<Rightarrow> ordering" where
  "compare_spread [] a b = ordering.Equal"
| "compare_spread (sc # scs) a b =
     (let c = cmp (spread_of sc a) (spread_of sc b)
      in if c \<noteq> ordering.Equal then c else compare_spread scs a b)"

definition compare_nodes ::
  "node_info \<Rightarrow> node_info \<Rightarrow> task_group \<Rightarrow> system_time \<Rightarrow> spread_count list \<Rightarrow> ordering" where
  "compare_nodes a b g now spread_counts =
     (let fa = recent_failures a g now; fb = recent_failures b g now;
          penalty = (if fa \<ge> MAX_FAILURES \<or> fb \<ge> MAX_FAILURES then cmp fa fb else ordering.Equal);
          sp = compare_spread spread_counts (ni_node a) (ni_node b); svc = fst g
      in if penalty \<noteq> ordering.Equal then penalty
         else if sp \<noteq> ordering.Equal then sp
         else then_with (then_with (cmp (active_tasks_for a svc) (active_tasks_for b svc))
                (cmp (ni_active_total a) (ni_active_total b)))
              (cmp (node_id (ni_node a)) (node_id (ni_node b))))"

section \<open>Placement\<close>

definition fits_on_node :: "(id, node_info) btree_map \<Rightarrow> id \<Rightarrow> pipeline \<Rightarrow> (bool option \<times> pipeline)" where
  "fits_on_node nodes i p = (case map_of nodes i of
       None \<Rightarrow> (None, p)
     | Some info \<Rightarrow> (let (ok, p') = pipeline_check p info in (Some ok, p')))"

text \<open>The candidates: the ids of the nodes the pipeline lets through, its counters threaded.\<close>

fun filter_candidates :: "pipeline \<Rightarrow> node_info list \<Rightarrow> id list \<times> pipeline" where
  "filter_candidates p [] = ([], p)"
| "filter_candidates p (info # infos) =
     (let (ok, p') = pipeline_check p info; (ids, p'') = filter_candidates p' infos
      in (if ok then node_id (ni_node info) # ids else ids, p''))"

definition rank ::
  "(id, node_info) btree_map \<Rightarrow> task_group \<Rightarrow> system_time \<Rightarrow> spread_count list \<Rightarrow> id list \<Rightarrow> id list" where
  "rank nodes g now spread_counts ids =
     sort_by (\<lambda>a b. compare_nodes (the (map_of nodes a)) (the (map_of nodes b)) g now spread_counts) ids"

fun choose_node ::
  "(id, node_info) btree_map \<Rightarrow> id list \<Rightarrow> id set \<Rightarrow> pipeline \<Rightarrow> id option \<times> id set \<times> pipeline" where
  "choose_node nodes [] exhausted p = (None, exhausted, p)"
| "choose_node nodes (i # is) exhausted p =
     (if i \<in> exhausted then choose_node nodes is exhausted p
      else let (ok, p') = pipeline_check p (the (map_of nodes i))
           in if ok then (Some i, exhausted, p')
              else choose_node nodes is (insert i exhausted) p')"

fun place_tasks ::
  "(id, node_info) btree_map \<Rightarrow> task_group \<Rightarrow> system_time \<Rightarrow> spread_count list \<Rightarrow> id list \<Rightarrow> id set \<Rightarrow>
   pipeline \<Rightarrow> task list \<Rightarrow> assignment list \<times> task list \<times> (id, node_info) btree_map \<times> pipeline" where
  "place_tasks nodes g now scs candidates exhausted p [] = ([], [], nodes, p)"
| "place_tasks nodes g now scs candidates exhausted p (t # ts) =
     (let ranked = rank nodes g now scs candidates
      in case choose_node nodes ranked exhausted p of
           (None, exhausted', p') \<Rightarrow> ([], t # ts, nodes, p')
         | (Some i, exhausted', p') \<Rightarrow>
             (let (nodes', scs') = (case map_of nodes i of
                      None \<Rightarrow> (nodes, scs)
                    | Some info \<Rightarrow> (let info' = snd (add_task t info)
                        in (bt_insert i info' nodes, map (spread_account (ni_node info')) scs)));
                  (asgs, left, nodes'', p'') = place_tasks nodes' g now scs' ranked exhausted' p' ts
              in (\<lparr>asg_task = t, asg_node_id = i\<rparr> # asgs, left, nodes'', p'')))"

definition place_group ::
  "(id, node_info) btree_map \<Rightarrow> task list \<Rightarrow> pipeline \<Rightarrow> system_time \<Rightarrow>
   assignment list \<times> task list \<times> (id, node_info) btree_map \<times> pipeline" where
  "place_group nodes tasks p now = (case tasks of
       [] \<Rightarrow> ([], [], nodes, p)
     | sample # _ \<Rightarrow>
         (let p1 = pipeline_set_task p sample; g = group_of sample;
              scs = map (\<lambda>s. spread_build nodes (fst g) (spread_descriptor s))
                (List.map_filter spread (preferences (tspec_placement (task_spec sample))));
              (ids, p2) = filter_candidates p1 (values_of nodes);
              candidates = rank nodes g now scs ids
          in if candidates = [] then ([], tasks, nodes, p2)
             else place_tasks nodes g now scs candidates {} p2 tasks))"

end
