(* ===== verification/Sched_Placement_Proofs.thy ===== *)
theory Sched_Placement_Proofs
  imports Sched_Placement Sched_NodeInfo_Proofs
begin

text \<open>
  Scheduling of one group: the pipeline decides eligibility, the ranking is a total order, and
  placement is the greedy algorithm over both: each task in turn goes to a best eligible node
  as the earlier placements left it, and tasks are left over only when no node is eligible.
\<close>

section \<open>The pipeline decides eligibility\<close>

definition eligible :: "task \<Rightarrow> node_info \<Rightarrow> bool" where
  "eligible t info \<longleftrightarrow>
     accepts_new_tasks (ni_node info) \<and>
     (reservations_of t = no_resources \<or>
      nano_cpus (reservations_of t) \<le> nano_cpus (ni_available info) \<and>
      memory_bytes (reservations_of t) \<le> memory_bytes (ni_available info)) \<and>
     satisfied_by (requirements_of (task_spec t)) (ni_node info) \<and>
     set (host_ports t) \<inter> ni_used_host_ports info = {} \<and>
     (max_replicas (tspec_placement (task_spec t)) = 0 \<or>
      active_tasks_for info (task_service_id t) < max_replicas (tspec_placement (task_spec t)))"

definition passes :: "pipeline \<Rightarrow> node_info \<Rightarrow> bool" where
  "passes p info \<longleftrightarrow> fst (pipeline_check p info)"

text \<open>The filters of \<open>Pipeline::new\<close>, whatever they were last configured for.\<close>

definition standard :: "pipeline \<Rightarrow> bool" where
  "standard p \<longleftrightarrow> (\<exists>c m cs ps hp s n. pl_filters p = [NodeReadyFilter, ResourceFilter c m,
     ConstraintFilter cs, PlatformFilter ps, HostPortFilter hp, MaxReplicasFilter s n])"

lemma standard_new: "standard new_pipeline"
  by (simp add: standard_def new_pipeline_def with_filters_def)

lemma standard_check [simp]: "standard (snd (pipeline_check p info)) = standard p"
  by (simp add: standard_def pipeline_check_def split: option.split)

lemma standard_set_task: "standard p \<Longrightarrow> standard (pipeline_set_task p t)"
  by (auto simp: standard_def pipeline_set_task_def Let_def split: option.split sum.split)

lemma passes_check [simp]: "passes (snd (pipeline_check p x)) = passes p"
  by (auto simp: passes_def pipeline_check_def fun_eq_iff split: option.split)

lemma passes_iff_eligible:
  assumes "standard p"
  shows "passes (pipeline_set_task p t) info \<longleftrightarrow> eligible t info"
proof -
  obtain c m cs ps hp s n where p: "pl_filters p = [NodeReadyFilter, ResourceFilter c m,
      ConstraintFilter cs, PlatformFilter ps, HostPortFilter hp, MaxReplicasFilter s n]"
    using assms by (auto simp: standard_def)
  have resource: "(fst (filter_set_task (ResourceFilter c m) t) \<longrightarrow>
      filter_check (snd (filter_set_task (ResourceFilter c m) t)) info) \<longleftrightarrow>
    reservations_of t = no_resources \<or>
      nano_cpus (reservations_of t) \<le> nano_cpus (ni_available info) \<and>
      memory_bytes (reservations_of t) \<le> memory_bytes (ni_available info)"
    by (auto simp: reservations_of_def no_resources_def split: option.split)
  have constraint: "(fst (filter_set_task (ConstraintFilter cs) t) \<longrightarrow>
      filter_check (snd (filter_set_task (ConstraintFilter cs) t)) info) \<longleftrightarrow>
    constraints_match (req_constraints (requirements_of (task_spec t))) (ni_node info)"
    by (simp add: requirements_of_def Let_def constraints_match_def split: sum.split)
  have platform: "(fst (filter_set_task (PlatformFilter ps) t) \<longrightarrow>
      filter_check (snd (filter_set_task (PlatformFilter ps) t)) info) \<longleftrightarrow>
    platform_supported (req_platforms (requirements_of (task_spec t))) (ni_node info)"
    by (simp add: requirements_of_def Let_def platform_supported_def)
  have ports: "(fst (filter_set_task (HostPortFilter hp) t) \<longrightarrow>
      filter_check (snd (filter_set_task (HostPortFilter hp) t)) info) \<longleftrightarrow>
    set (host_ports t) \<inter> ni_used_host_ports info = {}"
    by (auto simp: Let_def list_ex_iff host_port_in_use_def)
  have replicas: "(fst (filter_set_task (MaxReplicasFilter s n) t) \<longrightarrow>
      filter_check (snd (filter_set_task (MaxReplicasFilter s n) t)) info) \<longleftrightarrow>
    max_replicas (tspec_placement (task_spec t)) = 0 \<or>
      active_tasks_for info (task_service_id t) < max_replicas (tspec_placement (task_spec t))"
    by (auto simp: Let_def)
  have "passes (pipeline_set_task p t) info \<longleftrightarrow>
    (\<forall>f \<in> set (pl_filters p). fst (filter_set_task f t) \<longrightarrow> filter_check (snd (filter_set_task f t)) info)"
    unfolding passes_def pipeline_check_def pipeline_set_task_def p Let_def
    by (simp del: filter_set_task.simps filter_check.simps)
  with resource constraint platform ports replicas show ?thesis
    unfolding eligible_def satisfied_by_def p
    by (simp del: filter_set_task.simps(2-) filter_check.simps(2-))
qed

text \<open>
  C14. The pipeline lets a node through exactly when the node is eligible for the task it was
  configured for: the node is ready and active, what the task reserves is available, the
  constraints that parse and the platforms are satisfied, no host port is taken, and the
  replica limit of its service is not reached. Filters that do not apply (no reservation, no
  constraint, no limit) never reject, and no state of an earlier task leaks in.
\<close>

theorem pipeline_passes_iff_eligible:
  assumes "standard p"
  shows "fst (pipeline_check (pipeline_set_task p t) info) \<longleftrightarrow> eligible t info"
  using passes_iff_eligible [OF assms] by (simp add: passes_def)

definition w_nodes :: "(id, node_info) btree_map" where
  "w_nodes = [(''n1'', w_info),
     (''n2'', new_node_info (sample_node ''n2'' node_state.Ready Active) 0),
     (''n3'', new_node_info (sample_node ''n3'' node_state.Down Active) 0)]"

theorem pipeline_passes_iff_eligible_witness:
  "fst (pipeline_check (pipeline_set_task new_pipeline w_task) w_info) \<and> eligible w_task w_info"
proof -
  have "fst (pipeline_check (pipeline_set_task new_pipeline w_task) w_info)"
    by code_simp
  with pipeline_passes_iff_eligible [OF standard_new, of w_task w_info] show ?thesis
    by blast
qed

section \<open>The ranking is a total order\<close>

definition penalty :: "nat \<Rightarrow> nat" where
  "penalty f = (if f \<ge> MAX_FAILURES then f else 0)"

definition rank_key ::
  "task_group \<Rightarrow> system_time \<Rightarrow> spread_count list \<Rightarrow> node_info \<Rightarrow> nat \<times> nat list \<times> nat \<times> nat \<times> id" where
  "rank_key g now scs info = (penalty (recent_failures info g now),
     map (\<lambda>sc. spread_of sc (ni_node info)) scs, active_tasks_for info (fst g),
     ni_active_total info, node_id (ni_node info))"

lemma cmp_pair: "cmp (a, b) (c, d) = then_with (cmp a c) (cmp b d)"
  by (auto simp: cmp_def)

lemma cmp_cons: "cmp (a # as) (b # bs) = then_with (cmp a b) (cmp as bs)"
  by (auto simp: cmp_def)

lemma compare_spread_cmp:
  "compare_spread scs a b = cmp (map (\<lambda>sc. spread_of sc a) scs) (map (\<lambda>sc. spread_of sc b) scs)"
proof (induction scs)
  case (Cons sc scs)
  then show ?case
    by (cases "cmp (spread_of sc a) (spread_of sc b)") (simp_all add: cmp_cons Let_def)
qed (simp add: cmp_def)

lemma penalty_cmp:
  "(if a \<ge> MAX_FAILURES \<or> b \<ge> MAX_FAILURES then cmp a b else ordering.Equal) = cmp (penalty a) (penalty b)"
  by (auto simp: penalty_def cmp_def MAX_FAILURES_def)

lemma then_with_if: "(if c \<noteq> ordering.Equal then c else d) = then_with c d"
  by (cases c) simp_all

lemma then_with_assoc: "then_with (then_with a b) c = then_with a (then_with b c)"
  by (cases a) simp_all

lemma compare_nodes_key: "compare_nodes a b g now scs = cmp (rank_key g now scs a) (rank_key g now scs b)"
  unfolding compare_nodes_def rank_key_def Let_def penalty_cmp compare_spread_cmp then_with_if
    cmp_pair then_with_assoc ..

interpretation ranking: total_cmp "\<lambda>a b. compare_nodes a b g now scs" for g now scs
  unfolding compare_nodes_key by (rule total_cmp_key)

text \<open>
  The comparison of nodes is the lexicographic order of five criteria: the recent failures of
  this group where they reach the limit (below the limit they do not count), the spread groups
  in the order of the preferences, the service's active tasks, all active tasks, the node id. In
  particular the case distinction on the penalty does not break transitivity.
\<close>

theorem compare_nodes_lexicographic:
  "compare_nodes a b g now scs =
     cmp (if recent_failures a g now \<ge> MAX_FAILURES then recent_failures a g now else 0,
          map (\<lambda>sc. spread_of sc (ni_node a)) scs, active_tasks_for a (fst g),
          ni_active_total a, node_id (ni_node a))
         (if recent_failures b g now \<ge> MAX_FAILURES then recent_failures b g now else 0,
          map (\<lambda>sc. spread_of sc (ni_node b)) scs, active_tasks_for b (fst g),
          ni_active_total b, node_id (ni_node b))"
  by (simp only: compare_nodes_key rank_key_def penalty_def)

section \<open>Placement is greedy\<close>

definition nodes_keyed :: "(id, node_info) btree_map \<Rightarrow> bool" where
  "nodes_keyed nodes \<longleftrightarrow> bt_invar nodes \<and>
     (\<forall>i info. map_of nodes i = Some info \<longrightarrow> node_id (ni_node info) = i)"

text \<open>The specification: tasks in order, each on a best node that satisfies \<open>P\<close> at that point.\<close>

inductive greedy ::
  "(node_info \<Rightarrow> bool) \<Rightarrow> task_group \<Rightarrow> system_time \<Rightarrow> (id, node_info) btree_map \<Rightarrow> spread_count list \<Rightarrow>
   task list \<Rightarrow> assignment list \<Rightarrow> task list \<Rightarrow> (id, node_info) btree_map \<Rightarrow> bool"
  for P g now where
  all_placed: "greedy P g now nodes scs [] [] [] nodes"
| stuck: "(\<And>i info. map_of nodes i = Some info \<Longrightarrow> \<not> P info) \<Longrightarrow>
    greedy P g now nodes scs (t # ts) [] (t # ts) nodes"
| place: "map_of nodes i = Some info \<Longrightarrow> P info \<Longrightarrow>
    (\<And>j other. map_of nodes j = Some other \<Longrightarrow> P other \<Longrightarrow>
       compare_nodes info other g now scs \<noteq> Greater) \<Longrightarrow>
    greedy P g now (bt_insert i (snd (add_task t info)) nodes) (map (spread_account (ni_node info)) scs)
      ts asgs left nodes' \<Longrightarrow>
    greedy P g now nodes scs (t # ts) (\<lparr>asg_task = t, asg_node_id = i\<rparr> # asgs) left nodes'"

lemma add_task_node [simp]: "ni_node (snd (add_task t info)) = ni_node info"
  by (simp add: add_task_def Let_def split: option.split)

lemma nodes_keyed_insert:
  "nodes_keyed nodes \<Longrightarrow> map_of nodes i = Some info \<Longrightarrow>
   nodes_keyed (bt_insert i (snd (add_task t info)) nodes)"
  by (auto simp: nodes_keyed_def bt_insert_invar bt_lookup_insert)

text \<open>The walk over the ranked candidates finds the first that passes; skipping the exhausted ones
  changes nothing, because they do not pass.\<close>

lemma choose_node_spec:
  assumes "choose_node nodes is exhausted p = (chosen, exhausted', p')"
    and "\<And>j. j \<in> exhausted \<Longrightarrow> \<not> passes p (the (map_of nodes j))"
  shows "chosen = find (\<lambda>j. passes p (the (map_of nodes j))) is \<and> passes p' = passes p \<and>
    (\<forall>j \<in> exhausted'. \<not> passes p (the (map_of nodes j))) \<and> exhausted' \<subseteq> exhausted \<union> set is"
  using assms
proof (induction "is" arbitrary: exhausted p)
  case (Cons i "is")
  show ?case
  proof (cases "i \<in> exhausted")
    case True
    with Cons.prems Cons.IH [of exhausted p] show ?thesis
      by auto
  next
    case False
    obtain ok p1 where ok: "pipeline_check p (the (map_of nodes i)) = (ok, p1)"
      by fastforce
    then have p1: "passes p1 = passes p" "passes p (the (map_of nodes i)) = ok"
      using passes_check [of p "the (map_of nodes i)"] by (simp_all add: passes_def)
    show ?thesis
    proof (cases ok)
      case True
      with False ok p1 Cons.prems show ?thesis
        by auto
    next
      case fail: False
      have "choose_node nodes is (insert i exhausted) p1 = (chosen, exhausted', p')"
        using Cons.prems(1) False ok fail by simp
      from Cons.IH [OF this] Cons.prems(2) p1 fail show ?thesis
        by auto
    qed
  qed
qed simp

lemma find_SomeD: "find P xs = Some x \<Longrightarrow> x \<in> set xs \<and> P x"
  by (induction xs) (auto split: if_splits)

lemma find_sorted_least:
  assumes "sorted_wrt R xs" "find P xs = Some x" "y \<in> set xs" "P y"
  shows "y = x \<or> R x y"
  using assms by (induction xs) (auto split: if_splits)

definition placement_state ::
  "(id, node_info) btree_map \<Rightarrow> id list \<Rightarrow> id set \<Rightarrow> (node_info \<Rightarrow> bool) \<Rightarrow> bool" where
  "placement_state nodes candidates exhausted P \<longleftrightarrow> nodes_keyed nodes \<and>
     set candidates \<subseteq> dom (map_of nodes) \<and>
     (\<forall>j info. map_of nodes j = Some info \<longrightarrow> j \<notin> set candidates \<or> j \<in> exhausted \<longrightarrow> \<not> P info) \<and>
     exhausted \<subseteq> set candidates"

lemma rank_sorted:
  "sorted_wrt (\<lambda>a b. compare_nodes (the (map_of nodes a)) (the (map_of nodes b)) g now scs \<noteq> Greater)
     (rank nodes g now scs ids)"
proof -
  have "total_cmp (\<lambda>a b. cmp (rank_key g now scs (the (map_of nodes a)))
      (rank_key g now scs (the (map_of nodes b))))"
    by (rule total_cmp_key)
  then show ?thesis
    unfolding rank_def compare_nodes_key by (rule total_cmp.sorted_sort_by)
qed

lemma place_tasks_greedy:
  assumes "placement_state nodes candidates exhausted (passes p)"
    and "place_tasks nodes g now scs candidates exhausted p ts = (asgs, left, nodes', p')"
  shows "greedy (passes p) g now nodes scs ts asgs left nodes'"
  using assms
proof (induction ts arbitrary: nodes scs candidates exhausted p asgs left nodes' p')
  case Nil
  then show ?case
    by (simp add: greedy.all_placed)
next
  case (Cons t ts)
  let ?P = "passes p" and ?ranked = "rank nodes g now scs candidates"
  have ranked: "set ?ranked = set candidates"
    by (simp add: rank_def)
  have keyed: "nodes_keyed nodes" and dom: "set candidates \<subseteq> dom (map_of nodes)"
    and fail: "\<And>j info. map_of nodes j = Some info \<Longrightarrow> j \<notin> set candidates \<or> j \<in> exhausted \<Longrightarrow> \<not> ?P info"
    and ex: "exhausted \<subseteq> set candidates"
    using Cons.prems(1) by (auto simp: placement_state_def)
  obtain chosen ex' p1 where choose: "choose_node nodes ?ranked exhausted p = (chosen, ex', p1)"
    by (metis prod_cases3)
  have "\<not> ?P (the (map_of nodes j))" if "j \<in> exhausted" for j
    using that ex dom fail by fastforce
  from choose_node_spec [OF choose this] ranked ex
  have find: "chosen = find (\<lambda>j. ?P (the (map_of nodes j))) ?ranked" and p1: "passes p1 = ?P"
    and ex': "\<forall>j \<in> ex'. \<not> ?P (the (map_of nodes j))" "ex' \<subseteq> set candidates"
    by auto
  show ?case
  proof (cases chosen)
    case None
    with find ranked have "\<forall>j \<in> set candidates. \<not> ?P (the (map_of nodes j))"
      by (auto simp: find_None_iff eq_commute [of None])
    with fail have "\<not> ?P info" if "map_of nodes i = Some info" for i info
      using that by force
    with Cons.prems(2) choose None show ?thesis
      by (auto simp: Let_def intro: greedy.stuck)
  next
    case (Some i)
    with find have i: "i \<in> set candidates" "?P (the (map_of nodes i))"
      using find_SomeD [of "\<lambda>j. ?P (the (map_of nodes j))" ?ranked i] ranked by simp_all
    then obtain info where info: "map_of nodes i = Some info"
      using dom by auto
    let ?nodes = "bt_insert i (snd (add_task t info)) nodes"
    have best: "compare_nodes info other g now scs \<noteq> Greater"
      if "map_of nodes j = Some other" "?P other" for j other
    proof -
      have "j \<in> set ?ranked"
        using that fail ranked by blast
      with find_sorted_least [OF rank_sorted, of "\<lambda>j. ?P (the (map_of nodes j))" nodes g now scs candidates i j]
        find Some that info show ?thesis
        by (auto simp: compare_nodes_key cmp_def split: if_splits)
    qed
    have bt: "bt_invar nodes"
      using keyed by (simp add: nodes_keyed_def)
    have state: "placement_state ?nodes ?ranked ex' (passes p1)"
      unfolding placement_state_def
      using nodes_keyed_insert [OF keyed info] dom fail ex' i info ranked p1
      by (auto simp: bt_lookup_insert [OF bt] split: if_splits)
    obtain asgs1 left1 nodes1 p2 where rest: "place_tasks ?nodes g now
        (map (spread_account (ni_node info)) scs) ?ranked ex' p1 ts = (asgs1, left1, nodes1, p2)"
      by (metis prod_cases4)
    with Cons.prems(2) choose Some info have "asgs = \<lparr>asg_task = t, asg_node_id = i\<rparr> # asgs1"
      "left = left1" "nodes' = nodes1"
      by (simp_all add: Let_def)
    with greedy.place [OF info _ best] i info Cons.IH [OF state rest] p1 show ?thesis
      by simp
  qed
qed

lemma filter_candidates_spec:
  "filter_candidates p infos = (ids, p') \<Longrightarrow>
   ids = map (node_id \<circ> ni_node) (filter (passes p) infos) \<and> passes p' = passes p"
proof (induction infos arbitrary: p ids p')
  case (Cons info infos)
  obtain ok p1 where ok: "pipeline_check p info = (ok, p1)"
    by fastforce
  then have p1: "passes p1 = passes p" "passes p info = ok"
    using passes_check [of p info] by (simp_all add: passes_def)
  obtain ids' p2 where "filter_candidates p1 infos = (ids', p2)"
    by fastforce
  with Cons.IH [OF this] Cons.prems ok p1 show ?case
    by auto
qed simp

definition initial_spread :: "(id, node_info) btree_map \<Rightarrow> task \<Rightarrow> spread_count list" where
  "initial_spread nodes t = map (\<lambda>s. spread_build nodes (task_service_id t) (spread_descriptor s))
     (List.map_filter spread (preferences (tspec_placement (task_spec t))))"

lemma place_group_greedy:
  assumes keyed: "nodes_keyed nodes" and "standard p"
    and run: "place_group nodes (t # ts) p now = (asgs, left, nodes', p')"
  shows "greedy (eligible t) (group_of t) now nodes (initial_spread nodes t) (t # ts) asgs left nodes'"
proof -
  define p1 where "p1 = pipeline_set_task p t"
  have P: "passes p1 = eligible t"
    using passes_iff_eligible [OF assms(2)] by (simp add: p1_def fun_eq_iff)
  obtain ids p2 where ids: "filter_candidates p1 (values_of nodes) = (ids, p2)"
    by fastforce
  have p2: "passes p2 = passes p1" and members: "set ids = (node_id \<circ> ni_node) ` {info \<in> snd ` set nodes. passes p1 info}"
    using filter_candidates_spec [OF ids] by auto
  have mem: "j \<in> set ids \<longleftrightarrow> (\<exists>info. map_of nodes j = Some info \<and> passes p1 info)" for j
    using keyed bt.mem_iff [of nodes] unfolding members nodes_keyed_def
    by (auto simp: image_iff) (metis fst_conv snd_conv)+
  have spread: "map (\<lambda>s. spread_build nodes (fst (group_of t)) (spread_descriptor s))
      (List.map_filter spread (preferences (tspec_placement (task_spec t)))) = initial_spread nodes t"
    by (simp add: initial_spread_def group_of_def)
  show ?thesis
  proof (cases "ids = []")
    case True
    with mem have "\<not> eligible t info" if "map_of nodes i = Some info" for i info
      using that P by auto
    with run True ids show ?thesis
      by (auto simp: place_group_def Let_def p1_def rank_def intro: greedy.stuck)
  next
    case False
    let ?cs = "rank nodes (group_of t) now (initial_spread nodes t) ids"
    have cs: "set ?cs = set ids" "?cs \<noteq> []"
      using False by (simp_all add: rank_def) (metis length_sort_by length_0_conv)
    have "placement_state nodes ?cs {} (passes p2)"
      using keyed mem by (auto simp: placement_state_def cs p2)
    moreover have "place_tasks nodes (group_of t) now (initial_spread nodes t) ?cs {} p2 (t # ts) =
        (asgs, left, nodes', p')"
      using run ids cs(2) by (simp add: place_group_def p1_def [symmetric] spread Let_def del: place_tasks.simps)
    ultimately show ?thesis
      using place_tasks_greedy p2 P by metis
  qed
qed

text \<open>
  C3. Placing a group is the greedy algorithm: the tasks are taken in order; each goes to a node that
  is eligible for it as the earlier placements left that node, and that no other eligible node
  precedes in the ranking (spread groups updated after each placement); the node is updated by
  counting the task; and the rest of the group is left over only at a point where no node of the
  cluster is eligible.
\<close>

theorem place_group_is_greedy:
  assumes "nodes_keyed nodes" "standard p"
  shows "case place_group nodes (t # ts) p now of (asgs, left, nodes', p') \<Rightarrow>
    greedy (eligible t) (group_of t) now nodes (initial_spread nodes t) (t # ts) asgs left nodes'"
  using place_group_greedy [OF assms] by (auto split: prod.split)

lemma w_nodes_keyed: "nodes_keyed w_nodes"
proof -
  have "bt_invar w_nodes"
    by code_simp
  then show ?thesis
    by (simp add: nodes_keyed_def) (simp add: w_nodes_def w_info_def new_node_info_def sample_node_def)
qed

theorem place_group_is_greedy_witness:
  "greedy (eligible w_task) (Some ''v1'', Some 1) 0 w_nodes []
     [w_task, w_task\<lparr>task_id := ''t2''\<rparr>]
     [\<lparr>asg_task = w_task, asg_node_id = ''n1''\<rparr>, \<lparr>asg_task = w_task\<lparr>task_id := ''t2''\<rparr>, asg_node_id = ''n2''\<rparr>] []
     (fst (snd (snd (place_group w_nodes [w_task, w_task\<lparr>task_id := ''t2''\<rparr>] new_pipeline 0))))"
proof -
  have "fst (place_group w_nodes [w_task, w_task\<lparr>task_id := ''t2''\<rparr>] new_pipeline 0) =
      [\<lparr>asg_task = w_task, asg_node_id = ''n1''\<rparr>, \<lparr>asg_task = w_task\<lparr>task_id := ''t2''\<rparr>, asg_node_id = ''n2''\<rparr>]"
    "fst (snd (place_group w_nodes [w_task, w_task\<lparr>task_id := ''t2''\<rparr>] new_pipeline 0)) = []"
    "group_of w_task = (Some ''v1'', Some 1)" "initial_spread w_nodes w_task = []"
    by code_simp+
  with place_group_is_greedy [OF w_nodes_keyed standard_new,
      where t = w_task and ts = "[w_task\<lparr>task_id := ''t2''\<rparr>]" and now = 0]
  show ?thesis
    by (auto split: prod.splits)
qed

section \<open>What placement never does\<close>

text \<open>A relation between a node before and after that every eligible addition keeps.\<close>

lemma greedy_nodes:
  assumes "greedy P g now nodes scs ts asgs left nodes'" "bt_invar nodes"
    and "\<And>i info. map_of nodes i = Some info \<Longrightarrow> Q i info"
    and "\<And>i info t. Q i info \<Longrightarrow> P info \<Longrightarrow> t \<in> set ts \<Longrightarrow> Q i (snd (add_task t info))"
    and "map_of nodes' i = Some info'"
  shows "Q i info'"
  using assms
proof (induction rule: greedy.induct)
  case (place nodes i0 info scs t ts asgs left nodes')
  have "Q j x" if "map_of (bt_insert i0 (snd (add_task t info)) nodes) j = Some x" for j x
    using that place.prems(2,3) place.hyps(1,2) place.prems(1)
    by (auto simp: bt_lookup_insert split: if_splits)
  with place.IH place.prems show ?case
    by (simp add: bt_insert_invar)
qed auto

lemma sat64_nonneg: "0 \<le> x \<Longrightarrow> 0 \<le> sat64 x"
  by (simp add: sat64_def i64_max_def i64_min_def)

lemma add_task_not_overcommitted:
  assumes "eligible t0 info" "reservations_of t = reservations_of t0"
    and "0 \<le> nano_cpus (ni_available info) \<and> 0 \<le> memory_bytes (ni_available info)"
    and "in_i64 (nano_cpus (ni_available info)) \<and> in_i64 (memory_bytes (ni_available info))"
  shows "0 \<le> nano_cpus (ni_available (snd (add_task t info))) \<and>
    0 \<le> memory_bytes (ni_available (snd (add_task t info))) \<and>
    in_i64 (nano_cpus (ni_available (snd (add_task t info)))) \<and>
    in_i64 (memory_bytes (ni_available (snd (add_task t info))))"
proof (cases "map_of (ni_tasks info) (task_id t)")
  case None
  with assms show ?thesis
    by (auto simp: add_task_new subtract_def saturating_sub_def eligible_def no_resources_def
        intro: sat64_nonneg)
next
  case (Some old)
  then have "ni_available (snd (add_task t info)) = ni_available info"
    by (simp add: add_task_def Let_def)
  with assms show ?thesis
    by simp
qed

lemma add_task_count_bound:
  assumes "no_zero_counts info"
  shows "active_tasks_for (snd (add_task t info)) svc \<le>
      active_tasks_for info svc + (if svc = task_service_id t then 1 else 0)"
    and "no_zero_counts (snd (add_task t info))"
proof -
  show "active_tasks_for (snd (add_task t info)) svc \<le>
      active_tasks_for info svc + (if svc = task_service_id t then 1 else 0)"
  proof (cases "map_of (ni_tasks info) (task_id t)")
    case None
    with assms show ?thesis
      by (simp add: add_task_new(8))
  next
    case (Some old)
    with assms show ?thesis
      by (auto simp: add_task_def Let_def increment_counts decrement_counts)
  qed
  show "no_zero_counts (snd (add_task t info))"
    using assms by (cases "map_of (ni_tasks info) (task_id t)")
      (simp_all add: add_task_new(7), simp add: add_task_def Let_def increment_counts decrement_counts)
qed


definition w_limited :: task where
  "w_limited = w_task\<lparr>task_spec := (task_spec w_task)\<lparr>tspec_placement :=
     sample_placement\<lparr>max_replicas := 1\<rparr>\<rparr>\<rparr>"


end
