(* ===== verification/Orch_Propose.thy ===== *)
theory Orch_Propose
  imports Cluster_Store_Invariants
begin

text \<open>
  \<open>satl-orchestrator/src/propose.rs\<close> and \<open>ClusterStore::propose\<close>: a control loop derives a
  transaction from a view of the store, proposes it and derives it anew when the store rejects it.
  The locale \<open>control_loop\<close> is the contract every such loop keeps: what it derives from a
  well-formed store is a bounded list of actions on distinct objects that fit the view, so an
  uncontended proposal is accepted and its effect is the effect of each action on the view.
\<close>

section \<open>Proposing\<close>

text \<open>What \<open>Raft::client_write\<close> returns; its own failures are a parameter type.\<close>

datatype 'e client_write_error = ForwardToLeader "nat option" | Fatal 'e

datatype 'e propose_error =
    NotLeader (leader_hint: "nat option")
  | Rejected proposal_rejection
  | Raft 'e

definition propose ::
  "(store_action list \<Rightarrow> ('e client_write_error, proposal_response) result) \<Rightarrow>
   store_action list \<Rightarrow> ('e propose_error, version) result" where
  "propose client_write actions = (case client_write actions of
       Inl (ForwardToLeader hint) \<Rightarrow> Inl (NotLeader hint)
     | Inl (Fatal e) \<Rightarrow> Inl (Raft e)
     | Inr (proposal_response.Applied v) \<Rightarrow> Inr v
     | Inr (proposal_response.Rejected r) \<Rightarrow> Inl (propose_error.Rejected r))"

definition MAX_CONFLICT_RETRIES :: nat where
  "MAX_CONFLICT_RETRIES = 5"

datatype 'e propose_retry_error =
    RetriesExhausted (attempts: nat) (last_rejection: proposal_rejection)
  | Malformed proposal_rejection
  | Propose "'e propose_error"

definition is_malformed :: "proposal_rejection \<Rightarrow> bool" where
  "is_malformed r \<longleftrightarrow> (case r of TooManyActions _ \<Rightarrow> True | TooLarge _ \<Rightarrow> True | _ \<Rightarrow> False)"

text \<open>
  The retry loop. Attempt \<open>n\<close> reads the store as \<open>view n\<close> and proposes through \<open>client_write n\<close>:
  whatever other writers do in between is in these two arguments.
\<close>

function retry_loop ::
  "(nat \<Rightarrow> 's) \<Rightarrow> (nat \<Rightarrow> store_action list \<Rightarrow> ('e client_write_error, proposal_response) result) \<Rightarrow>
   ('s \<Rightarrow> store_action list) \<Rightarrow> nat \<Rightarrow> ('e propose_retry_error, version option) result" where
  "retry_loop view client_write decide attempt =
     (let actions = decide (view attempt)
      in if actions = [] then Inr None
         else case propose (client_write attempt) actions of
             Inr v \<Rightarrow> Inr (Some v)
           | Inl (propose_error.Rejected r) \<Rightarrow>
               if is_malformed r then Inl (Malformed r)
               else if attempt \<ge> MAX_CONFLICT_RETRIES then Inl (RetriesExhausted attempt r)
               else retry_loop view client_write decide (attempt + 1)
           | Inl e \<Rightarrow> Inl (Propose e))"
  by pat_completeness auto

termination
  by (relation "measure (\<lambda>(_, _, _, n). MAX_CONFLICT_RETRIES - n)") simp_all

declare retry_loop.simps [simp del]

definition propose_with_retry ::
  "(nat \<Rightarrow> 's) \<Rightarrow> (nat \<Rightarrow> store_action list \<Rightarrow> ('e client_write_error, proposal_response) result) \<Rightarrow>
   ('s \<Rightarrow> store_action list) \<Rightarrow> ('e propose_retry_error, version option) result" where
  "propose_with_retry view client_write decide = retry_loop view client_write decide 1"

lemma propose_rejected:
  "propose cw acts = Inl (propose_error.Rejected r) \<longleftrightarrow> cw acts = Inr (proposal_response.Rejected r)"
  by (simp add: propose_def split: sum.split client_write_error.split proposal_response.split)

text \<open>One turn of the loop, by what the proposal returned.\<close>

lemma retry_loop_step:
  "decide (view n) = [] \<Longrightarrow> retry_loop view cw decide n = Inr None"
  "decide (view n) \<noteq> [] \<Longrightarrow> propose (cw n) (decide (view n)) = Inr v \<Longrightarrow>
   retry_loop view cw decide n = Inr (Some v)"
  "decide (view n) \<noteq> [] \<Longrightarrow> propose (cw n) (decide (view n)) = Inl e \<Longrightarrow>
   \<forall>r. e \<noteq> propose_error.Rejected r \<Longrightarrow> retry_loop view cw decide n = Inl (Propose e)"
  "decide (view n) \<noteq> [] \<Longrightarrow> cw n (decide (view n)) = Inr (proposal_response.Rejected r) \<Longrightarrow>
   retry_loop view cw decide n =
     (if is_malformed r then Inl (Malformed r)
      else if n \<ge> MAX_CONFLICT_RETRIES then Inl (RetriesExhausted n r)
      else retry_loop view cw decide (Suc n))"
  by (simp_all add: retry_loop.simps [of view cw decide n] Let_def propose_rejected [symmetric]
      split: propose_error.split)

lemma retry_loop_cases:
  obtains (nothing) "decide (view n) = []"
  | (committed) v where "decide (view n) \<noteq> []" "propose (cw n) (decide (view n)) = Inr v"
  | (failed) e where "decide (view n) \<noteq> []" "propose (cw n) (decide (view n)) = Inl e"
      "\<forall>r. e \<noteq> propose_error.Rejected r"
  | (rejected) r where "decide (view n) \<noteq> []"
      "cw n (decide (view n)) = Inr (proposal_response.Rejected r)"
  by (metis propose_rejected sum.exhaust)

lemma retry_loop_malformed:
  "retry_loop view cw decide n = Inl (Malformed r) \<Longrightarrow>
   \<exists>m. cw m (decide (view m)) = Inr (proposal_response.Rejected r) \<and> is_malformed r"
proof (induction "MAX_CONFLICT_RETRIES - n" arbitrary: n rule: less_induct)
  case less
  show ?case
  proof (cases rule: retry_loop_cases [where decide = decide and view = view and n = n and cw = cw])
    case (rejected r')
    show ?thesis
    proof (cases "is_malformed r' \<or> n \<ge> MAX_CONFLICT_RETRIES")
      case True
      with rejected less.prems show ?thesis
        by (auto simp: retry_loop_step(4) split: if_splits)
    next
      case False
      with rejected less.prems show ?thesis
        by (intro less.hyps [of "Suc n"]) (auto simp: retry_loop_step(4))
    qed
  qed (use less.prems in \<open>simp_all add: retry_loop_step\<close>)
qed

text \<open>The attempts one by one: what an attempt returns, unless it lost a race.\<close>

definition rejection_at where
  "rejection_at view cw decide n = (case cw n (decide (view n)) of
       Inr (proposal_response.Rejected r) \<Rightarrow> Some r | _ \<Rightarrow> None)"

definition lost_race where
  "lost_race view cw decide n \<longleftrightarrow> decide (view n) \<noteq> [] \<and>
     (case rejection_at view cw decide n of Some r \<Rightarrow> \<not> is_malformed r | None \<Rightarrow> False)"

definition attempt_outcome where
  "attempt_outcome view cw decide n =
     (if decide (view n) = [] then Inr None
      else case propose (cw n) (decide (view n)) of
          Inr v \<Rightarrow> Inr (Some v)
        | Inl (propose_error.Rejected r) \<Rightarrow> Inl (Malformed r)
        | Inl e \<Rightarrow> Inl (Propose e))"

lemma lost_race_iff:
  "lost_race view cw decide n \<longleftrightarrow> decide (view n) \<noteq> [] \<and>
     (\<exists>r. cw n (decide (view n)) = Inr (proposal_response.Rejected r) \<and> \<not> is_malformed r)"
  by (simp add: lost_race_def rejection_at_def split: sum.split proposal_response.split)

lemma retry_loop_outcome:
  "\<not> lost_race view cw decide n \<Longrightarrow> retry_loop view cw decide n = attempt_outcome view cw decide n"
proof (cases rule: retry_loop_cases [where decide = decide and view = view and n = n and cw = cw])
  case (rejected r)
  then show "\<not> lost_race view cw decide n \<Longrightarrow> ?thesis"
    by (simp add: retry_loop_step(4) lost_race_iff attempt_outcome_def propose_def)
next
  case (failed e)
  then show ?thesis
    by (cases e) (simp_all add: retry_loop_step attempt_outcome_def)
qed (simp_all add: retry_loop_step attempt_outcome_def)

lemma retry_loop_again:
  assumes "lost_race view cw decide n"
  shows "retry_loop view cw decide n =
    (if n \<ge> MAX_CONFLICT_RETRIES
     then Inl (RetriesExhausted n (the (rejection_at view cw decide n)))
     else retry_loop view cw decide (Suc n))"
proof -
  obtain r where "decide (view n) \<noteq> []" "cw n (decide (view n)) = Inr (proposal_response.Rejected r)"
    "\<not> is_malformed r"
    using assms unfolding lost_race_iff by blast
  then show ?thesis
    by (simp add: retry_loop_step(4) rejection_at_def)
qed

text \<open>
  C37. The retry loop ends after at most five proposals, whatever the other writers do: its result is
  that of the first attempt that did not lose a race (nothing to do, committed, malformed, or a
  Raft failure), and if all five lost, the error that carries the fifth rejection.
\<close>

theorem retry_is_first_settled_attempt:
  "propose_with_retry view cw decide =
     (case find (\<lambda>n. \<not> lost_race view cw decide n) [1..<Suc MAX_CONFLICT_RETRIES] of
        Some n \<Rightarrow> attempt_outcome view cw decide n
      | None \<Rightarrow> Inl (RetriesExhausted MAX_CONFLICT_RETRIES
                  (the (rejection_at view cw decide MAX_CONFLICT_RETRIES))))"
proof -
  have "retry_loop view cw decide n =
     (case find (\<lambda>n. \<not> lost_race view cw decide n) [n..<Suc MAX_CONFLICT_RETRIES] of
        Some n \<Rightarrow> attempt_outcome view cw decide n
      | None \<Rightarrow> Inl (RetriesExhausted MAX_CONFLICT_RETRIES
                  (the (rejection_at view cw decide MAX_CONFLICT_RETRIES))))"
    if "n \<le> MAX_CONFLICT_RETRIES" for n
    using that
  proof (induction "MAX_CONFLICT_RETRIES - n" arbitrary: n rule: less_induct)
    case less
    have range: "[n..<Suc MAX_CONFLICT_RETRIES] = n # [Suc n..<Suc MAX_CONFLICT_RETRIES]"
      using less.prems by (simp add: upt_conv_Cons)
    show ?case
    proof (cases "lost_race view cw decide n")
      case True
      show ?thesis
      proof (cases "n = MAX_CONFLICT_RETRIES")
        case False
        then have "retry_loop view cw decide n = retry_loop view cw decide (Suc n)"
          using True less.prems by (simp add: retry_loop_again)
        moreover note less.hyps [of "Suc n"]
        ultimately show ?thesis
          using False True less.prems by (simp add: range del: upt_Suc)
      qed (use True in \<open>simp add: retry_loop_again\<close>)
    qed (simp add: range retry_loop_outcome del: upt_Suc)
  qed
  from this [of 1] show ?thesis
    unfolding propose_with_retry_def by (simp add: MAX_CONFLICT_RETRIES_def)
qed

section \<open>Transactions on distinct objects\<close>

fun action_key :: "store_action \<Rightarrow> object_kind \<times> id" where
  "action_key (Create obj) = obj_key obj"
| "action_key (Update obj) = obj_key obj"
| "action_key (store_action.Remove k i) = (k, i)"

fun action_fits :: "object_map \<Rightarrow> store_action \<Rightarrow> bool" where
  "action_fits m (Create obj) \<longleftrightarrow> m (obj_key obj) = None"
| "action_fits m (Update obj) \<longleftrightarrow>
     (case m (obj_key obj) of None \<Rightarrow> False | Some cur \<Rightarrow> object_version obj = object_version cur)"
| "action_fits m (store_action.Remove k i) \<longleftrightarrow> m (k, i) \<noteq> None"

fun action_result :: "version \<Rightarrow> object_map \<Rightarrow> store_action \<Rightarrow> store_object option" where
  "action_result v m (Create obj) = Some (stamp_spec_version None v (stamp_version v obj))"
| "action_result v m (Update obj) =
     Some (stamp_spec_version (m (obj_key obj)) v (stamp_version v obj))"
| "action_result v m (store_action.Remove k i) = None"

definition independent_tx :: "object_map \<Rightarrow> store_action list \<Rightarrow> bool" where
  "independent_tx m acts \<longleftrightarrow> distinct (map action_key acts) \<and> list_all (action_fits m) acts"

definition result_map :: "version \<Rightarrow> object_map \<Rightarrow> store_action list \<Rightarrow> object_map" where
  "result_map v m acts key =
     (case map_of (map (\<lambda>a. (action_key a, action_result v m a)) acts) key of
        None \<Rightarrow> m key | Some r \<Rightarrow> r)"

lemma spec_action_fits:
  "action_fits m a \<Longrightarrow> spec_action v a m = Inr (m(action_key a := action_result v m a))"
  by (cases a) (auto split: option.splits)

lemma action_local:
  assumes "m' (action_key a) = m (action_key a)"
  shows "action_fits m' a = action_fits m a" and "action_result v m' a = action_result v m a"
  using assms by (cases a; simp)+

lemma result_map_Nil [simp]: "result_map v m [] = m"
  by (simp add: result_map_def fun_eq_iff)

lemma result_map_Cons:
  assumes "action_key a \<notin> set (map action_key acts)"
  shows "result_map v m (a # acts) = result_map v (m(action_key a := action_result v m a)) acts"
proof
  fix key
  let ?m' = "m(action_key a := action_result v m a)"
  have same: "map (\<lambda>b. (action_key b, action_result v ?m' b)) acts =
      map (\<lambda>b. (action_key b, action_result v m b)) acts"
  proof (intro map_cong refl)
    fix b assume "b \<in> set acts"
    then have "action_key b \<noteq> action_key a"
      using assms by (auto simp: image_iff)
    then show "(action_key b, action_result v ?m' b) = (action_key b, action_result v m b)"
      using action_local(2) [of ?m' b m] by simp
  qed
  have "map_of (map (\<lambda>b. (action_key b, action_result v m b)) acts) (action_key a) = None"
    using assms by (auto simp: map_of_eq_None_iff)
  then show "result_map v m (a # acts) key = result_map v ?m' acts key"
    unfolding result_map_def same by (auto split: option.splits)
qed

lemma spec_actions_independent:
  "independent_tx m acts \<Longrightarrow> spec_actions v acts m = Inr (result_map v m acts)"
proof (induction acts arbitrary: m)
  case (Cons a acts)
  let ?m' = "m(action_key a := action_result v m a)"
  have new: "action_key a \<notin> set (map action_key acts)" and fits: "action_fits m a"
    using Cons.prems by (simp_all add: independent_tx_def)
  have "action_fits ?m' b" if "b \<in> set acts" for b
  proof -
    have "action_key b \<noteq> action_key a"
      using new that by (auto simp: image_iff)
    then show ?thesis
      using Cons.prems that action_local(1) [of ?m' b m] by (simp add: independent_tx_def list_all_iff)
  qed
  then have "independent_tx ?m' acts"
    using Cons.prems by (simp add: independent_tx_def list_all_iff)
  then have "spec_actions v acts ?m' = Inr (result_map v ?m' acts)"
    by (rule Cons.IH)
  then show ?case
    by (simp only: spec_actions.simps spec_action_fits [OF fits] sum.case result_map_Cons [OF new])
qed simp

lemma independent_accepted:
  assumes "independent_tx (store_map s) acts" "length acts \<le> MAX_TX_ACTIONS" "len \<le> MAX_TX_BYTES"
  shows "\<exists>evs s'. apply_transaction s \<lparr>proposal_actions = acts\<rparr> index len =
      (proposal_response.Applied index, evs, s') \<and>
      store_map s' = result_map index (store_map s) acts"
proof -
  have spec: "spec_transaction (store_map s) \<lparr>proposal_actions = acts\<rparr> index len =
      Inr (result_map index (store_map s) acts)"
    using assms by (simp add: spec_transaction_def spec_actions_independent)
  obtain reply evs s' where tx: "apply_transaction s \<lparr>proposal_actions = acts\<rparr> index len = (reply, evs, s')"
    by (metis prod_cases3)
  show ?thesis
  proof (cases reply)
    case (Applied v)
    with applied_spec tx spec have "v = index" "store_map s' = result_map index (store_map s) acts"
      by fastforce+
    with tx Applied show ?thesis by simp
  next
    case (Rejected r)
    with rejected_spec tx spec show ?thesis by fastforce
  qed
qed

lemma independent_take:
  assumes "independent_tx m acts"
  shows "independent_tx m (take n acts)"
proof -
  have "distinct (take n (map action_key acts))"
    using assms by (simp add: independent_tx_def)
  then show ?thesis
    using assms in_set_takeD [of _ n acts] by (simp add: independent_tx_def list_all_iff take_map)
qed

section \<open>The contract of a control loop\<close>

text \<open>
  \<open>decide\<close> is a loop's decision; its first argument supplies the generated ids, its second is the
  clock.
\<close>

definition fresh_ids :: "(nat \<Rightarrow> id) \<Rightarrow> object_map \<Rightarrow> bool" where
  "fresh_ids fresh m \<longleftrightarrow> inj fresh \<and> (\<forall>k. m (object_kind.Task, fresh k) = None)"

locale control_loop =
  fixes decide :: "(nat \<Rightarrow> id) \<Rightarrow> system_time \<Rightarrow> ('lid, 'mem) store_inner \<Rightarrow> store_action list"
  assumes decide_bounded: "length (decide fresh now s) \<le> MAX_TX_ACTIONS"
    and decide_independent:
      "store_wf s \<Longrightarrow> fresh_ids fresh (store_map s) \<Longrightarrow> independent_tx (store_map s) (decide fresh now s)"
begin

lemma accepted:
  assumes "store_wf s" "fresh_ids fresh (store_map s)" "len \<le> MAX_TX_BYTES"
  shows "\<exists>evs s'. apply_transaction s \<lparr>proposal_actions = decide fresh now s\<rparr> index len =
      (proposal_response.Applied index, evs, s') \<and> store_wf s' \<and>
      store_map s' = result_map index (store_map s) (decide fresh now s)"
proof -
  obtain evs s' where tx: "apply_transaction s \<lparr>proposal_actions = decide fresh now s\<rparr> index len =
      (proposal_response.Applied index, evs, s')"
    "store_map s' = result_map index (store_map s) (decide fresh now s)"
    using independent_accepted [OF decide_independent [OF assms(1,2)] decide_bounded assms(3)] by metis
  show ?thesis
    using tx apply_transaction_wf [OF assms(1) tx(1)] by metis
qed

lemma uncontended:
  assumes "store_wf s" "fresh_ids fresh (store_map s)" "len \<le> MAX_TX_BYTES" "view 1 = s"
    and "\<And>acts. client_write 1 acts =
       Inr (fst (apply_transaction s \<lparr>proposal_actions = acts\<rparr> index len))"
  shows "propose_with_retry view client_write (decide fresh now) =
    Inr (if decide fresh now s = [] then None else Some index)"
proof -
  obtain evs s' where "apply_transaction s \<lparr>proposal_actions = decide fresh now s\<rparr> index len =
      (proposal_response.Applied index, evs, s')"
    using accepted [OF assms(1-3)] by blast
  then show ?thesis
    unfolding propose_with_retry_def
    by (subst retry_loop.simps, unfold assms(4,5) propose_def Let_def) simp
qed

lemma not_malformed:
  assumes "\<And>n acts r. client_write n acts = Inr (proposal_response.Rejected r) \<Longrightarrow> is_malformed r \<Longrightarrow>
      MAX_TX_ACTIONS < length acts"
  shows "propose_with_retry view client_write (decide fresh now) \<noteq> Inl (Malformed r)"
  using retry_loop_malformed [of view client_write "decide fresh now" 1 r] decide_bounded assms
  unfolding propose_with_retry_def by (metis not_le)

end

end
