(* ===== verification/Core_Naming.thy ===== *)
theory Core_Naming
  imports Core_Constraint
begin

text \<open>
  \<open>satl-core/src/id.rs\<close> and \<open>satl-core/src/naming.rs\<close>: random object ids in base 36, and the names
  of services, networks, secrets and configs. The random bytes of an id are an argument.
\<close>

section \<open>Ids\<close>

definition ID_BYTES :: nat where
  "ID_BYTES = 17"

definition ID_LENGTH :: nat where
  "ID_LENGTH = 25"

definition ALPHABET :: string where
  "ALPHABET = ''0123456789abcdefghijklmnopqrstuvwxyz''"

text \<open>
  One pass of long division by 36 over the bytes, most significant first: the quotient in place
  and the remainder. \<open>acc\<close> and \<open>rem\<close> are \<open>u32\<close>, the quotient is cast to \<open>u8\<close>.
\<close>

fun base36_pass :: "32 word \<Rightarrow> 8 word list \<Rightarrow> 8 word list \<times> 32 word" where
  "base36_pass r [] = ([], r)"
| "base36_pass r (b # bs) =
     (let acc = r * 256 + ucast b; (q, r') = base36_pass (acc mod 36) bs
      in (ucast (acc div 36) # q, r'))"

text \<open>The number a big-endian byte string stands for.\<close>

definition be_value :: "8 word list \<Rightarrow> nat" where
  "be_value bs = foldl (\<lambda>v b. v * 256 + unat b) 0 bs"

lemma be_value_Nil [simp]: "be_value [] = 0"
  by (simp add: be_value_def)

lemma foldl_be_value: "foldl (\<lambda>v b. v * 256 + unat b) v bs = v * 256 ^ length bs + be_value bs"
proof (induction bs arbitrary: v)
  case (Cons b bs)
  show ?case
    using Cons.IH [of "v * 256 + unat b"] Cons.IH [of "unat b"]
    by (simp add: be_value_def algebra_simps)
qed simp

lemma be_value_Cons: "be_value (b # bs) = unat b * 256 ^ length bs + be_value bs"
  using foldl_be_value [of "unat b" bs] by (simp add: be_value_def)

lemma be_value_bound: "be_value bs < 256 ^ length bs"
proof (induction bs)
  case (Cons b bs)
  have "unat b \<le> 255"
    using unsigned_less [of b, where 'a = nat] by simp
  then have "unat b * 256 ^ length bs \<le> 255 * 256 ^ length bs"
    by simp
  then have "unat b * 256 ^ length bs + be_value bs < 255 * 256 ^ length bs + 256 ^ length bs"
    using Cons by (rule add_le_less_mono)
  then show ?case
    by (simp add: be_value_Cons)
qed simp

lemma be_value_dropWhile_zero [simp]: "be_value (dropWhile (\<lambda>b. b = 0) bs) = be_value bs"
  by (induction bs) (simp_all add: be_value_Cons)

lemma be_value_eq_0: "be_value bs = 0 \<longleftrightarrow> (\<forall>b \<in> set bs. b = 0)"
  by (induction bs) (auto simp: be_value_Cons unat_eq_zero)

text \<open>The casts lose nothing: the accumulator stays below \<open>36 \<sqdot> 256\<close>.\<close>

lemma base36_acc:
  fixes r :: "32 word" and b :: "8 word"
  assumes "unat r < 36"
  shows "unat (r * 256 + ucast b) = unat r * 256 + unat b"
    and "unat (ucast ((r * 256 + ucast b) div 36) :: 8 word) = (unat r * 256 + unat b) div 36"
    and "unat ((r * 256 + ucast b) mod 36) = (unat r * 256 + unat b) mod 36"
proof -
  have b: "unat b < 256"
    using unsigned_less [of b, where 'a = nat] by simp
  have "unat (r * 256) = unat r * 256"
    using assms by (subst unat_mult_lem [THEN iffD1]) simp_all
  moreover have "unat (ucast b :: 32 word) = unat b"
    using b by (simp add: unsigned_ucast_eq take_bit_nat_eq_self)
  ultimately show acc: "unat (r * 256 + ucast b) = unat r * 256 + unat b"
    using assms b by (subst unat_add_lem [THEN iffD1]) simp_all
  have "(unat r * 256 + unat b) div 36 < 256"
    using assms b by simp
  then show "unat (ucast ((r * 256 + ucast b) div 36) :: 8 word) = (unat r * 256 + unat b) div 36"
    by (simp add: unsigned_ucast_eq take_bit_eq_mod unat_div acc)
  show "unat ((r * 256 + ucast b) mod 36) = (unat r * 256 + unat b) mod 36"
    by (simp add: unat_mod acc)
qed

lemma base36_pass_divides:
  "unat r < 36 \<Longrightarrow> base36_pass r bs = (q, r') \<Longrightarrow>
   length q = length bs \<and> unat r' < 36 \<and>
   unat r * 256 ^ length bs + be_value bs = 36 * be_value q + unat r'"
proof (induction r bs arbitrary: q r' rule: base36_pass.induct)
  case (2 r b bs)
  let ?acc = "r * 256 + ucast b :: 32 word"
  obtain q0 where q0: "base36_pass (?acc mod 36) bs = (q0, r')" "q = ucast (?acc div 36) # q0"
    using "2.prems"(2) by (auto simp: Let_def split: prod.splits)
  have lt: "unat (?acc mod 36) < 36"
    using base36_acc(3) [OF "2.prems"(1), of b] by simp
  have IH: "length q0 = length bs" "unat r' < 36"
    "unat (?acc mod 36) * 256 ^ length bs + be_value bs = 36 * be_value q0 + unat r'"
    using "2.IH" [OF refl lt q0(1)] by simp_all
  let ?n = "unat r * 256 + unat b"
  have "unat r * 256 ^ length (b # bs) + be_value (b # bs) = ?n * 256 ^ length bs + be_value bs"
    by (simp add: be_value_Cons algebra_simps)
  also have "\<dots> = (36 * (?n div 36) + ?n mod 36) * 256 ^ length bs + be_value bs"
    by (simp only: mult_div_mod_eq)
  also have "\<dots> = 36 * (?n div 36 * 256 ^ length bs) + (?n mod 36 * 256 ^ length bs + be_value bs)"
    by (simp only: distrib_right mult.assoc add.assoc)
  also have "\<dots> = 36 * be_value q + unat r'"
    using IH(1,3) by (simp add: q0(2) be_value_Cons base36_acc [OF "2.prems"(1)])
  finally show ?case
    using IH(1,2) q0(2) by simp
qed simp

text \<open>
  The outer loop of \<open>base36\<close>. The list is \<open>scratch[start..]\<close>: advancing \<open>start\<close> over zero bytes
  drops them. Digits come out least significant first.
\<close>

function base36_loop :: "8 word list \<Rightarrow> string" where
  "base36_loop bs =
     (if bs = [] then []
      else let (q, r) = base36_pass 0 bs
           in ALPHABET ! unat r # base36_loop (dropWhile (\<lambda>b. b = 0) q))"
  by pat_completeness auto

termination
proof (relation "measure (\<lambda>bs. if bs = [] then 0 else Suc (be_value bs))", goal_cases)
  case (2 bs x q r)
  then have "be_value bs = 36 * be_value q + unat r"
    using base36_pass_divides [of 0 bs q r] by simp
  then have "be_value q < be_value bs \<or> be_value q = 0"
    by (cases "be_value q = 0") simp_all
  moreover have "dropWhile (\<lambda>b. b = 0) q = []" if "be_value q = 0"
    using that by (simp add: be_value_eq_0)
  ultimately show ?case
    using 2(1) by auto
qed simp

declare base36_loop.simps [simp del]

definition base36 :: "8 word list \<Rightarrow> string" where
  "base36 bs = (let digits = base36_loop bs in rev (if digits = [] then ''0'' else digits))"

definition force_top_bit :: "8 word list \<Rightarrow> 8 word list" where
  "force_top_bit bs = bs[0 := bs ! 0 OR 0x80]"

definition id_generate :: "8 word list \<Rightarrow> id" where
  "id_generate bs = take ID_LENGTH (base36 (force_top_bit bs))"

definition is_ascii_lowercase :: "char \<Rightarrow> bool" where
  "is_ascii_lowercase c \<longleftrightarrow> 97 \<le> byte c \<and> byte c \<le> 122"

definition is_valid_id :: "string \<Rightarrow> bool" where
  "is_valid_id s \<longleftrightarrow> length s = ID_LENGTH \<and>
     list_all (\<lambda>b. is_ascii_digit b \<or> is_ascii_lowercase b) s"

datatype invalid_id = InvalidId string

definition id_from_str :: "string \<Rightarrow> (invalid_id, id) result" where
  "id_from_str s = (if is_valid_id s then Inr s else Inl (InvalidId s))"

definition matches_prefix :: "id \<Rightarrow> string \<Rightarrow> bool" where
  "matches_prefix i p \<longleftrightarrow> p \<noteq> [] \<and> prefix p i"

section \<open>Names\<close>

definition MAX_SERVICE_NAME_LEN :: nat where
  "MAX_SERVICE_NAME_LEN = 63"

definition MAX_SECRET_NAME_LEN :: nat where
  "MAX_SECRET_NAME_LEN = 64"

text \<open>\<open>InvalidName\<close> carries the rejected name and the rule; the two rules are told apart by name.\<close>

datatype name_rule = SERVICE_NAME_RULE | SECRET_NAME_RULE

datatype invalid_name = InvalidName string name_rule

definition name_interior :: "bool \<Rightarrow> char \<Rightarrow> bool" where
  "name_interior allow_dot b \<longleftrightarrow> is_ascii_alphanumeric b \<or> b = CHR ''-'' \<or> b = CHR ''_'' \<or>
     allow_dot \<and> b = CHR ''.''"

definition validate_name :: "string \<Rightarrow> nat \<Rightarrow> bool \<Rightarrow> name_rule \<Rightarrow> (invalid_name, unit) result" where
  "validate_name nm max_len allow_dot rule =
     (if (case nm of
            [] \<Rightarrow> False
          | _ \<Rightarrow> length nm \<le> max_len \<and> is_ascii_alphanumeric (hd nm) \<and>
                 is_ascii_alphanumeric (last nm) \<and> list_all (name_interior allow_dot) nm)
      then Inr () else Inl (InvalidName nm rule))"

definition validate_service_name :: "string \<Rightarrow> (invalid_name, unit) result" where
  "validate_service_name nm = validate_name nm MAX_SERVICE_NAME_LEN False SERVICE_NAME_RULE"

definition validate_network_name :: "string \<Rightarrow> (invalid_name, unit) result" where
  "validate_network_name nm = validate_name nm MAX_SERVICE_NAME_LEN False SERVICE_NAME_RULE"

definition validate_secret_name :: "string \<Rightarrow> (invalid_name, unit) result" where
  "validate_secret_name nm = validate_name nm MAX_SECRET_NAME_LEN True SECRET_NAME_RULE"

definition validate_config_name :: "string \<Rightarrow> (invalid_name, unit) result" where
  "validate_config_name nm = validate_name nm MAX_SECRET_NAME_LEN True SECRET_NAME_RULE"

definition task_name :: "string \<Rightarrow> string \<Rightarrow> id \<Rightarrow> string" where
  "task_name service_name slot tid = service_name @ ''.'' @ slot @ ''.'' @ tid"

end
