(* ===== verification/Orch_Task.thy ===== *)
theory Orch_Task
  imports Cluster_Store Core_Naming
begin

text \<open>
  \<open>satl-orchestrator/src/task.rs\<close>: creating tasks, raising desired states, grouping the tasks of a
  service by slot or node, and deciding which slots to fill or to give up. A generated id and a
  reading of the clock are arguments.
\<close>

section \<open>Creating tasks\<close>

definition AUTOSTART_LABEL :: string where
  "AUTOSTART_LABEL = ''satl.autostart''"

definition initial_desired_state :: "service_spec \<Rightarrow> desired_state" where
  "initial_desired_state spec =
     (case map_of (ann_labels (sspec_annotations spec)) AUTOSTART_LABEL of
        Some v \<Rightarrow> if eq_ignore_ascii_case v ''false'' then desired_state.Ready else desired_state.Running
      | None \<Rightarrow> desired_state.Running)"

definition GLOBAL_SLOT :: nat where
  "GLOBAL_SLOT = 0"

definition build_task :: "id \<Rightarrow> system_time \<Rightarrow> service \<Rightarrow> nat \<Rightarrow> id option \<Rightarrow> task" where
  "build_task tid now svc sl nid =
     (let key = (case nid of None \<Rightarrow> show_nat sl | Some n \<Rightarrow> n);
          name = task_name (ann_name (sspec_annotations (service_spec svc))) key tid
      in \<lparr>task_id = tid, task_meta = new_meta now, task_spec = sspec_task (service_spec svc),
          task_spec_version = Some (service_spec_version svc),
          task_service_id = Some (service_id svc), task_slot = sl, task_node_id = nid,
          task_annotations = \<lparr>ann_name = name, ann_labels = []\<rparr>,
          task_service_annotations = sspec_annotations (service_spec svc),
          task_status = new_task_status now task_state.New ''created'',
          task_desired_state = initial_desired_state (service_spec svc),
          task_networks = [],
          task_endpoint = (case service_endpoint svc of
              Some e \<Rightarrow> Some e
            | None \<Rightarrow> map_option (\<lambda>spec. \<lparr>endpoint_spec = spec, endpoint_ports = []\<rparr>)
                (sspec_endpoint (service_spec svc))),
          job_iteration = None\<rparr>)"

definition new_task :: "id \<Rightarrow> system_time \<Rightarrow> service \<Rightarrow> nat \<Rightarrow> task" where
  "new_task tid now svc sl = build_task tid now svc sl None"

definition new_global_task :: "id \<Rightarrow> system_time \<Rightarrow> service \<Rightarrow> id \<Rightarrow> task" where
  "new_global_task tid now svc nid = build_task tid now svc GLOBAL_SLOT (Some nid)"

definition is_global_task :: "task \<Rightarrow> bool" where
  "is_global_task t \<longleftrightarrow> task_slot t = GLOBAL_SLOT"

record slot_tuple =
  st_service_id :: id
  st_slot :: nat
  st_node_id :: "id option"

definition slot_tuple_of :: "task \<Rightarrow> slot_tuple option" where
  "slot_tuple_of t = map_option (\<lambda>svc. \<lparr>st_service_id = svc, st_slot = task_slot t,
       st_node_id = (if is_global_task t then task_node_id t else None)\<rparr>) (task_service_id t)"

section \<open>Changing tasks\<close>

definition touch_task :: "system_time \<Rightarrow> task \<Rightarrow> task" where
  "touch_task now t = t\<lparr>task_meta := (task_meta t)\<lparr>updated_at := now\<rparr>\<rparr>"

definition update_task :: "system_time \<Rightarrow> task \<Rightarrow> (task \<Rightarrow> task) \<Rightarrow> store_action" where
  "update_task now t mutate = Update (store_object.Task (touch_task now (mutate t)))"

definition raise_desired_state :: "system_time \<Rightarrow> task \<Rightarrow> desired_state \<Rightarrow> store_action option" where
  "raise_desired_state now t d =
     (if task_desired_state t \<ge> d then None
      else Some (update_task now t (\<lambda>t. t\<lparr>task_desired_state := d\<rparr>)))"

definition is_removing :: "task \<Rightarrow> bool" where
  "is_removing t \<longleftrightarrow> task_desired_state t = desired_state.Remove"

definition task_timestamp :: "task \<Rightarrow> system_time" where
  "task_timestamp t = (case applied_at (task_status t) of
       Some a \<Rightarrow> a | None \<Rightarrow> status_timestamp (task_status t))"

section \<open>Slots\<close>

text \<open>\<open>entry(k).or_default().push(v)\<close> on a map of vectors.\<close>

definition bt_push :: "'k::linorder \<Rightarrow> 'v \<Rightarrow> ('k, 'v list) btree_map \<Rightarrow> ('k, 'v list) btree_map" where
  "bt_push k v m = bt_insert k ((case map_of m k of None \<Rightarrow> [] | Some vs \<Rightarrow> vs) @ [v]) m"

definition group_by_slot :: "task list \<Rightarrow> (nat, task list) btree_map" where
  "group_by_slot ts =
     fold (\<lambda>t. bt_push (task_slot t) t) (filter (\<lambda>t. \<not> is_removing t) ts) []"

definition group_by_node :: "task list \<Rightarrow> (id, task list) btree_map" where
  "group_by_node ts =
     fold (\<lambda>t m. case task_node_id t of None \<Rightarrow> m | Some n \<Rightarrow> bt_push n t m)
       (filter (\<lambda>t. \<not> is_removing t) ts) []"

datatype slot_state = Runnable | Held | Empty

definition is_runnable :: "task \<Rightarrow> bool" where
  "is_runnable t \<longleftrightarrow> \<not> is_removing t \<and> task_desired_state t \<le> desired_state.Running \<and>
     \<not> is_terminal (status_state (task_status t))"

definition classify_slot :: "task list \<Rightarrow> slot_state" where
  "classify_slot ts =
     (if list_all is_removing ts then Empty
      else if list_ex is_runnable ts then Runnable else Held)"

text \<open>A \<open>BTreeSet\<close> is its sorted list of elements.\<close>

definition occupied_slots :: "(nat, task list) btree_map \<Rightarrow> nat list" where
  "occupied_slots slots = map fst (filter (\<lambda>(_, ts). classify_slot ts \<noteq> Empty) slots)"

text \<open>
  \<open>(1..).filter(..).take(count)\<close>: the iterator, from \<open>slot\<close> on. It ends because only finitely many
  numbers are occupied.
\<close>

function free_from :: "nat list \<Rightarrow> nat \<Rightarrow> nat \<Rightarrow> nat list" where
  "free_from occ slot n =
     (if n = 0 then []
      else if slot \<in> set occ then free_from occ (Suc slot) n
      else slot # free_from occ (Suc slot) (n - 1))"
  by pat_completeness auto

termination
proof (relation "measure (\<lambda>(occ, slot, n). n + card {s \<in> set occ. slot \<le> s})", goal_cases)
  case (2 occ slot n)
  have "{s \<in> set occ. slot \<le> s} = insert slot {s \<in> set occ. Suc slot \<le> s}"
    using 2(2) by (auto simp: Suc_le_eq)
  then have "card {s \<in> set occ. Suc slot \<le> s} < card {s \<in> set occ. slot \<le> s}"
    by simp
  then show ?case by simp
next
  case (3 occ slot n)
  have "card {s \<in> set occ. Suc slot \<le> s} \<le> card {s \<in> set occ. slot \<le> s}"
    by (rule card_mono) auto
  with 3(1) show ?case by simp
qed simp

declare free_from.simps [simp del]

definition free_slots :: "nat list \<Rightarrow> nat \<Rightarrow> nat \<Rightarrow> nat list" where
  "free_slots occ cnt limit = free_from occ 1 (min cnt limit)"

record slot_rank =
  rank_slot :: nat
  rank_running :: bool
  rank_node :: "id option"
  rank_copy :: nat

definition is_serving :: "task \<Rightarrow> bool" where
  "is_serving t \<longleftrightarrow> \<not> is_removing t \<and> task_desired_state t \<le> desired_state.Running \<and>
     status_state (task_status t) = task_state.Running"

text \<open>\<open>find_map\<close> over a slot's tasks: the first node id.\<close>

fun first_node :: "task list \<Rightarrow> id option" where
  "first_node [] = None"
| "first_node (t # ts) = (case task_node_id t of Some n \<Rightarrow> Some n | None \<Rightarrow> first_node ts)"

definition slot_rank_of :: "(nat, task list) btree_map \<Rightarrow> nat \<Rightarrow> slot_rank" where
  "slot_rank_of slots s =
     \<lparr>rank_slot = s,
      rank_running = (case map_of slots s of None \<Rightarrow> False | Some ts \<Rightarrow> list_ex is_serving ts),
      rank_node = (case map_of slots s of None \<Rightarrow> None | Some ts \<Rightarrow> first_node ts),
      rank_copy = 0\<rparr>"

fun number_copies :: "(id option, nat) btree_map \<Rightarrow> slot_rank list \<Rightarrow> slot_rank list" where
  "number_copies copies [] = []"
| "number_copies copies (c # cs) =
     (let n = (case map_of copies (rank_node c) of None \<Rightarrow> 0 | Some n \<Rightarrow> n)
      in c\<lparr>rank_copy := n\<rparr> # number_copies (bt_insert (rank_node c) (Suc n) copies) cs)"

definition compare_ranks :: "slot_rank \<Rightarrow> slot_rank \<Rightarrow> ordering" where
  "compare_ranks a b =
     then_with (reverse_ordering (cmp (rank_running a) (rank_running b)))
       (then_with (cmp (rank_copy a) (rank_copy b)) (cmp (rank_slot a) (rank_slot b)))"

definition slots_to_remove :: "(nat, task list) btree_map \<Rightarrow> nat list \<Rightarrow> nat \<Rightarrow> nat list" where
  "slots_to_remove slots occ n =
     (let candidates = number_copies [] (map (slot_rank_of slots) (filter (\<lambda>s. s \<noteq> 0) occ));
          sorted = sort_by compare_ranks candidates
      in sort (filter (\<lambda>s. s = 0) occ @ map rank_slot (drop n sorted)))"

end
