(* ===== verification/Sched_Loop.thy ===== *)
theory Sched_Loop
  imports Sched_Placement Orch_Propose Orch_Task "HOL-Library.State_Monad"
begin

text \<open>
  \<open>satl-sched/src/scheduler.rs\<close>: the scheduler loop. It keeps a mirror of the store, batches what
  is waiting for a node, places it and proposes one task update per decision. The handlers run in
  the state monad over the mirror and a world; reading the store, proposing and reading the
  clocks are operations on the world, which may move on at each of them in any way.
\<close>

section \<open>The mirror and the world\<close>

definition ASSIGNED_MESSAGE :: string where
  "ASSIGNED_MESSAGE = ''scheduler assigned task to node''"

definition PREASSIGNED_MESSAGE :: string where
  "PREASSIGNED_MESSAGE = ''scheduler confirmed task can run on preassigned node''"

definition OUTDATED_MESSAGE :: string where
  "OUTDATED_MESSAGE = ''scheduler shut down a task of an outdated service revision''"

datatype unschedulable = Forget | Shutdown | Retry

record scheduler_loop =
  sl_debounce :: nat
  sl_max_debounce :: nat
  sl_nodes :: "(id, node_info) btree_map"
  sl_all_tasks :: "(id, task) btree_map"
  sl_queue :: "(id, task) btree_map"
  sl_pending_preassigned :: "(id, task) btree_map"
  sl_preassigned :: "id set"
  sl_due :: "nat option"
  sl_limit :: "nat option"

definition new_scheduler_loop :: "nat \<Rightarrow> nat \<Rightarrow> scheduler_loop" where
  "new_scheduler_loop debounce max_debounce = \<lparr>sl_debounce = debounce, sl_max_debounce = max_debounce,
     sl_nodes = [], sl_all_tasks = [], sl_queue = [], sl_pending_preassigned = [], sl_preassigned = {},
     sl_due = None, sl_limit = None\<rparr>"

record ('w, 'lid, 'mem, 'e) sched_env =
  env_view :: "'w \<Rightarrow> ('lid, 'mem) store_inner \<times> 'w"
  env_client_write :: "store_action list \<Rightarrow> 'w \<Rightarrow> ('e client_write_error, proposal_response) result \<times> 'w"
  env_now :: "'w \<Rightarrow> system_time \<times> 'w"
  env_instant :: "'w \<Rightarrow> nat \<times> 'w"

type_synonym ('w, 'a) sched = "(scheduler_loop \<times> 'w, 'a) state"

definition the_loop :: "('w, scheduler_loop) sched" where
  "the_loop = State (\<lambda>(sl, w). (sl, (sl, w)))"

definition change :: "(scheduler_loop \<Rightarrow> scheduler_loop) \<Rightarrow> ('w, unit) sched" where
  "change f = State (\<lambda>(sl, w). ((), (f sl, w)))"

definition outside :: "('w \<Rightarrow> 'a \<times> 'w) \<Rightarrow> ('w, 'a) sched" where
  "outside f = State (\<lambda>(sl, w). let (a, w') = f w in (a, (sl, w')))"

definition store_propose ::
  "('w, 'lid, 'mem, 'e) sched_env \<Rightarrow> store_action list \<Rightarrow> ('w, ('e propose_error, version) result) sched" where
  "store_propose env acts = do {
     r \<leftarrow> outside (env_client_write env acts);
     State_Monad.return (propose (\<lambda>_. r) acts)
   }"

fun for_each :: "('a \<Rightarrow> ('w, unit) sched) \<Rightarrow> 'a list \<Rightarrow> ('w, unit) sched" where
  "for_each f [] = State_Monad.return ()"
| "for_each f (x # xs) = do { f x; for_each f xs }"

section \<open>Keeping the mirror\<close>

definition on_node :: "(node_info \<Rightarrow> node_info) \<Rightarrow> id option \<Rightarrow> scheduler_loop \<Rightarrow> scheduler_loop" where
  "on_node f i sl = (case Option.bind i (map_of (sl_nodes sl)) of
       None \<Rightarrow> sl
     | Some info \<Rightarrow> sl\<lparr>sl_nodes := bt_insert (the i) (f info) (sl_nodes sl)\<rparr>)"

definition count_on_node :: "task \<Rightarrow> scheduler_loop \<Rightarrow> scheduler_loop" where
  "count_on_node t sl = on_node (\<lambda>info. snd (add_task t info)) (task_node_id t) sl"

definition forget_task :: "id \<Rightarrow> scheduler_loop \<Rightarrow> scheduler_loop" where
  "forget_task i sl =
     (let sl1 = sl\<lparr>sl_queue := bt_remove i (sl_queue sl),
            sl_pending_preassigned := bt_remove i (sl_pending_preassigned sl),
            sl_preassigned := sl_preassigned sl - {i}\<rparr>
      in case map_of (sl_all_tasks sl1) i of
           None \<Rightarrow> sl1
         | Some t \<Rightarrow> on_node (\<lambda>info. snd (remove_task i info)) (task_node_id t)
                       (sl1\<lparr>sl_all_tasks := bt_remove i (sl_all_tasks sl1)\<rparr>))"

definition arm :: "('w, 'lid, 'mem, 'e) sched_env \<Rightarrow> ('w, unit) sched" where
  "arm env = do {
     sl \<leftarrow> the_loop;
     if sl_queue sl = [] \<and> sl_pending_preassigned sl = [] then State_Monad.return ()
     else do {
       now \<leftarrow> outside (env_instant env);
       let limit = (case sl_limit sl of None \<Rightarrow> now + sl_max_debounce sl | Some l \<Rightarrow> l);
       change (\<lambda>sl. sl\<lparr>sl_limit := Some limit, sl_due := Some (min (now + sl_debounce sl) limit)\<rparr>)
     }
   }"

definition rebuild_node ::
  "system_time \<Rightarrow> node \<Rightarrow> (id, (task_group, system_time list) btree_map) btree_map \<times> (id, node_info) btree_map \<Rightarrow>
   (id, (task_group, system_time list) btree_map) btree_map \<times> (id, node_info) btree_map" where
  "rebuild_node now n acc = (case acc of (failures, nodes) \<Rightarrow>
     (case map_of failures (node_id n) of
        Some kept \<Rightarrow> (bt_remove (node_id n) failures,
          bt_insert (node_id n) ((new_node_info n now)\<lparr>ni_failures := kept\<rparr>) nodes)
      | None \<Rightarrow> (failures, bt_insert (node_id n) (new_node_info n now) nodes)))"

definition intake :: "task \<Rightarrow> scheduler_loop \<Rightarrow> scheduler_loop" where
  "intake t sl =
     (if \<not> is_tracked t \<or> is_abandoned t then sl
      else let sl1 = sl\<lparr>sl_all_tasks := bt_insert (task_id t) t (sl_all_tasks sl)\<rparr>
           in if task_node_id t = None then sl1\<lparr>sl_queue := bt_insert (task_id t) t (sl_queue sl1)\<rparr>
              else if status_state (task_status t) = task_state.Pending then
                sl1\<lparr>sl_preassigned := insert (task_id t) (sl_preassigned sl1),
                   sl_pending_preassigned := bt_insert (task_id t) t (sl_pending_preassigned sl1)\<rparr>
              else count_on_node t sl1)"

definition rebuild ::
  "system_time \<Rightarrow> ('lid, 'mem) store_inner \<Rightarrow> scheduler_loop \<Rightarrow> scheduler_loop" where
  "rebuild now view sl =
     (let failures = map (\<lambda>(i, info). (i, ni_failures info)) (sl_nodes sl);
          (_, nodes) = fold (rebuild_node now) (view_nodes view) (failures, [])
      in fold intake (view_tasks view)
           (sl\<lparr>sl_nodes := nodes, sl_all_tasks := [], sl_queue := [], sl_pending_preassigned := [],
              sl_preassigned := {}\<rparr>))"

definition resync :: "('w, 'lid, 'mem, 'e) sched_env \<Rightarrow> ('w, unit) sched" where
  "resync env = do {
     now \<leftarrow> outside (env_now env);
     view \<leftarrow> outside (env_view env);
     change (rebuild now view)
   }"

definition create_or_update_node :: "system_time \<Rightarrow> node \<Rightarrow> scheduler_loop \<Rightarrow> scheduler_loop" where
  "create_or_update_node now n sl = (case map_of (sl_nodes sl) (node_id n) of
       Some info \<Rightarrow> sl\<lparr>sl_nodes := bt_insert (node_id n) (set_node n info) (sl_nodes sl)\<rparr>
     | None \<Rightarrow>
         (let info = fold (\<lambda>t info. if task_node_id t = Some (node_id n) \<and>
                task_state.Pending < status_state (task_status t) then snd (add_task t info) else info)
              (values_of (sl_all_tasks sl)) (new_node_info n now)
          in sl\<lparr>sl_nodes := bt_insert (node_id n) info (sl_nodes sl)\<rparr>))"

definition record_task_failure :: "system_time \<Rightarrow> task \<Rightarrow> scheduler_loop \<Rightarrow> scheduler_loop" where
  "record_task_failure now t sl =
     (if status_state (task_status t) \<notin> {task_state.Failed, task_state.Rejected} \<or>
         task_id t \<in> sl_preassigned sl then sl
      else on_node (record_failure (group_of t) now) (task_node_id t) sl)"

definition sched_update_task :: "system_time \<Rightarrow> task \<Rightarrow> scheduler_loop \<Rightarrow> scheduler_loop" where
  "sched_update_task now t sl =
     (if status_state (task_status t) < task_state.Pending then sl
      else if task_state.Running < status_state (task_status t) then
        (case map_of (sl_all_tasks sl) (task_id t) of
           None \<Rightarrow> sl
         | Some old \<Rightarrow> forget_task (task_id t)
             (if status_state (task_status old) \<noteq> status_state (task_status t)
              then record_task_failure now t sl else sl))
      else if task_node_id t = None then
        (let sl1 = forget_task (task_id t) sl
         in sl1\<lparr>sl_all_tasks := bt_insert (task_id t) t (sl_all_tasks sl1),
               sl_queue := bt_insert (task_id t) t (sl_queue sl1)\<rparr>)
      else if status_state (task_status t) = task_state.Pending then
        (let sl1 = forget_task (task_id t) sl
         in sl1\<lparr>sl_preassigned := insert (task_id t) (sl_preassigned sl1),
               sl_all_tasks := bt_insert (task_id t) t (sl_all_tasks sl1),
               sl_pending_preassigned := bt_insert (task_id t) t (sl_pending_preassigned sl1)\<rparr>)
      else count_on_node t
             (sl\<lparr>sl_queue := bt_remove (task_id t) (sl_queue sl),
                sl_pending_preassigned := bt_remove (task_id t) (sl_pending_preassigned sl),
                sl_all_tasks := bt_insert (task_id t) t (sl_all_tasks sl)\<rparr>))"

definition observe_stored :: "('w, 'lid, 'mem, 'e) sched_env \<Rightarrow> store_object \<Rightarrow> ('w, unit) sched" where
  "observe_stored env obj = (case obj of
       store_object.Node n \<Rightarrow> do { now \<leftarrow> outside (env_now env); change (create_or_update_node now n) }
     | store_object.Task t \<Rightarrow> do { now \<leftarrow> outside (env_now env); change (sched_update_task now t) }
     | _ \<Rightarrow> State_Monad.return ())"

definition sched_observe :: "('w, 'lid, 'mem, 'e) sched_env \<Rightarrow> store_event \<Rightarrow> ('w, unit) sched" where
  "sched_observe env ev = (case ev of
       Created obj \<Rightarrow> observe_stored env obj
     | Updated _ obj \<Rightarrow> observe_stored env obj
     | store_event.Removed k i \<Rightarrow> (case k of
         object_kind.Node \<Rightarrow> change (\<lambda>sl. sl\<lparr>sl_nodes := bt_remove i (sl_nodes sl)\<rparr>)
       | object_kind.Task \<Rightarrow> change (forget_task i)
       | _ \<Rightarrow> State_Monad.return ())
     | Commit _ \<Rightarrow> arm env)"

section \<open>Putting a task back\<close>

definition requeue_object :: "('w, 'lid, 'mem, 'e) sched_env \<Rightarrow> task \<Rightarrow> ('w, unit) sched" where
  "requeue_object env t = do {
     change (\<lambda>sl.
       if is_queued t then
         sl\<lparr>sl_all_tasks := bt_insert (task_id t) t (sl_all_tasks sl),
            sl_queue := bt_insert (task_id t) t (sl_queue sl)\<rparr>
       else if is_pending_preassigned t then
         sl\<lparr>sl_all_tasks := bt_insert (task_id t) t (sl_all_tasks sl),
            sl_preassigned := insert (task_id t) (sl_preassigned sl),
            sl_pending_preassigned := bt_insert (task_id t) t (sl_pending_preassigned sl)\<rparr>
       else
         sl\<lparr>sl_queue := bt_remove (task_id t) (sl_queue sl),
            sl_pending_preassigned := bt_remove (task_id t) (sl_pending_preassigned sl)\<rparr>);
     arm env
   }"

definition requeue :: "('w, 'lid, 'mem, 'e) sched_env \<Rightarrow> id \<Rightarrow> ('w, unit) sched" where
  "requeue env i = do {
     view \<leftarrow> outside (env_view env);
     case view_task view i of
       Some t \<Rightarrow> requeue_object env t
     | None \<Rightarrow> do { change (forget_task i); arm env }
   }"

definition commit :: "('w, 'lid, 'mem, 'e) sched_env \<Rightarrow> task \<Rightarrow> task \<Rightarrow> ('w, bool) sched" where
  "commit env t next = do {
     r \<leftarrow> store_propose env [Update (store_object.Task next)];
     case r of
       Inr _ \<Rightarrow> State_Monad.return True
     | Inl _ \<Rightarrow> do { requeue env (task_id t); State_Monad.return False }
   }"

definition roll_back :: "('w, 'lid, 'mem, 'e) sched_env \<Rightarrow> task \<Rightarrow> id \<Rightarrow> ('w, unit) sched" where
  "roll_back env t i = do {
     change (on_node (\<lambda>info. snd (remove_task (task_id t) info)) (Some i));
     requeue env (task_id t)
   }"

section \<open>Decisions\<close>

definition node_is_current :: "('w, 'lid, 'mem, 'e) sched_env \<Rightarrow> id \<Rightarrow> ('w, bool) sched" where
  "node_is_current env i = do {
     sl \<leftarrow> the_loop;
     case map_of (sl_nodes sl) i of
       None \<Rightarrow> State_Monad.return False
     | Some info \<Rightarrow> do {
         view \<leftarrow> outside (env_view env);
         State_Monad.return (map_option (\<lambda>n. meta_version (node_meta n)) (view_node view i) =
           Some (meta_version (node_meta (ni_node info))))
       }
   }"

definition service_verdict :: "task \<Rightarrow> service option \<Rightarrow> unschedulable" where
  "service_verdict t svc = (case svc of
       None \<Rightarrow> Forget
     | Some s \<Rightarrow>
         if (case task_spec_version t of None \<Rightarrow> False | Some v \<Rightarrow> v < meta_version (service_meta s)) \<and>
            status_state (task_status t) = task_state.Pending \<and>
            desired_state.Shutdown \<le> task_desired_state t
         then unschedulable.Shutdown else unschedulable.Retry)"

definition sched_verdict :: "('w, 'lid, 'mem, 'e) sched_env \<Rightarrow> task \<Rightarrow> ('w, unschedulable) sched" where
  "sched_verdict env t = (case task_service_id t of
       None \<Rightarrow> State_Monad.return unschedulable.Retry
     | Some sid \<Rightarrow> do {
         view \<leftarrow> outside (env_view env);
         State_Monad.return (service_verdict t (view_service view sid))
       })"

definition shutdown_outdated :: "('w, 'lid, 'mem, 'e) sched_env \<Rightarrow> task \<Rightarrow> ('w, unit) sched" where
  "shutdown_outdated env t = do {
     stamp \<leftarrow> outside (env_now env);
     now \<leftarrow> outside (env_now env);
     ok \<leftarrow> commit env t (t\<lparr>task_status := new_task_status stamp task_state.Shutdown OUTDATED_MESSAGE,
       task_meta := (task_meta t)\<lparr>updated_at := now\<rparr>\<rparr>);
     if ok then change (forget_task (task_id t)) else State_Monad.return ()
   }"

definition record_error :: "('w, 'lid, 'mem, 'e) sched_env \<Rightarrow> task \<Rightarrow> string \<Rightarrow> ('w, unit) sched" where
  "record_error env t message = do {
     requeue_object env t;
     if status_err (task_status t) = Some message then State_Monad.return ()
     else do {
       stamp \<leftarrow> outside (env_now env);
       now \<leftarrow> outside (env_now env);
       commit env t (t\<lparr>task_status := (task_status t)\<lparr>status_err := Some message, status_timestamp := stamp\<rparr>,
         task_meta := (task_meta t)\<lparr>updated_at := now\<rparr>\<rparr>);
       State_Monad.return ()
     }
   }"

definition abandon :: "('w, 'lid, 'mem, 'e) sched_env \<Rightarrow> task \<Rightarrow> ('w, unit) sched" where
  "abandon env t = do {
     v \<leftarrow> sched_verdict env t;
     case v of
       unschedulable.Shutdown \<Rightarrow> shutdown_outdated env t
     | _ \<Rightarrow> change (forget_task (task_id t))
   }"

definition no_suitable_node ::
  "('w, 'lid, 'mem, 'e) sched_env \<Rightarrow> string \<Rightarrow> task list \<Rightarrow> ('w, unit) sched" where
  "no_suitable_node env explanation ts = for_each (\<lambda>t. do {
       v \<leftarrow> sched_verdict env t;
       case v of
         Forget \<Rightarrow> change (forget_task (task_id t))
       | unschedulable.Shutdown \<Rightarrow> shutdown_outdated env t
       | unschedulable.Retry \<Rightarrow> record_error env t (''no suitable node ('' @ explanation @ '')'')
     }) ts"

definition confirm_preassigned :: "('w, 'lid, 'mem, 'e) sched_env \<Rightarrow> task \<Rightarrow> id \<Rightarrow> ('w, unit) sched" where
  "confirm_preassigned env t i = do {
     current \<leftarrow> node_is_current env i;
     if \<not> current then State_Monad.return ()
     else do {
       change (on_node (\<lambda>info. snd (add_task t info)) (Some i));
       stamp \<leftarrow> outside (env_now env);
       now \<leftarrow> outside (env_now env);
       ok \<leftarrow> commit env t (t\<lparr>task_status := new_task_status stamp task_state.Assigned PREASSIGNED_MESSAGE,
         task_meta := (task_meta t)\<lparr>updated_at := now\<rparr>\<rparr>);
       if ok then
         change (\<lambda>sl. sl\<lparr>sl_pending_preassigned := bt_remove (task_id t) (sl_pending_preassigned sl)\<rparr>)
       else change (on_node (\<lambda>info. snd (remove_task (task_id t) info)) (Some i))
     }
   }"

definition assign :: "('w, 'lid, 'mem, 'e) sched_env \<Rightarrow> task \<Rightarrow> id \<Rightarrow> ('w, unit) sched" where
  "assign env t i = do {
     current \<leftarrow> node_is_current env i;
     if \<not> current then roll_back env t i
     else do {
       stamp \<leftarrow> outside (env_now env);
       now \<leftarrow> outside (env_now env);
       ok \<leftarrow> commit env t (t\<lparr>task_node_id := Some i,
         task_status := new_task_status stamp task_state.Assigned ASSIGNED_MESSAGE,
         task_meta := (task_meta t)\<lparr>updated_at := now\<rparr>\<rparr>);
       if ok then State_Monad.return () else roll_back env t i
     }
   }"

section \<open>A batch\<close>

fun validate_preassigned ::
  "('w, 'lid, 'mem, 'e) sched_env \<Rightarrow> pipeline \<Rightarrow> task list \<Rightarrow> ('w, unit) sched" where
  "validate_preassigned env p [] = State_Monad.return ()"
| "validate_preassigned env p (t # ts) = (case task_node_id t of
       None \<Rightarrow> validate_preassigned env p ts
     | Some i \<Rightarrow>
         if is_abandoned t then do { abandon env t; validate_preassigned env p ts }
         else do {
           sl \<leftarrow> the_loop;
           let (fits, p') = fits_on_node (sl_nodes sl) i (pipeline_set_task p t);
           (case fits of
              None \<Rightarrow> State_Monad.return ()
            | Some True \<Rightarrow> confirm_preassigned env t i
            | Some False \<Rightarrow> record_error env t (pipeline_explain p'));
           validate_preassigned env p' ts
         })"

definition process_preassigned :: "('w, 'lid, 'mem, 'e) sched_env \<Rightarrow> ('w, unit) sched" where
  "process_preassigned env = do {
     sl \<leftarrow> the_loop;
     validate_preassigned env new_pipeline (values_of (sl_pending_preassigned sl))
   }"

definition schedule_group :: "('w, 'lid, 'mem, 'e) sched_env \<Rightarrow> task list \<Rightarrow> ('w, unit) sched" where
  "schedule_group env ts = do {
     sl \<leftarrow> the_loop;
     now \<leftarrow> outside (env_now env);
     let (assignments, leftovers, nodes, p) = place_group (sl_nodes sl) ts new_pipeline now;
     change (\<lambda>sl. sl\<lparr>sl_nodes := nodes\<rparr>);
     for_each (\<lambda>a. assign env (asg_task a) (asg_node_id a)) assignments;
     if leftovers = [] then State_Monad.return ()
     else no_suitable_node env (pipeline_explain p) leftovers
   }"

text \<open>The groups, the one-offs and the abandoned tasks of a queue.\<close>

definition sort_out ::
  "task list \<Rightarrow> (task_group, task list) btree_map \<times> task list \<times> task list" where
  "sort_out ts = fold (\<lambda>t (groups, one_offs, abandoned).
     if task_node_id t \<noteq> None then (groups, one_offs, abandoned)
     else if is_abandoned t then (groups, one_offs, abandoned @ [t])
     else if task_spec_version t \<noteq> None then (bt_push (group_of t) t groups, one_offs, abandoned)
     else (groups, one_offs @ [t], abandoned)) ts ([], [], [])"

definition sched_tick :: "('w, 'lid, 'mem, 'e) sched_env \<Rightarrow> ('w, unit) sched" where
  "sched_tick env = do {
     sl \<leftarrow> the_loop;
     change (\<lambda>sl. sl\<lparr>sl_queue := []\<rparr>);
     let (groups, one_offs, abandoned) = sort_out (values_of (sl_queue sl));
     for_each (abandon env) abandoned;
     for_each (schedule_group env) (values_of groups);
     for_each (\<lambda>t. schedule_group env [t]) one_offs
   }"

definition schedule_batch :: "('w, 'lid, 'mem, 'e) sched_env \<Rightarrow> ('w, unit) sched" where
  "schedule_batch env = do {
     change (\<lambda>sl. sl\<lparr>sl_due := None, sl_limit := None\<rparr>);
     sl \<leftarrow> the_loop;
     (if sl_pending_preassigned sl \<noteq> [] then process_preassigned env else State_Monad.return ());
     sched_tick env;
     sl \<leftarrow> the_loop;
     if \<not> (sl_queue sl = [] \<and> sl_pending_preassigned sl = []) \<and> sl_due sl = None then do {
       now \<leftarrow> outside (env_instant env);
       change (\<lambda>sl. sl\<lparr>sl_due := Some (now + sl_max_debounce sl)\<rparr>)
     }
     else State_Monad.return ()
   }"

section \<open>The loop\<close>

text \<open>The arms of the loop's \<open>select!\<close> that do not end it; the timer, the feed and its lag choose.\<close>

datatype sched_wake = Due | Received store_event | Lagged

definition sched_start :: "('w, 'lid, 'mem, 'e) sched_env \<Rightarrow> ('w, unit) sched" where
  "sched_start env = do { resync env; arm env }"

definition sched_turn :: "('w, 'lid, 'mem, 'e) sched_env \<Rightarrow> sched_wake \<Rightarrow> ('w, unit) sched" where
  "sched_turn env wake = (case wake of
       Due \<Rightarrow> schedule_batch env
     | Received ev \<Rightarrow> sched_observe env ev
     | Lagged \<Rightarrow> do { resync env; arm env })"

end
