(* ===== verification/Sched_Loop_Batch.thy ===== *)
theory Sched_Loop_Batch
  imports Sched_Loop Sched_Placement_Proofs
begin

text \<open>
  What the scheduler proposes in a batch. The world is extended by a trace of the views it was given
  and of the proposals it made; a small program logic for the state monad carries an invariant of
  mirror and trace through every handler.
\<close>

section \<open>Traces\<close>

datatype ('lid, 'mem) sched_event =
    Saw "('lid, 'mem) store_inner"
  | Proposed "store_action list"

type_synonym ('lid, 'mem) trace = "('lid, 'mem) sched_event list"

definition traced ::
  "('w, 'lid, 'mem, 'e) sched_env \<Rightarrow> ('w \<times> ('lid, 'mem) trace, 'lid, 'mem, 'e) sched_env" where
  "traced env = \<lparr>
     env_view = (\<lambda>(w, tr). let (v, w') = env_view env w in (v, (w', tr @ [Saw v]))),
     env_client_write = (\<lambda>acts (w, tr).
       let (r, w') = env_client_write env acts w in (r, (w', tr @ [Proposed acts]))),
     env_now = (\<lambda>(w, tr). let (t, w') = env_now env w in (t, (w', tr))),
     env_instant = (\<lambda>(w, tr). let (t, w') = env_instant env w in (t, (w', tr)))\<rparr>"

section \<open>Weakest preconditions\<close>

text \<open>Whatever the world does, a handler started here ends in \<open>Q\<close>, with the trace extended.\<close>

definition wp ::
  "('w \<times> ('lid, 'mem) trace, 'a) sched \<Rightarrow> ('a \<Rightarrow> scheduler_loop \<Rightarrow> ('lid, 'mem) trace \<Rightarrow> bool) \<Rightarrow>
   scheduler_loop \<Rightarrow> ('lid, 'mem) trace \<Rightarrow> bool" where
  "wp m Q sl tr \<longleftrightarrow> (\<forall>w. case run_state m (sl, (w, tr)) of
     (a, (sl', (w', tr'))) \<Rightarrow> Q a sl' tr' \<and> prefix tr tr')"

lemma wpD:
  assumes "wp m Q sl tr" "run_state m (sl, (w, tr)) = (a, (sl', (w', tr')))"
  shows "Q a sl' tr' \<and> prefix tr tr'"
  using assms(1) [unfolded wp_def, rule_format, of w] assms(2) by simp

lemma wp_return: "Q a sl tr \<Longrightarrow> wp (State_Monad.return a) Q sl tr"
  by (simp add: wp_def)

lemma wp_bind:
  assumes "wp m (\<lambda>a. wp (f a) Q) sl tr"
  shows "wp (State_Monad.bind m f) Q sl tr"
  unfolding wp_def
proof
  fix w
  obtain a sl1 w1 tr1 where m: "run_state m (sl, (w, tr)) = (a, (sl1, (w1, tr1)))"
    by (metis prod_cases4)
  obtain b sl2 w2 tr2 where f: "run_state (f a) (sl1, (w1, tr1)) = (b, (sl2, (w2, tr2)))"
    by (metis prod_cases4)
  have "wp (f a) Q sl1 tr1" "prefix tr tr1"
    using wpD [OF assms m] by blast+
  from wpD [OF this(1) f] this(2) have "Q b sl2 tr2" "prefix tr tr2"
    using prefix_order.trans by blast+
  with m f show "case run_state (State_Monad.bind m f) (sl, (w, tr)) of
      (a, (sl', (w', tr'))) \<Rightarrow> Q a sl' tr' \<and> prefix tr tr'"
    by simp
qed

lemma wp_mono:
  assumes "wp m Q sl tr" "\<And>a sl' tr'. Q a sl' tr' \<Longrightarrow> prefix tr tr' \<Longrightarrow> Q' a sl' tr'"
  shows "wp m Q' sl tr"
  unfolding wp_def
proof
  fix w
  obtain a sl1 w1 tr1 where m: "run_state m (sl, (w, tr)) = (a, (sl1, (w1, tr1)))"
    by (metis prod_cases4)
  with wpD [OF assms(1) m] assms(2) show "case run_state m (sl, (w, tr)) of
      (a, (sl', (w', tr'))) \<Rightarrow> Q' a sl' tr' \<and> prefix tr tr'"
    by simp
qed

lemma wp_change: "Q () (f sl) tr \<Longrightarrow> wp (change f) Q sl tr"
  by (simp add: wp_def change_def)

lemma wp_the_loop: "Q sl sl tr \<Longrightarrow> wp the_loop Q sl tr"
  by (simp add: wp_def the_loop_def)

lemma wp_now: "(\<And>a. Q a sl tr) \<Longrightarrow> wp (outside (env_now (traced env))) Q sl tr"
  by (simp add: wp_def outside_def traced_def split: prod.split)

lemma wp_instant: "(\<And>a. Q a sl tr) \<Longrightarrow> wp (outside (env_instant (traced env))) Q sl tr"
  by (simp add: wp_def outside_def traced_def split: prod.split)

lemma wp_view: "(\<And>v. Q v sl (tr @ [Saw v])) \<Longrightarrow> wp (outside (env_view (traced env))) Q sl tr"
  by (simp add: wp_def outside_def traced_def split: prod.split)

lemma wp_propose:
  "(\<And>r. Q r sl (tr @ [Proposed acts])) \<Longrightarrow> wp (store_propose (traced env) acts) Q sl tr"
  by (simp add: wp_def store_propose_def outside_def traced_def split: prod.split)

lemma wp_if:
  "(b \<Longrightarrow> wp m Q sl tr) \<Longrightarrow> (\<not> b \<Longrightarrow> wp m' Q sl tr) \<Longrightarrow> wp (if b then m else m') Q sl tr"
  by simp

lemma wp_for_each:
  assumes "I sl tr" "\<And>x sl tr. x \<in> set xs \<Longrightarrow> I sl tr \<Longrightarrow> wp (f x) (\<lambda>_. I) sl tr"
  shows "wp (for_each f xs) (\<lambda>_. I) sl tr"
  using assms
proof (induction xs arbitrary: sl tr)
  case (Cons x xs)
  have "wp (f x) (\<lambda>_. wp (for_each f xs) (\<lambda>_. I)) sl tr"
    using Cons by (intro wp_mono [OF Cons.prems(2) [of x]]) simp_all
  then show ?case
    by (simp add: wp_bind)
qed (simp add: wp_return)

lemmas wp_intros = wp_return wp_bind wp_change wp_the_loop wp_now wp_instant wp_view wp_propose wp_if

section \<open>Justified proposals\<close>

text \<open>
  \<open>N\<close> are the nodes of the mirror when the batch begins, \<open>K\<close> its tasks. A task is known if it is one
  of these or was read from the store since.
\<close>

definition known :: "task set \<Rightarrow> ('lid, 'mem) trace \<Rightarrow> task \<Rightarrow> bool" where
  "known K tr t \<longleftrightarrow> t \<in> K \<or> (\<exists>v i. Saw v \<in> set tr \<and> view_task v i = Some t)"

definition checked :: "(id \<Rightarrow> node option) \<Rightarrow> ('lid, 'mem) trace \<Rightarrow> id \<Rightarrow> node \<Rightarrow> bool" where
  "checked N tr i n \<longleftrightarrow> N i = Some n \<and> (\<exists>pre v m. tr = pre @ [Saw v] \<and> view_node v i = Some m \<and>
     meta_version (node_meta m) = meta_version (node_meta n))"

definition node_suits :: "task \<Rightarrow> node \<Rightarrow> bool" where
  "node_suits t n \<longleftrightarrow> accepts_new_tasks n \<and> satisfied_by (requirements_of (task_spec t)) n"

definition interchangeable :: "task \<Rightarrow> task \<Rightarrow> bool" where
  "interchangeable t u \<longleftrightarrow> t = u \<or> task_spec_version t \<noteq> None \<and> group_of t = group_of u"

inductive justified ::
  "(id \<Rightarrow> node option) \<Rightarrow> task set \<Rightarrow> ('lid, 'mem) trace \<Rightarrow> task \<Rightarrow> task \<Rightarrow> bool" for N K tr where
  binding: "is_queued t \<Longrightarrow> \<not> is_abandoned t \<Longrightarrow> known K tr sample \<Longrightarrow> interchangeable sample t \<Longrightarrow>
    checked N tr i n \<Longrightarrow> node_suits sample n \<Longrightarrow> justified N K tr t (t\<lparr>task_node_id := Some i,
      task_status := new_task_status stamp task_state.Assigned ASSIGNED_MESSAGE,
      task_meta := (task_meta t)\<lparr>updated_at := now\<rparr>\<rparr>)"
| confirming: "is_pending_preassigned t \<Longrightarrow> \<not> is_abandoned t \<Longrightarrow> task_node_id t = Some i \<Longrightarrow>
    checked N tr i n \<Longrightarrow> node_suits t n \<Longrightarrow> justified N K tr t (t\<lparr>
      task_status := new_task_status stamp task_state.Assigned PREASSIGNED_MESSAGE,
      task_meta := (task_meta t)\<lparr>updated_at := now\<rparr>\<rparr>)"
| stopping: "status_state (task_status t) = task_state.Pending \<Longrightarrow>
    desired_state.Shutdown \<le> task_desired_state t \<Longrightarrow> justified N K tr t (t\<lparr>
      task_status := new_task_status stamp task_state.Shutdown OUTDATED_MESSAGE,
      task_meta := (task_meta t)\<lparr>updated_at := now\<rparr>\<rparr>)"
| explaining: "status_err (task_status t) \<noteq> Some message \<Longrightarrow> justified N K tr t (t\<lparr>
      task_status := (task_status t)\<lparr>status_err := Some message, status_timestamp := stamp\<rparr>,
      task_meta := (task_meta t)\<lparr>updated_at := now\<rparr>\<rparr>)"

definition decided :: "(id \<Rightarrow> node option) \<Rightarrow> task set \<Rightarrow> ('lid, 'mem) trace \<Rightarrow> bool" where
  "decided N K tr \<longleftrightarrow> (\<forall>k < length tr. \<forall>acts. tr ! k = Proposed acts \<longrightarrow>
     (\<exists>t next. acts = [Update (store_object.Task next)] \<and> known K (take k tr) t \<and>
        justified N K (take k tr) t next))"

lemma decided_Saw [simp]: "decided N K (tr @ [Saw v]) \<longleftrightarrow> decided N K tr"
  by (auto simp: decided_def nth_append less_Suc_eq)

lemma decided_Proposed:
  "decided N K tr \<Longrightarrow> known K tr t \<Longrightarrow> justified N K tr t next \<Longrightarrow>
   decided N K (tr @ [Proposed [Update (store_object.Task next)]])"
  by (auto simp: decided_def nth_append less_Suc_eq)

lemma decidedD:
  assumes "decided N K (pre @ Proposed acts # post)"
  shows "\<exists>t next. acts = [Update (store_object.Task next)] \<and> known K pre t \<and> justified N K pre t next"
  using spec [OF assms [unfolded decided_def], of "length pre"] by simp

lemma known_append: "known K tr t \<Longrightarrow> known K (tr @ evs) t"
  by (auto simp: known_def)

lemma known_prefix: "known K tr t \<Longrightarrow> prefix tr tr' \<Longrightarrow> known K tr' t"
  by (auto simp: prefix_def known_append)

text \<open>
  The shape of the mirror: every node under its id and every waiting task in the queue it belongs to,
  with a property of each.
\<close>

definition tidy :: "(id \<Rightarrow> node \<Rightarrow> bool) \<Rightarrow> (task \<Rightarrow> bool) \<Rightarrow> scheduler_loop \<Rightarrow> bool" where
  "tidy P Q sl \<longleftrightarrow> nodes_keyed (sl_nodes sl) \<and>
     (\<forall>i info. map_of (sl_nodes sl) i = Some info \<longrightarrow> P i (ni_node info)) \<and>
     (\<forall>i t. (i, t) \<in> set (sl_queue sl) \<longrightarrow> is_queued t \<and> Q t) \<and>
     (\<forall>i t. (i, t) \<in> set (sl_pending_preassigned sl) \<longrightarrow> is_pending_preassigned t \<and> Q t)"

definition batch_inv ::
  "(id \<Rightarrow> node option) \<Rightarrow> task set \<Rightarrow> scheduler_loop \<Rightarrow> ('lid, 'mem) trace \<Rightarrow> bool" where
  "batch_inv N K sl tr \<longleftrightarrow> tidy (\<lambda>i n. N i = Some n) (known K tr) sl \<and> decided N K tr"

lemma bt_insert_entries: "set (bt_insert k v m) \<subseteq> insert (k, v) (set m)"
  by (induction k v m rule: bt_insert.induct) auto

lemma bt_remove_entries: "set (bt_remove k m) \<subseteq> set m"
  by (induction k m rule: bt_remove.induct) auto

lemma tidy_timers [simp]:
  "tidy P Q (sl\<lparr>sl_due := d\<rparr>) = tidy P Q sl" "tidy P Q (sl\<lparr>sl_limit := l\<rparr>) = tidy P Q sl"
  "tidy P Q (sl\<lparr>sl_preassigned := A\<rparr>) = tidy P Q sl" "tidy P Q (sl\<lparr>sl_all_tasks := B\<rparr>) = tidy P Q sl"
  by (simp_all add: tidy_def)

lemma tidy_enqueue:
  "tidy P Q sl \<Longrightarrow> is_queued t \<Longrightarrow> Q t \<Longrightarrow> tidy P Q (sl\<lparr>sl_queue := bt_insert i t (sl_queue sl)\<rparr>)"
  using bt_insert_entries [of i t "sl_queue sl"] by (auto simp: tidy_def)

lemma tidy_preassign:
  "tidy P Q sl \<Longrightarrow> is_pending_preassigned t \<Longrightarrow> Q t \<Longrightarrow>
   tidy P Q (sl\<lparr>sl_pending_preassigned := bt_insert i t (sl_pending_preassigned sl)\<rparr>)"
  using bt_insert_entries [of i t "sl_pending_preassigned sl"] by (auto simp: tidy_def)

lemma tidy_dequeue:
  "tidy P Q sl \<Longrightarrow> tidy P Q (sl\<lparr>sl_queue := bt_remove i (sl_queue sl)\<rparr>)"
  "tidy P Q sl \<Longrightarrow> tidy P Q (sl\<lparr>sl_pending_preassigned := bt_remove i (sl_pending_preassigned sl)\<rparr>)"
  "tidy P Q sl \<Longrightarrow> tidy P Q (sl\<lparr>sl_queue := []\<rparr>)"
  using bt_remove_entries [of i "sl_queue sl"] bt_remove_entries [of i "sl_pending_preassigned sl"]
  by (auto simp: tidy_def)

lemma tidy_dequeued:
  assumes "tidy P Q sl"
  shows "tidy P Q (sl\<lparr>sl_queue := bt_remove i (sl_queue sl),
    sl_pending_preassigned := bt_remove i (sl_pending_preassigned sl)\<rparr>)"
  using tidy_dequeue(2) [OF tidy_dequeue(1) [OF assms, of i], of i] by simp

lemma tidy_put_node:
  assumes "tidy P Q sl" "node_id (ni_node info) = i" "P i (ni_node info)"
  shows "tidy P Q (sl\<lparr>sl_nodes := bt_insert i info (sl_nodes sl)\<rparr>)"
  using assms by (auto simp: tidy_def nodes_keyed_def bt_insert_invar bt_lookup_insert)

lemma tidy_on_node:
  assumes "tidy P Q sl" "\<And>info. ni_node (f info) = ni_node info"
  shows "tidy P Q (on_node f i sl)"
proof (cases "Option.bind i (map_of (sl_nodes sl))")
  case (Some info)
  then obtain j where "i = Some j" "map_of (sl_nodes sl) j = Some info"
    by (auto simp: bind_eq_Some_conv)
  with assms show ?thesis
    by (auto simp: on_node_def tidy_def nodes_keyed_def bt_insert_invar bt_lookup_insert)
qed (use assms(1) in \<open>simp add: on_node_def\<close>)

lemma remove_task_node [simp]: "ni_node (snd (remove_task i info)) = ni_node info"
  by (simp add: remove_task_def decrement_active_def Let_def split: option.split)

lemma tidy_forget: "tidy P Q sl \<Longrightarrow> tidy P Q (forget_task i sl)"
  using tidy_dequeued [of P Q sl i] unfolding forget_task_def Let_def
  by (auto intro!: tidy_on_node split: option.split)

lemma tidy_mono:
  "tidy P Q sl \<Longrightarrow> (\<And>i n. P i n \<Longrightarrow> P' i n) \<Longrightarrow> (\<And>t. Q t \<Longrightarrow> Q' t) \<Longrightarrow> tidy P' Q' sl"
  by (auto simp: tidy_def)

lemma batch_inv_timers [simp]:
  "batch_inv N K (sl\<lparr>sl_due := d\<rparr>) tr = batch_inv N K sl tr"
  "batch_inv N K (sl\<lparr>sl_limit := l\<rparr>) tr = batch_inv N K sl tr"
  by (simp_all add: batch_inv_def)

lemma batch_inv_Saw: "batch_inv N K sl tr \<Longrightarrow> batch_inv N K sl (tr @ [Saw v])"
  by (auto simp: batch_inv_def intro: tidy_mono known_append)

lemma batch_inv_Proposed:
  "batch_inv N K sl tr \<Longrightarrow> known K tr t \<Longrightarrow> justified N K tr t next \<Longrightarrow>
   batch_inv N K sl (tr @ [Proposed [Update (store_object.Task next)]])"
  by (auto simp: batch_inv_def decided_Proposed intro: tidy_mono known_append)

lemma batch_inv_on_node:
  "batch_inv N K sl tr \<Longrightarrow> (\<And>info. ni_node (f info) = ni_node info) \<Longrightarrow> batch_inv N K (on_node f i sl) tr"
  by (simp add: batch_inv_def tidy_on_node)

lemma batch_inv_forget: "batch_inv N K sl tr \<Longrightarrow> batch_inv N K (forget_task i sl) tr"
  by (simp add: batch_inv_def tidy_forget)

lemma batch_inv_dequeue:
  "batch_inv N K sl tr \<Longrightarrow>
   batch_inv N K (sl\<lparr>sl_pending_preassigned := bt_remove i (sl_pending_preassigned sl)\<rparr>) tr"
  "batch_inv N K sl tr \<Longrightarrow> batch_inv N K (sl\<lparr>sl_queue := []\<rparr>) tr"
  by (simp_all add: batch_inv_def tidy_dequeue)

section \<open>The handlers keep the invariant\<close>

lemma arm_wp: "batch_inv N K sl tr \<Longrightarrow> wp (arm (traced env)) (\<lambda>_. batch_inv N K) sl tr"
  unfolding arm_def Let_def by (intro wp_intros) simp_all

lemma tidy_requeued:
  assumes "tidy P Q sl" "Q t"
  shows "is_queued t \<Longrightarrow> tidy P Q (sl\<lparr>sl_all_tasks := A, sl_queue := bt_insert i t (sl_queue sl)\<rparr>)"
    "is_pending_preassigned t \<Longrightarrow> tidy P Q (sl\<lparr>sl_all_tasks := A, sl_preassigned := B,
      sl_pending_preassigned := bt_insert i t (sl_pending_preassigned sl)\<rparr>)"
  using tidy_enqueue [of P Q "sl\<lparr>sl_all_tasks := A\<rparr>" t i]
    tidy_preassign [of P Q "sl\<lparr>sl_all_tasks := A, sl_preassigned := B\<rparr>" t i] assms by simp_all

lemma requeue_object_wp:
  assumes "batch_inv N K sl tr" "known K tr t"
  shows "wp (requeue_object (traced env) t) (\<lambda>_. batch_inv N K) sl tr"
proof -
  have tidy: "tidy (\<lambda>i n. N i = Some n) (known K tr) sl" and decided: "decided N K tr"
    using assms(1) by (simp_all add: batch_inv_def)
  note tidy_requeued [OF tidy assms(2)] tidy_dequeued [OF tidy]
  then show ?thesis
    unfolding requeue_object_def by (intro wp_bind wp_change arm_wp) (simp add: batch_inv_def decided)
qed

lemma requeue_wp:
  assumes "batch_inv N K sl tr"
  shows "wp (requeue (traced env) i) (\<lambda>_. batch_inv N K) sl tr"
  unfolding requeue_def
proof (intro wp_bind wp_view)
  fix v
  have inv: "batch_inv N K sl (tr @ [Saw v])"
    using assms by (rule batch_inv_Saw)
  show "wp (case view_task v i of Some t \<Rightarrow> requeue_object (traced env) t
      | None \<Rightarrow> do { change (forget_task i); arm (traced env) }) (\<lambda>_. batch_inv N K) sl (tr @ [Saw v])"
  proof (cases "view_task v i")
    case None
    with inv show ?thesis
      by (auto intro!: wp_bind wp_change arm_wp batch_inv_forget)
  next
    case (Some t)
    then have "known K (tr @ [Saw v]) t"
      by (auto simp: known_def)
    with Some inv show ?thesis
      by (simp add: requeue_object_wp)
  qed
qed

lemma commit_wp:
  assumes "batch_inv N K sl tr" "known K tr t" "justified N K tr t next"
  shows "wp (commit (traced env) t next) (\<lambda>_. batch_inv N K) sl tr"
  unfolding commit_def
proof (intro wp_bind wp_propose)
  fix r :: "('e propose_error, nat) result"
  have inv: "batch_inv N K sl (tr @ [Proposed [Update (store_object.Task next)]])"
    using assms by (rule batch_inv_Proposed)
  then show "wp (case r of Inl _ \<Rightarrow> do { requeue (traced env) (task_id t); State_Monad.return False }
      | Inr _ \<Rightarrow> State_Monad.return True) (\<lambda>_. batch_inv N K) sl
      (tr @ [Proposed [Update (store_object.Task next)]])"
    by (cases r) (auto intro!: wp_return wp_bind wp_mono [OF requeue_wp])
qed

lemma roll_back_wp:
  "batch_inv N K sl tr \<Longrightarrow> wp (roll_back (traced env) t i) (\<lambda>_. batch_inv N K) sl tr"
  unfolding roll_back_def by (intro wp_bind wp_change requeue_wp batch_inv_on_node) simp_all

lemma node_is_current_wp:
  assumes "batch_inv N K sl tr" "N i = Some n"
  shows "wp (node_is_current (traced env) i) (\<lambda>ok sl tr. batch_inv N K sl tr \<and> (ok \<longrightarrow> checked N tr i n)) sl tr"
proof (cases "map_of (sl_nodes sl) i")
  case None
  with assms show ?thesis
    unfolding node_is_current_def by (auto intro!: wp_bind wp_the_loop wp_return)
next
  case (Some info)
  with assms have "ni_node info = n"
    by (auto simp: batch_inv_def tidy_def)
  with Some assms show ?thesis
    unfolding node_is_current_def
    by (auto intro!: wp_bind wp_the_loop wp_return wp_view batch_inv_Saw simp: checked_def)
qed

lemma sched_verdict_wp:
  assumes "batch_inv N K sl tr"
  shows "wp (sched_verdict (traced env) t) (\<lambda>v sl tr. batch_inv N K sl tr \<and>
    (v = unschedulable.Shutdown \<longrightarrow> status_state (task_status t) = task_state.Pending \<and>
      desired_state.Shutdown \<le> task_desired_state t)) sl tr"
  using assms unfolding sched_verdict_def
  by (auto intro!: wp_bind wp_return wp_view batch_inv_Saw simp: service_verdict_def split: option.splits if_splits)

lemma shutdown_outdated_wp:
  assumes "batch_inv N K sl tr" "known K tr t" "status_state (task_status t) = task_state.Pending"
    "desired_state.Shutdown \<le> task_desired_state t"
  shows "wp (shutdown_outdated (traced env) t) (\<lambda>_. batch_inv N K) sl tr"
  unfolding shutdown_outdated_def
  using assms by (intro wp_bind wp_now wp_mono [OF commit_wp]) (auto intro!: justified.stopping wp_change wp_return batch_inv_forget)

lemma record_error_wp:
  assumes "batch_inv N K sl tr" "known K tr t"
  shows "wp (record_error (traced env) t message) (\<lambda>_. batch_inv N K) sl tr"
  unfolding record_error_def
proof (intro wp_bind wp_mono [OF requeue_object_wp [OF assms]])
  fix sl' and tr' :: "('a, 'b) trace"
  assume "batch_inv N K sl' tr'" "prefix tr tr'"
  with known_prefix [OF assms(2)]
  show "wp (if status_err (task_status t) = Some message then State_Monad.return ()
      else do {
        stamp \<leftarrow> outside (env_now (traced env));
        now \<leftarrow> outside (env_now (traced env));
        commit (traced env) t (t\<lparr>task_status := (task_status t)\<lparr>status_err := Some message, status_timestamp := stamp\<rparr>,
          task_meta := (task_meta t)\<lparr>updated_at := now\<rparr>\<rparr>);
        State_Monad.return ()
      }) (\<lambda>_. batch_inv N K) sl' tr'"
    by (auto intro!: wp_return wp_bind wp_now wp_mono [OF commit_wp] justified.explaining)
qed

lemma abandon_wp:
  assumes "batch_inv N K sl tr" "known K tr t"
  shows "wp (abandon (traced env) t) (\<lambda>_. batch_inv N K) sl tr"
  unfolding abandon_def
proof (intro wp_bind wp_mono [OF sched_verdict_wp [OF assms(1)]])
  fix v sl' and tr' :: "('a, 'b) trace"
  assume "batch_inv N K sl' tr' \<and> (v = unschedulable.Shutdown \<longrightarrow>
      status_state (task_status t) = task_state.Pending \<and> desired_state.Shutdown \<le> task_desired_state t)"
    "prefix tr tr'"
  with known_prefix [OF assms(2)]
  show "wp (case v of unschedulable.Shutdown \<Rightarrow> shutdown_outdated (traced env) t
      | _ \<Rightarrow> change (forget_task (task_id t))) (\<lambda>_. batch_inv N K) sl' tr'"
    by (cases v) (auto intro!: wp_change batch_inv_forget shutdown_outdated_wp)
qed

text \<open>With a list of known tasks, the invariant of the loop over it.\<close>

abbreviation batch_knows ::
  "(id \<Rightarrow> node option) \<Rightarrow> task set \<Rightarrow> task list \<Rightarrow> scheduler_loop \<Rightarrow> ('lid, 'mem) trace \<Rightarrow> bool" where
  "batch_knows N K ts sl tr \<equiv> batch_inv N K sl tr \<and> (\<forall>t \<in> set ts. known K tr t)"

lemma knows_kept:
  assumes "wp m (\<lambda>_. batch_inv N K) sl tr" "\<forall>t \<in> set ts. known K tr t"
  shows "wp m (\<lambda>_. batch_knows N K ts) sl tr"
  using assms by (intro wp_mono [OF assms(1)]) (auto intro: known_prefix)

lemma no_suitable_node_wp:
  assumes "batch_inv N K sl tr" "\<forall>t \<in> set ts. known K tr t"
  shows "wp (no_suitable_node (traced env) explanation ts) (\<lambda>_. batch_inv N K) sl tr"
proof -
  have "wp (no_suitable_node (traced env) explanation ts) (\<lambda>_. batch_knows N K ts) sl tr"
    unfolding no_suitable_node_def
  proof (rule wp_for_each)
    fix t sl and tr :: "('a, 'b) trace"
    assume t: "t \<in> set ts" and inv: "batch_knows N K ts sl tr"
    show "wp (do { v \<leftarrow> sched_verdict (traced env) t;
        case v of Forget \<Rightarrow> change (forget_task (task_id t))
        | unschedulable.Shutdown \<Rightarrow> shutdown_outdated (traced env) t
        | unschedulable.Retry \<Rightarrow> record_error (traced env) t (''no suitable node ('' @ explanation @ '')'') })
      (\<lambda>_. batch_knows N K ts) sl tr"
    proof (rule knows_kept)
      show "wp (do { v \<leftarrow> sched_verdict (traced env) t;
        case v of Forget \<Rightarrow> change (forget_task (task_id t))
        | unschedulable.Shutdown \<Rightarrow> shutdown_outdated (traced env) t
        | unschedulable.Retry \<Rightarrow> record_error (traced env) t (''no suitable node ('' @ explanation @ '')'') })
      (\<lambda>_. batch_inv N K) sl tr"
        using inv t by (intro wp_bind wp_mono [OF sched_verdict_wp])
          (auto intro!: wp_change batch_inv_forget shutdown_outdated_wp record_error_wp
            intro: known_prefix split: unschedulable.split)
    qed (use inv in blast)
  qed (use assms in blast)
  then show ?thesis
    by (rule wp_mono) blast
qed

lemma confirm_preassigned_wp:
  assumes "batch_inv N K sl tr" "known K tr t" "is_pending_preassigned t" "\<not> is_abandoned t"
    "task_node_id t = Some i" "N i = Some n" "node_suits t n"
  shows "wp (confirm_preassigned (traced env) t i) (\<lambda>_. batch_inv N K) sl tr"
  unfolding confirm_preassigned_def
  using assms
  by (intro wp_bind wp_mono [OF node_is_current_wp [OF assms(1,6)]] wp_if)
    (auto intro!: wp_return wp_bind wp_change wp_now wp_mono [OF commit_wp] batch_inv_on_node wp_if
      batch_inv_dequeue justified.confirming intro: known_prefix)

lemma assign_wp:
  assumes "batch_inv N K sl tr" "known K tr t" "is_queued t" "\<not> is_abandoned t" "known K tr sample"
    "interchangeable sample t" "N i = Some n" "node_suits sample n"
  shows "wp (assign (traced env) t i) (\<lambda>_. batch_inv N K) sl tr"
  unfolding assign_def
  using assms
  by (intro wp_bind wp_mono [OF node_is_current_wp [OF assms(1,7)]] wp_if)
    (auto intro!: wp_return wp_bind roll_back_wp wp_now wp_mono [OF commit_wp] wp_if
      justified.binding [where sample = sample] intro: known_prefix)

section \<open>A batch\<close>

lemma standard_fits: "standard p \<Longrightarrow> standard (snd (fits_on_node nodes i p))"
  by (auto simp: fits_on_node_def split_beta Let_def split: option.split)

lemma eligible_suits: "eligible t info \<Longrightarrow> node_suits t (ni_node info)"
  by (simp add: eligible_def node_suits_def)

lemma fits_suits:
  assumes "standard p" "fits_on_node nodes i (pipeline_set_task p t) = (Some True, p')"
  shows "\<exists>info. map_of nodes i = Some info \<and> node_suits t (ni_node info)"
  using assms passes_iff_eligible [OF assms(1), of t] eligible_suits
  by (fastforce simp: fits_on_node_def passes_def split: option.splits prod.splits)

lemma validate_preassigned_wp:
  assumes "batch_inv N K sl tr" "standard p" "\<forall>t \<in> set ts. known K tr t \<and> is_pending_preassigned t"
  shows "wp (validate_preassigned (traced env) p ts) (\<lambda>_. batch_inv N K) sl tr"
  using assms
proof (induction ts arbitrary: p sl tr)
  case Nil
  then show ?case
    by (simp add: wp_return)
next
  case (Cons t ts)
  have t: "known K tr t" "is_pending_preassigned t"
    using Cons.prems(3) by auto
  have later: "wp (validate_preassigned (traced env) p' ts) (\<lambda>_. batch_inv N K) sl' tr'"
    if "batch_inv N K sl' tr'" "prefix tr tr'" "standard p'" for p' sl' tr'
    using Cons.prems(3) that by (intro Cons.IH) (auto intro: known_prefix)
  obtain i where i: "task_node_id t = Some i"
    using t(2) by (auto simp: is_pending_preassigned_def)
  show ?case
  proof (cases "is_abandoned t")
    case True
    have "wp (abandon (traced env) t) (\<lambda>_. wp (validate_preassigned (traced env) p ts) (\<lambda>_. batch_inv N K)) sl tr"
      by (rule wp_mono [OF abandon_wp [OF Cons.prems(1) t(1)]]) (rule later [OF _ _ Cons.prems(2)])
    with True i show ?thesis
      by (simp add: wp_bind)
  next
    case False
    obtain fits p' where fits: "fits_on_node (sl_nodes sl) i (pipeline_set_task p t) = (fits, p')"
      by fastforce
    have p': "standard p'"
      using standard_fits [OF standard_set_task [OF Cons.prems(2)], of "sl_nodes sl" i t] fits by simp
    have "wp (case fits of None \<Rightarrow> State_Monad.return () | Some True \<Rightarrow> confirm_preassigned (traced env) t i
        | Some False \<Rightarrow> record_error (traced env) t (pipeline_explain p')) (\<lambda>_. batch_inv N K) sl tr"
    proof (cases "fits = Some True")
      case True
      with fits_suits [OF Cons.prems(2)] fits obtain info where
        "map_of (sl_nodes sl) i = Some info" "node_suits t (ni_node info)"
        by blast
      with True Cons.prems(1) t False i show ?thesis
        by (auto intro!: confirm_preassigned_wp simp: batch_inv_def tidy_def)
    next
      case False
      then show ?thesis
        using Cons.prems(1) t(1)
        by (auto intro!: wp_return record_error_wp split: option.split bool.split)
    qed
    then have "wp (case fits of None \<Rightarrow> State_Monad.return () | Some True \<Rightarrow> confirm_preassigned (traced env) t i
        | Some False \<Rightarrow> record_error (traced env) t (pipeline_explain p'))
        (\<lambda>_. wp (validate_preassigned (traced env) p' ts) (\<lambda>_. batch_inv N K)) sl tr"
      by (rule wp_mono) (rule later [OF _ _ p'])
    then show ?thesis
      unfolding validate_preassigned.simps i option.case if_not_P [OF False]
      by (intro wp_bind wp_the_loop) (simp add: fits wp_bind)
  qed
qed

lemma greedy_assigned:
  assumes "greedy P g now nodes scs ts asgs left nodes'" "bt_invar nodes"
  shows "set left \<subseteq> set ts \<and> (\<forall>a \<in> set asgs. asg_task a \<in> set ts \<and>
    (\<exists>info. P info \<and> map_option ni_node (map_of nodes (asg_node_id a)) = Some (ni_node info)))"
  using assms
proof (induction rule: greedy.induct)
  case (place nodes i info scs t ts asgs left nodes')
  have same: "map_option ni_node (map_of (bt_insert i (snd (add_task t info)) nodes) j) =
      map_option ni_node (map_of nodes j)" for j
    using place.hyps(1) place.prems by (simp add: bt_lookup_insert)
  with place.IH place.hyps(1,2) place.prems show ?case
    by (auto simp: bt_insert_invar)
qed auto

lemma greedy_keyed:
  assumes "greedy P g now nodes scs ts asgs left nodes'" "nodes_keyed nodes"
  shows "nodes_keyed nodes' \<and> (\<forall>i. map_option ni_node (map_of nodes' i) = map_option ni_node (map_of nodes i))"
  using assms
proof (induction rule: greedy.induct)
  case (place nodes i info scs t ts asgs left nodes')
  have same: "map_option ni_node (map_of (bt_insert i (snd (add_task t info)) nodes) j) =
      map_option ni_node (map_of nodes j)" for j
    using place.hyps(1) place.prems by (simp add: bt_lookup_insert nodes_keyed_def)
  with place.IH [OF nodes_keyed_insert [OF place.prems place.hyps(1)]] show ?case
    by simp
qed auto

lemma batch_inv_nodes:
  assumes "batch_inv N K sl tr" "nodes_keyed nodes"
    "\<And>i. map_option ni_node (map_of nodes i) = map_option ni_node (map_of (sl_nodes sl) i)"
  shows "batch_inv N K (sl\<lparr>sl_nodes := nodes\<rparr>) tr"
proof -
  have "N i = Some (ni_node info)" if "map_of nodes i = Some info" for i info
    using assms(1) assms(3) [of i] that by (cases "map_of (sl_nodes sl) i") (auto simp: batch_inv_def tidy_def)
  with assms(1,2) show ?thesis
    by (simp add: batch_inv_def tidy_def)
qed

definition placeable :: "task set \<Rightarrow> task list \<Rightarrow> ('lid, 'mem) trace \<Rightarrow> bool" where
  "placeable K ts tr \<longleftrightarrow> (\<forall>t \<in> set ts. known K tr t \<and> is_queued t \<and> \<not> is_abandoned t \<and> interchangeable (hd ts) t)"

lemma placeable_prefix: "placeable K ts tr \<Longrightarrow> prefix tr tr' \<Longrightarrow> placeable K ts tr'"
  by (auto simp: placeable_def intro: known_prefix)

lemma schedule_group_wp:
  assumes inv: "batch_inv N K sl tr" and ts: "placeable K ts tr"
  shows "wp (schedule_group (traced env) ts) (\<lambda>_. batch_inv N K) sl tr"
proof (cases ts)
  case Nil
  show ?thesis
    unfolding schedule_group_def Nil place_group_def
    by (intro wp_bind wp_the_loop wp_now, simp only: list.case prod.case Let_def if_True simp_thms for_each.simps,
        intro wp_bind wp_change wp_return) (simp add: inv)
next
  case (Cons t0 rest)
  have keyed: "nodes_keyed (sl_nodes sl)"
    using inv by (simp add: batch_inv_def tidy_def)
  have "wp (do {
      change (\<lambda>sl. sl\<lparr>sl_nodes := nodes\<rparr>);
      for_each (\<lambda>a. assign (traced env) (asg_task a) (asg_node_id a)) asgs;
      if left = [] then State_Monad.return () else no_suitable_node (traced env) (pipeline_explain p) left
    }) (\<lambda>_. batch_inv N K) sl tr"
    if place: "place_group (sl_nodes sl) ts new_pipeline now = (asgs, left, nodes, p)" for now asgs left nodes p
  proof -
    note greedy = place_group_greedy [OF keyed standard_new place [unfolded Cons]]
    have bt: "bt_invar (sl_nodes sl)"
      using keyed by (simp add: nodes_keyed_def)
    note assigned = greedy_assigned [OF greedy bt, folded Cons]
    then have left: "set left \<subseteq> set ts"
      by blast
    have asgs: "asg_task a \<in> set ts \<and> (\<exists>n. N (asg_node_id a) = Some n \<and> node_suits t0 n)"
      if a: "a \<in> set asgs" for a
    proof -
      from assigned a obtain info where info: "asg_task a \<in> set ts" "eligible t0 info"
        "map_option ni_node (map_of (sl_nodes sl) (asg_node_id a)) = Some (ni_node info)"
        by blast
      then have "N (asg_node_id a) = Some (ni_node info)"
        using inv by (auto simp: batch_inv_def tidy_def)
      with info(1) eligible_suits [OF info(2)] show ?thesis
        by blast
    qed
    have start: "batch_knows N K ts (sl\<lparr>sl_nodes := nodes\<rparr>) tr"
      using greedy_keyed [OF greedy keyed] inv ts by (auto simp: placeable_def intro!: batch_inv_nodes)
    have "wp (for_each (\<lambda>a. assign (traced env) (asg_task a) (asg_node_id a)) asgs) (\<lambda>_. batch_knows N K ts)
        (sl\<lparr>sl_nodes := nodes\<rparr>) tr"
    proof (rule wp_for_each [where I = "batch_knows N K ts"])
      show "batch_knows N K ts (sl\<lparr>sl_nodes := nodes\<rparr>) tr"
        by (rule start)
    next
      fix a sl' and tr' :: "('a, 'b) trace"
      assume a: "a \<in> set asgs" and inv': "batch_knows N K ts sl' tr'"
      obtain n where n: "N (asg_node_id a) = Some n" "node_suits t0 n" and t: "asg_task a \<in> set ts"
        using asgs [OF a] by blast
      have "t0 \<in> set ts" "hd ts = t0"
        by (simp_all add: Cons)
      with inv' n t ts show "wp (assign (traced env) (asg_task a) (asg_node_id a)) (\<lambda>_. batch_knows N K ts) sl' tr'"
        by (intro knows_kept assign_wp [where sample = t0 and n = n]) (simp_all add: placeable_def)
    qed
    then show ?thesis
      by (intro wp_bind wp_change) (rule wp_mono, assumption, use left in \<open>auto intro!: wp_return no_suitable_node_wp\<close>)
  qed
  then show ?thesis
    unfolding schedule_group_def by (intro wp_bind wp_the_loop wp_now) (simp split: prod.split)
qed

lemma bt_push_entries:
  "e \<in> set (bt_push k v m) \<Longrightarrow>
   e \<in> set m \<or> e = (k, [v]) \<or> (\<exists>old. (k, old) \<in> set m \<and> e = (k, old @ [v]))"
  using bt_insert_entries [of k "(case map_of m k of None \<Rightarrow> [] | Some vs \<Rightarrow> vs) @ [v]" m] map_of_SomeD [of m k]
  unfolding bt_push_def by (auto split: option.splits)

definition grouped :: "task set \<Rightarrow> task_group \<times> task list \<Rightarrow> bool" where
  "grouped T e \<longleftrightarrow> (case e of (g, ts) \<Rightarrow> ts \<noteq> [] \<and> (\<forall>t \<in> set ts. t \<in> T \<and> \<not> is_abandoned t \<and>
     task_spec_version t \<noteq> None \<and> group_of t = g))"

definition sorted_out ::
  "task set \<Rightarrow> (task_group, task list) btree_map \<times> task list \<times> task list \<Rightarrow> bool" where
  "sorted_out T acc \<longleftrightarrow> (case acc of (groups, one_offs, abandoned) \<Rightarrow>
     (\<forall>e \<in> set groups. grouped T e) \<and> (\<forall>t \<in> set one_offs. t \<in> T \<and> \<not> is_abandoned t) \<and> set abandoned \<subseteq> T)"

lemma grouped_push:
  assumes "\<forall>e \<in> set m. grouped T e" "t \<in> T" "\<not> is_abandoned t" "task_spec_version t \<noteq> None"
  shows "\<forall>e \<in> set (bt_push (group_of t) t m). grouped T e"
proof
  fix e
  assume e: "e \<in> set (bt_push (group_of t) t m)"
  consider "e \<in> set m" | "e = (group_of t, [t])"
    | old where "(group_of t, old) \<in> set m" "e = (group_of t, old @ [t])"
    using bt_push_entries [OF e] by blast
  then show "grouped T e"
  proof cases
    case 3
    with assms(1) have "grouped T (group_of t, old)"
      by blast
    with 3(2) assms(2-4) show ?thesis
      unfolding grouped_def prod.case by simp
  qed (use assms in \<open>simp_all add: grouped_def\<close>)
qed

lemma sort_out_sorted: "sorted_out (set ts) (sort_out ts)"
proof -
  define f where "f = (\<lambda>t (groups, one_offs, abandoned).
     if task_node_id t \<noteq> None then (groups, one_offs, abandoned)
     else if is_abandoned t then (groups, one_offs, abandoned @ [t])
     else if task_spec_version t \<noteq> None then (bt_push (group_of t) t groups, one_offs, abandoned)
     else (groups, one_offs @ [t], abandoned))"
  have step: "sorted_out T (f t acc)" if acc: "sorted_out T acc" and t: "t \<in> T" for T t acc
  proof -
    obtain groups one_offs abandoned where parts: "acc = (groups, one_offs, abandoned)"
      by (cases acc)
    have "\<forall>e \<in> set groups. grouped T e" "\<forall>t \<in> set one_offs. t \<in> T \<and> \<not> is_abandoned t" "set abandoned \<subseteq> T"
      using acc unfolding parts sorted_out_def prod.case by blast+
    with t grouped_push [OF this(1) t] show ?thesis
      unfolding parts f_def prod.case by (simp add: sorted_out_def)
  qed
  have "sorted_out T (fold f ts acc)" if "sorted_out T acc" "set ts \<subseteq> T" for T acc
    using that by (induction ts arbitrary: acc) (auto simp: step)
  moreover have "sorted_out (set ts) ([], [], [])"
    by (simp add: sorted_out_def)
  ultimately have "sorted_out (set ts) (fold f ts ([], [], []))"
    by blast
  then show ?thesis
    by (simp add: sort_out_def f_def)
qed

lemma wp_for_each_later:
  assumes "batch_inv N K sl' tr'" "prefix tr tr'"
    and step: "\<And>x sl tr'. x \<in> set xs \<Longrightarrow> prefix tr tr' \<Longrightarrow> batch_inv N K sl tr' \<Longrightarrow>
      wp (f x) (\<lambda>_. batch_inv N K) sl tr'"
  shows "wp (for_each f xs) (\<lambda>_. batch_inv N K) sl' tr'"
proof -
  let ?I = "\<lambda>sl'' tr''. batch_inv N K sl'' tr'' \<and> prefix tr tr''"
  have "wp (for_each f xs) (\<lambda>_. ?I) sl' tr'"
  proof (rule wp_for_each [where I = ?I])
    fix x sl'' tr''
    assume "x \<in> set xs" "?I sl'' tr''"
    with step have "wp (f x) (\<lambda>_. batch_inv N K) sl'' tr''" "prefix tr tr''"
      by blast+
    then show "wp (f x) (\<lambda>_. ?I) sl'' tr''"
      by (auto elim!: wp_mono intro: prefix_order.trans)
  qed (use assms in blast)
  then show ?thesis
    by (rule wp_mono) blast
qed

lemma sched_tick_wp:
  assumes inv: "batch_inv N K sl tr"
  shows "wp (sched_tick (traced env)) (\<lambda>_. batch_inv N K) sl tr"
proof -
  obtain groups one_offs abandoned where sorted: "sort_out (values_of (sl_queue sl)) = (groups, one_offs, abandoned)"
    by (metis prod_cases3)
  let ?T = "set (values_of (sl_queue sl))"
  have queued: "is_queued t" "known K tr t" if "t \<in> ?T" for t
    using that inv by (auto simp: batch_inv_def tidy_def)
  have parts: "sorted_out ?T (groups, one_offs, abandoned)"
    using sort_out_sorted [of "values_of (sl_queue sl)"] sorted by simp
  have abandoned: "\<forall>t \<in> set abandoned. known K tr t"
    using parts queued unfolding sorted_out_def prod.case by blast
  have group: "placeable K ts tr" if "ts \<in> set (values_of groups)" for ts
  proof -
    from that obtain g where "(g, ts) \<in> set groups"
      by auto
    with parts have "grouped ?T (g, ts)"
      unfolding sorted_out_def prod.case by blast
    then have "ts \<noteq> []" "\<forall>t \<in> set ts. t \<in> ?T \<and> \<not> is_abandoned t \<and> task_spec_version t \<noteq> None \<and> group_of t = g"
      unfolding grouped_def prod.case by blast+
    moreover from this have "task_spec_version (hd ts) \<noteq> None \<and> group_of (hd ts) = g"
      using hd_in_set by blast
    ultimately show ?thesis
      using queued by (simp add: placeable_def interchangeable_def)
  qed
  have single: "placeable K [t] tr" if "t \<in> set one_offs" for t
    using that parts queued unfolding sorted_out_def prod.case by (simp add: placeable_def interchangeable_def)
  show ?thesis
    unfolding sched_tick_def
  proof (intro wp_bind wp_the_loop wp_change, unfold sorted Let_def prod.case, rule wp_bind)
    have start: "batch_inv N K (sl\<lparr>sl_queue := []\<rparr>) tr"
      using inv by (rule batch_inv_dequeue(2))
    have "wp (for_each (abandon (traced env)) abandoned) (\<lambda>_. batch_inv N K) (sl\<lparr>sl_queue := []\<rparr>) tr"
      using abandoned by (intro wp_for_each_later [OF start prefix_order.refl]) (auto intro!: abandon_wp intro: known_prefix)
    then show "wp (for_each (abandon (traced env)) abandoned)
        (\<lambda>_. wp (do { for_each (schedule_group (traced env)) (values_of groups);
                      for_each (\<lambda>t. schedule_group (traced env) [t]) one_offs }) (\<lambda>_. batch_inv N K))
        (sl\<lparr>sl_queue := []\<rparr>) tr"
    proof (rule wp_mono, intro wp_bind)
      fix a sl1 tr1
      assume "batch_inv N K sl1 tr1" and tr1: "prefix tr tr1"
      then have "wp (for_each (schedule_group (traced env)) (values_of groups)) (\<lambda>_. batch_inv N K) sl1 tr1"
        by (rule wp_for_each_later) (rule schedule_group_wp, assumption, rule placeable_prefix [OF group])
      then show "wp (for_each (schedule_group (traced env)) (values_of groups))
          (\<lambda>_. wp (for_each (\<lambda>t. schedule_group (traced env) [t]) one_offs) (\<lambda>_. batch_inv N K)) sl1 tr1"
      proof (rule wp_mono)
        fix b sl2 tr2
        assume "batch_inv N K sl2 tr2" "prefix tr1 tr2"
        then have "batch_inv N K sl2 tr2" "prefix tr tr2"
          using tr1 by auto
        then show "wp (for_each (\<lambda>t. schedule_group (traced env) [t]) one_offs) (\<lambda>_. batch_inv N K) sl2 tr2"
          by (rule wp_for_each_later) (rule schedule_group_wp, assumption, rule placeable_prefix [OF single])
      qed
    qed
  qed
qed

lemma schedule_batch_wp:
  assumes "batch_inv N K sl tr"
  shows "wp (schedule_batch (traced env)) (\<lambda>_. batch_inv N K) sl tr"
proof -
  let ?sl = "sl\<lparr>sl_due := None, sl_limit := None\<rparr>"
  have inv: "batch_inv N K ?sl tr"
    using assms by simp
  have "\<forall>t \<in> set (values_of (sl_pending_preassigned ?sl)). known K tr t \<and> is_pending_preassigned t"
    using assms by (auto simp: batch_inv_def tidy_def)
  then have pre: "wp (if sl_pending_preassigned ?sl \<noteq> [] then process_preassigned (traced env)
      else State_Monad.return ()) (\<lambda>_. batch_inv N K) ?sl tr"
    unfolding process_preassigned_def
    by (intro wp_if wp_bind wp_the_loop wp_return validate_preassigned_wp [OF inv standard_new] inv)
  have last: "wp (do { sl \<leftarrow> the_loop;
      if \<not> (sl_queue sl = [] \<and> sl_pending_preassigned sl = []) \<and> sl_due sl = None then do {
        now \<leftarrow> outside (env_instant (traced env));
        change (\<lambda>sl. sl\<lparr>sl_due := Some (now + sl_max_debounce sl)\<rparr>)
      }
      else State_Monad.return () }) (\<lambda>_. batch_inv N K) sl' tr'"
    if "batch_inv N K sl' tr'" for sl' tr'
    using that by (intro wp_intros) simp_all
  show ?thesis
    unfolding schedule_batch_def
    by (intro wp_bind wp_change wp_the_loop, rule wp_mono [OF pre], rule wp_bind,
        rule wp_mono [OF sched_tick_wp], assumption, rule last)
qed

end
