(* ===== verification/Sched_Loop_Proofs.thy ===== *)
theory Sched_Loop_Proofs
  imports Sched_Loop_Batch Cluster_Store_Witnesses Sample_Objects
begin

text \<open>
  The scheduler loop against the store's history: the mirror holds objects that were in the store,
  whatever the loop is woken by, and every decision that the store accepts was taken on the task
  as it still is and on a node that was fit for it when last looked at.
\<close>

section \<open>The mirror\<close>

lemma store_run_trans: "store_run R s' s'' \<Longrightarrow> store_run R s s' \<Longrightarrow> store_run R s s''"
  by (induction rule: store_run.induct) (auto intro: store_run.step)

definition was_stored ::
  "('lid, 'mem) raft_types \<Rightarrow> ('lid, 'mem) store_inner \<Rightarrow> store_object \<Rightarrow> bool" where
  "was_stored R s obj \<longleftrightarrow> (\<exists>s0. store_reach R s0 \<and> store_run R s0 s \<and> store_map s0 (obj_key obj) = Some obj)"

lemma was_stored_later: "was_stored R s obj \<Longrightarrow> store_run R s s' \<Longrightarrow> was_stored R s' obj"
  unfolding was_stored_def using store_run_trans by blast

lemma was_stored_version:
  "was_stored R s obj \<Longrightarrow> store_map s (obj_key obj) = Some x \<Longrightarrow> object_version x = object_version obj \<Longrightarrow> x = obj"
  unfolding was_stored_def using version_identifies_object by blast

lemma stored_was_stored:
  assumes "store_reach R s" "store_map s key = Some obj"
  shows "was_stored R s obj" "obj_key obj = key"
proof -
  show key: "obj_key obj = key"
    using store_reach_invariant [OF assms(1)] assms(2)
    by (cases key) (auto simp: store_wf_def well_keyed_def store_map_def)
  show "was_stored R s obj"
    unfolding was_stored_def key using assms store_run.stay by blast
qed

lemma node_stored: "view_node s i = Some n \<longleftrightarrow> store_map s (object_kind.Node, i) = Some (store_object.Node n)"
  by (auto simp: view_node_def store_map_def get_object_def)

text \<open>The mirror holds, under their ids, objects that were in the store, in the queues they belong to.\<close>

definition mirrors ::
  "('lid, 'mem) raft_types \<Rightarrow> ('lid, 'mem) store_inner \<Rightarrow> scheduler_loop \<Rightarrow> bool" where
  "mirrors R s sl \<longleftrightarrow> tidy (\<lambda>_ n. was_stored R s (store_object.Node n)) (\<lambda>t. was_stored R s (store_object.Task t)) sl"

definition mirror_nodes :: "scheduler_loop \<Rightarrow> id \<Rightarrow> node option" where
  "mirror_nodes sl i = map_option ni_node (map_of (sl_nodes sl) i)"

definition mirror_tasks :: "scheduler_loop \<Rightarrow> task set" where
  "mirror_tasks sl = {t. \<exists>i. (i, t) \<in> set (sl_queue sl) \<or> (i, t) \<in> set (sl_pending_preassigned sl)}"

lemma mirrors_batch_inv: "mirrors R s sl \<Longrightarrow> batch_inv (mirror_nodes sl) (mirror_tasks sl) sl []"
  by (auto simp: mirrors_def tidy_def batch_inv_def mirror_nodes_def mirror_tasks_def known_def decided_def)

text \<open>What was seen and what was current lies between two points of the store's history.\<close>

definition watched ::
  "('lid, 'mem) raft_types \<Rightarrow> ('lid, 'mem) store_inner \<Rightarrow> ('lid, 'mem) store_inner \<Rightarrow> ('lid, 'mem) trace \<Rightarrow> bool" where
  "watched R s s' tr \<longleftrightarrow> store_reach R s \<and> store_run R s s' \<and>
     (\<forall>v. Saw v \<in> set tr \<longrightarrow> store_run R s v \<and> store_run R v s')"

lemma known_was_stored:
  assumes "mirrors R s sl" "watched R s s' tr" "known (mirror_tasks sl) tr t"
  shows "was_stored R s' (store_object.Task t)"
  using assms(3) unfolding known_def
proof
  assume "t \<in> mirror_tasks sl"
  with assms(1) have "was_stored R s (store_object.Task t)"
    by (auto simp: mirrors_def tidy_def mirror_tasks_def)
  with assms(2) show ?thesis
    by (auto simp: watched_def intro: was_stored_later)
next
  assume "\<exists>v i. Saw v \<in> set tr \<and> view_task v i = Some t"
  then obtain v i where v: "Saw v \<in> set tr" "view_task v i = Some t"
    by blast
  with assms(2) have run: "store_run R s v" "store_run R v s'" "store_reach R s"
    by (auto simp: watched_def)
  have "was_stored R v (store_object.Task t)"
    using stored_was_stored(1) [OF store_run_trans [OF run(1,3)]] v(2) by (simp add: task_stored)
  with run(2) show ?thesis
    by (rule was_stored_later [rotated])
qed

lemma checked_current:
  assumes "mirrors R s sl" "watched R s s' tr" "checked (mirror_nodes sl) tr i n"
  shows "\<exists>v. Saw v \<in> set tr \<and> view_node v i = Some n"
proof -
  obtain info where info: "map_of (sl_nodes sl) i = Some info" "n = ni_node info"
    using assms(3) by (auto simp: checked_def mirror_nodes_def)
  obtain pre v m where "tr = pre @ [Saw v]" and v: "view_node v i = Some m"
      "meta_version (node_meta m) = meta_version (node_meta n)"
    using assms(3) by (auto simp: checked_def)
  then have saw: "Saw v \<in> set tr"
    by simp
  have key: "obj_key (store_object.Node n) = (object_kind.Node, i)"
    using assms(1) info by (auto simp: mirrors_def tidy_def nodes_keyed_def obj_kind_def obj_id_def)
  have "was_stored R s (store_object.Node n)" "store_run R s v"
    using assms(1,2) info saw by (auto simp: mirrors_def tidy_def watched_def)
  then have "was_stored R v (store_object.Node n)"
    by (rule was_stored_later)
  then have "store_object.Node m = store_object.Node n"
    using v by (intro was_stored_version [of R v]) (simp_all only: key node_stored [symmetric], simp add: object_version_def)
  with saw v(1) show ?thesis
    by auto
qed

section \<open>Keeping the mirror\<close>

text \<open>The bookkeeping operations on the mirror keep its shape; the first four keep the node.\<close>

lemma kept_node [simp]:
  "ni_node (set_node n info) = n" "ni_node (new_node_info n now) = n"
  "ni_node (record_failure g now info) = ni_node info"
  by (simp_all add: set_node_def new_node_info_def record_failure_def cleanup_failures_def Let_def)

lemma tidy_count: "tidy P Q sl \<Longrightarrow> tidy P Q (count_on_node t sl)"
  by (simp add: count_on_node_def tidy_on_node)

lemma tidy_failure: "tidy P Q sl \<Longrightarrow> tidy P Q (record_task_failure now t sl)"
  by (simp add: record_task_failure_def tidy_on_node)

lemma tidy_node:
  assumes "tidy P Q sl" "P (node_id n) n"
  shows "tidy P Q (create_or_update_node now n sl)"
proof -
  have "ni_node (fold (\<lambda>t info. if b t then snd (add_task t info) else info) ts info) = ni_node info" for b ts info
    by (induction ts arbitrary: info) simp_all
  with assms show ?thesis
    by (auto simp: create_or_update_node_def Let_def intro!: tidy_put_node split: option.split)
qed

lemma tidy_task:
  assumes "tidy P Q sl" "Q t"
  shows "tidy P Q (sched_update_task now t sl)"
proof (cases "is_tracked t")
  case True
  then have range: "\<not> status_state (task_status t) < task_state.Pending"
      "\<not> task_state.Running < status_state (task_status t)"
    by (auto simp: is_tracked_def)
  have forget: "tidy P Q (forget_task (task_id t) sl)"
    using assms(1) by (rule tidy_forget)
  consider "task_node_id t = None" | "task_node_id t \<noteq> None" "status_state (task_status t) = task_state.Pending"
    | "task_node_id t \<noteq> None" "status_state (task_status t) \<noteq> task_state.Pending"
    by blast
  then show ?thesis
  proof cases
    case 1
    with True range tidy_requeued(1) [OF forget assms(2)] show ?thesis
      by (simp add: sched_update_task_def is_queued_def Let_def)
  next
    case 2
    with True range tidy_requeued(2) [OF forget assms(2)] show ?thesis
      by (auto simp: sched_update_task_def is_pending_preassigned_def Let_def tidy_def)
  next
    case 3
    with range tidy_dequeued [OF assms(1), of "task_id t"] show ?thesis
      by (auto simp: sched_update_task_def intro!: tidy_count)
  qed
next
  case False
  with assms(1) show ?thesis
    by (auto simp: sched_update_task_def is_tracked_def intro!: tidy_forget tidy_failure split: option.split)
qed

lemma tidy_intake: "tidy P Q sl \<Longrightarrow> Q t \<Longrightarrow> tidy P Q (intake t sl)"
  using tidy_requeued [of P Q sl t]
  by (auto simp: intake_def Let_def is_queued_def is_pending_preassigned_def intro!: tidy_count)

definition all_stored :: "(id \<Rightarrow> node \<Rightarrow> bool) \<Rightarrow> (task \<Rightarrow> bool) \<Rightarrow> ('lid, 'mem) store_inner \<Rightarrow> bool" where
  "all_stored P Q v \<longleftrightarrow> (\<forall>n \<in> set (view_nodes v). P (node_id n) n) \<and> (\<forall>t \<in> set (view_tasks v). Q t)"

lemma rebuild_nodes:
  assumes "nodes_keyed nodes" "\<And>i info. map_of nodes i = Some info \<Longrightarrow> P i (ni_node info)"
    and "\<forall>n \<in> set ns. P (node_id n) n"
  shows "nodes_keyed (snd (fold (rebuild_node now) ns (failures, nodes))) \<and>
    (\<forall>i info. map_of (snd (fold (rebuild_node now) ns (failures, nodes))) i = Some info \<longrightarrow> P i (ni_node info))"
  using assms
proof (induction ns arbitrary: failures nodes)
  case (Cons n ns)
  have put: "nodes_keyed (bt_insert (node_id n) info nodes)"
    "map_of (bt_insert (node_id n) info nodes) i = Some info' \<Longrightarrow> P i (ni_node info')"
    if "ni_node info = n" for i info info'
    using Cons.prems that by (auto simp: nodes_keyed_def bt_insert_invar bt_lookup_insert split: if_splits)
  obtain failures' info where "rebuild_node now n (failures, nodes) = (failures', bt_insert (node_id n) info nodes)"
    "ni_node info = n"
    by (cases "map_of failures (node_id n)") (auto simp: rebuild_node_def)
  with Cons.IH [of "bt_insert (node_id n) info nodes" failures'] put Cons.prems(3) show ?case
    by simp
qed simp

lemma tidy_rebuild:
  assumes "all_stored P Q v"
  shows "tidy P Q (rebuild now v sl)"
proof -
  obtain failures nodes where nodes: "fold (rebuild_node now) (view_nodes v)
      (map (\<lambda>(i, info). (i, ni_failures info)) (sl_nodes sl), []) = (failures, nodes)"
    by fastforce
  have "nodes_keyed nodes \<and> (\<forall>i info. map_of nodes i = Some info \<longrightarrow> P i (ni_node info))"
    using rebuild_nodes [of "[]" P "view_nodes v" now "map (\<lambda>(i, info). (i, ni_failures info)) (sl_nodes sl)"]
      assms nodes by (simp add: all_stored_def nodes_keyed_def bt_invar_def)
  then have "tidy P Q (sl\<lparr>sl_nodes := nodes, sl_all_tasks := [], sl_queue := [], sl_pending_preassigned := [],
      sl_preassigned := {}\<rparr>)"
    by (simp add: tidy_def)
  moreover have "tidy P Q (fold intake ts sl)" if "tidy P Q sl" "\<forall>t \<in> set ts. Q t" for ts sl
    using that by (induction ts arbitrary: sl) (simp_all add: tidy_intake)
  ultimately show ?thesis
    using assms nodes by (simp add: rebuild_def Let_def all_stored_def)
qed

section \<open>The feed\<close>

fun event_object :: "store_event \<Rightarrow> store_object option" where
  "event_object (Created obj) = Some obj"
| "event_object (Updated _ obj) = Some obj"
| "event_object _ = None"

lemma action_feed:
  "\<exists>s1 ev. apply_action v a (s, evs) = (s1, evs @ [ev]) \<and>
     (\<forall>obj. event_object ev = Some obj \<longrightarrow> store_map s1 (obj_key obj) = Some obj \<and> obj_key obj = action_key a) \<and>
     (\<forall>key. key \<noteq> action_key a \<longrightarrow> store_map s1 key = store_map s key)"
  by (cases a) (simp_all add: Let_def)

lemma actions_feed:
  assumes "distinct (map action_key acts)" "fold (apply_action v) acts (s, evs0) = (s', evs)"
    and "\<forall>ev \<in> set evs0. \<forall>obj. event_object ev = Some obj \<longrightarrow>
      store_map s (obj_key obj) = Some obj \<and> obj_key obj \<notin> set (map action_key acts)"
  shows "\<forall>ev \<in> set evs. \<forall>obj. event_object ev = Some obj \<longrightarrow> store_map s' (obj_key obj) = Some obj"
  using assms
proof (induction acts arbitrary: s evs0)
  case (Cons a acts)
  obtain s1 ev where step: "apply_action v a (s, evs0) = (s1, evs0 @ [ev])"
    and this_one: "\<And>obj. event_object ev = Some obj \<Longrightarrow> store_map s1 (obj_key obj) = Some obj \<and> obj_key obj = action_key a"
    and others: "\<And>key. key \<noteq> action_key a \<Longrightarrow> store_map s1 key = store_map s key"
    using action_feed [of v a s evs0] by blast
  have "\<forall>e \<in> set (evs0 @ [ev]). \<forall>obj. event_object e = Some obj \<longrightarrow>
      store_map s1 (obj_key obj) = Some obj \<and> obj_key obj \<notin> set (map action_key acts)"
  proof (intro ballI allI impI)
    fix e obj
    assume e: "e \<in> set (evs0 @ [ev])" "event_object e = Some obj"
    show "store_map s1 (obj_key obj) = Some obj \<and> obj_key obj \<notin> set (map action_key acts)"
    proof (cases "e = ev")
      case True
      with this_one e(2) have "store_map s1 (obj_key obj) = Some obj" "obj_key obj = action_key a"
        by blast+
      moreover have "action_key a \<notin> set (map action_key acts)"
        using Cons.prems(1) by simp
      ultimately show ?thesis
        by metis
    next
      case False
      with e Cons.prems(3) have "store_map s (obj_key obj) = Some obj" "obj_key obj \<notin> set (map action_key (a # acts))"
        by auto
      with others show ?thesis
        by (metis list.set_intros list.simps(9))
    qed
  qed
  with Cons.IH [of s1 "evs0 @ [ev]"] Cons.prems(1,2) step show ?case
    by simp
qed simp

text \<open>
  What the watch feed reports when the store is at \<open>s\<close>: the events of the entries it applied. No
  transaction of the program changes an object twice (\<open>decide_independent\<close> for the control loops,
  single updates elsewhere).
\<close>

definition fed ::
  "('lid, 'mem) raft_types \<Rightarrow> ('lid, 'mem) store_inner \<Rightarrow> store_event \<Rightarrow> bool" where
  "fed R s ev \<longleftrightarrow> (\<exists>s0 e p len reply evs s1. store_reach R s0 \<and> log_ordered R s0 (entry_log_id e) \<and>
     entry_payload e = Normal p \<and> distinct (map action_key (proposal_actions p)) \<and>
     apply_entry R s0 e len = (reply, evs, s1) \<and> ev \<in> set evs \<and> store_run R s1 s)"

lemma fed_was_stored:
  assumes "fed R s ev" "event_object ev = Some obj"
  shows "was_stored R s obj"
proof -
  from assms(1) obtain s0 e p len reply evs s1 where e: "store_reach R s0" "log_ordered R s0 (entry_log_id e)"
      "entry_payload e = Normal p" "distinct (map action_key (proposal_actions p))"
      "apply_entry R s0 e len = (reply, evs, s1)" "ev \<in> set evs" "store_run R s1 s"
    unfolding fed_def by blast
  let ?v = "lid_index R (entry_log_id e)"
  obtain s' evs' where fold: "fold (apply_action ?v) (proposal_actions p) (s0, []) = (s', evs')"
    by fastforce
  from e(3,5,6) fold have "evs = evs' @ [Commit ?v]" "s1 = s'\<lparr>last_applied := Some (entry_log_id e)\<rparr>"
    by (auto simp: apply_entry_def apply_transaction_def Let_def split: sum.splits)
  moreover from this e(6) assms(2) have "ev \<in> set evs'"
    by auto
  ultimately have "store_map s1 (obj_key obj) = Some obj"
    using actions_feed [OF e(4) fold] assms(2) by simp
  moreover have "store_reach R s1"
    using e(1,2,5) by (blast intro: store_run.step store_step.entry)
  ultimately show ?thesis
    using stored_was_stored(1) was_stored_later [OF _ e(7)] by blast
qed

section \<open>Turns of the loop\<close>

lemma arm_tidy: "tidy P Q sl \<Longrightarrow> wp (arm (traced env)) (\<lambda>_ sl _. tidy P Q sl) sl tr"
  unfolding arm_def Let_def by (intro wp_intros) simp_all

lemma sched_observe_tidy:
  assumes "tidy P Q sl" "\<And>n. event_object ev = Some (store_object.Node n) \<Longrightarrow> P (node_id n) n"
    "\<And>t. event_object ev = Some (store_object.Task t) \<Longrightarrow> Q t"
  shows "wp (sched_observe (traced env) ev) (\<lambda>_ sl _. tidy P Q sl) sl tr"
proof -
  have stored: "wp (observe_stored (traced env) obj) (\<lambda>_ sl _. tidy P Q sl) sl tr" if "event_object ev = Some obj" for obj
    using assms that unfolding observe_stored_def
    by (cases obj) (auto intro!: wp_return wp_bind wp_now wp_change tidy_node tidy_task)
  have "tidy P Q (sl\<lparr>sl_nodes := bt_remove i (sl_nodes sl)\<rparr>)" for i
    using assms(1) by (auto simp: tidy_def nodes_keyed_def bt_remove_invar bt_lookup_remove)
  with assms(1) stored show ?thesis
    unfolding sched_observe_def
    by (auto intro!: wp_change wp_return arm_tidy tidy_forget split: store_event.split object_kind.split)
qed

lemma resync_tidy:
  "wp (do { resync (traced env); arm (traced env) })
     (\<lambda>_ sl tr. (\<forall>v. Saw v \<in> set tr \<longrightarrow> all_stored P Q v) \<longrightarrow> tidy P Q sl) sl tr"
  unfolding resync_def
proof (intro wp_bind wp_now wp_view wp_change)
  fix now v
  show "wp (arm (traced env)) (\<lambda>_ sl tr. (\<forall>v. Saw v \<in> set tr \<longrightarrow> all_stored P Q v) \<longrightarrow> tidy P Q sl)
      (rebuild now v sl) (tr @ [Saw v])"
  proof (cases "all_stored P Q v")
    case True
    show ?thesis
      by (rule wp_mono [OF arm_tidy [OF tidy_rebuild [OF True]]]) blast
  next
    case False
    have "wp (arm (traced env)) (\<lambda>_ _ _. True) (rebuild now v sl) (tr @ [Saw v])"
      unfolding arm_def Let_def by (intro wp_intros) simp_all
    then show ?thesis
      by (rule wp_mono) (use False in \<open>auto simp: prefix_def\<close>)
  qed
qed

inductive sched_reach ::
  "('lid, 'mem) raft_types \<Rightarrow> ('w, 'lid, 'mem, 'e) sched_env \<Rightarrow> ('lid, 'mem) store_inner \<Rightarrow> scheduler_loop \<Rightarrow> bool"
  for R env where
  start: "sched_reach R env s (new_scheduler_loop debounce max_debounce)"
| turn: "sched_reach R env s sl \<Longrightarrow>
    run_state (sched_turn (traced env) wake) (sl, (w, [])) = (u, (sl', (w', tr))) \<Longrightarrow>
    watched R s s' tr \<Longrightarrow> (\<And>ev. wake = Received ev \<Longrightarrow> fed R s' ev) \<Longrightarrow> sched_reach R env s' sl'"

lemma view_stored:
  assumes "watched R s s' tr" "Saw v \<in> set tr"
  shows "all_stored (\<lambda>_ n. was_stored R s' (store_object.Node n)) (\<lambda>t. was_stored R s' (store_object.Task t)) v"
proof -
  have run: "store_run R s v" "store_run R v s'" "store_reach R s"
    using assms by (auto simp: watched_def)
  note v = store_run_trans [OF run(1,3)] run(2)
  have inv: "maps_distinct v"
    using store_reach_invariant [OF v(1)] by (simp add: store_wf_def)
  have "\<exists>i. view_node v i = Some n" if "n \<in> set (view_nodes v)" for n
    using that inv hm.values_mem [of "st_nodes v" n] by (auto simp: view_nodes_def view_node_def maps_distinct_def)
  moreover have "\<exists>i. view_task v i = Some t" if "t \<in> set (view_tasks v)" for t
    using that inv hm.values_mem [of "st_tasks v" t] by (auto simp: view_tasks_def view_task_def maps_distinct_def)
  ultimately show ?thesis
    unfolding all_stored_def node_stored task_stored
    using stored_was_stored(1) [OF v(1)] was_stored_later [OF _ v(2)] by blast
qed

lemma sched_reach_mirrors: "sched_reach R env s sl \<Longrightarrow> mirrors R s sl"
proof (induction rule: sched_reach.induct)
  case (start s debounce max_debounce)
  then show ?case
    by (simp add: mirrors_def tidy_def new_scheduler_loop_def nodes_keyed_def bt_invar_def)
next
  case (turn s sl wake w u sl' w' tr s')
  let ?P = "\<lambda>_ n. was_stored R s' (store_object.Node n)" and ?Q = "\<lambda>t. was_stored R s' (store_object.Task t)"
  have old: "tidy ?P ?Q sl"
    using turn.IH turn.hyps(3) by (auto simp: mirrors_def watched_def intro: tidy_mono was_stored_later)
  show ?case
  proof (cases wake)
    case Due
    have "wp (schedule_batch (traced env)) (\<lambda>_. batch_inv (mirror_nodes sl) (mirror_tasks sl)) sl []"
      by (rule schedule_batch_wp) (rule mirrors_batch_inv [OF turn.IH])
    from wpD [OF this] turn.hyps(2) Due have "batch_inv (mirror_nodes sl) (mirror_tasks sl) sl' tr"
      by (simp add: sched_turn_def)
    then have "tidy (\<lambda>i n. mirror_nodes sl i = Some n) (known (mirror_tasks sl) tr) sl'"
      by (simp add: batch_inv_def)
    then have "tidy ?P ?Q sl'"
    proof (rule tidy_mono)
      show "?P i n" if "mirror_nodes sl i = Some n" for i n
        using that old by (auto simp: mirror_nodes_def tidy_def)
      show "?Q t" if "known (mirror_tasks sl) tr t" for t
        using that by (rule known_was_stored [OF turn.IH turn.hyps(3)])
    qed
    then show ?thesis
      by (simp add: mirrors_def)
  next
    case (Received ev)
    have "wp (sched_observe (traced env) ev) (\<lambda>_ sl _. tidy ?P ?Q sl) sl []"
      using fed_was_stored [OF turn.hyps(4) [OF Received]] by (intro sched_observe_tidy [OF old])
    from wpD [OF this] turn.hyps(2) Received show ?thesis
      by (simp add: sched_turn_def mirrors_def)
  next
    case Lagged
    from wpD [OF resync_tidy [of env ?P ?Q sl "[]"]] turn.hyps(2) Lagged view_stored [OF turn.hyps(3)]
    show ?thesis
      by (simp add: sched_turn_def mirrors_def)
  qed
qed

section \<open>Decisions\<close>

lemma justified_task:
  assumes "justified N K tr t t'"
  shows "t' = t\<lparr>task_node_id := task_node_id t', task_status := task_status t', task_meta := task_meta t'\<rparr> \<and>
    meta_version (task_meta t') = meta_version (task_meta t) \<and> created_at (task_meta t') = created_at (task_meta t)"
  using assms by cases simp_all


text \<open>A store with one node and one pending task, and a world in which nothing else happens.\<close>

definition w_pending :: task where
  "w_pending = sample_task ''t1'' ''v1'' 1 task_state.Pending desired_state.Running"

definition w_cluster :: "(nat, nat list) store_inner" where
  "w_cluster = after (store_default nat_raft) (tx_entry 1
     [Create (store_object.Node (sample_node ''n1'' node_state.Ready Active)), Create (store_object.Task w_pending)])"

definition w_env :: "((nat, nat list) store_inner, nat, nat list, nat) sched_env" where
  "w_env = \<lparr>env_view = (\<lambda>w. (w, w)), env_client_write = (\<lambda>_ w. (Inr (proposal_response.Applied 2), w)),
     env_now = (\<lambda>w. (7, w)), env_instant = (\<lambda>w. (0, w))\<rparr>"

definition w_synced :: scheduler_loop where
  "w_synced = fst (snd (run_state (sched_turn (traced w_env) Lagged) (new_scheduler_loop 1 5, (w_cluster, []))))"

definition w_bound :: task where
  "w_bound = w_pending\<lparr>task_node_id := Some ''n1'',
     task_status := new_task_status 7 task_state.Assigned ASSIGNED_MESSAGE,
     task_meta := (task_meta w_pending)\<lparr>updated_at := 7\<rparr>\<rparr>"

lemma w_watched: "watched nat_raft w_cluster w_cluster [Saw w_cluster]"
proof -
  have "store_reach nat_raft w_cluster"
    unfolding w_cluster_def by (rule after_run [OF store_run.stay]) code_simp
  then show ?thesis
    by (simp add: watched_def store_run.stay)
qed

lemma w_synced_reach: "sched_reach nat_raft w_env w_cluster w_synced"
proof (rule sched_reach.turn [OF sched_reach.start [where s = w_cluster]])
  have "snd (snd (snd (run_state (sched_turn (traced w_env) Lagged) (new_scheduler_loop 1 5, (w_cluster, []))))) = [Saw w_cluster]"
    by code_simp
  then show "run_state (sched_turn (traced w_env) Lagged) (new_scheduler_loop 1 5, (w_cluster, [])) =
      ((), (w_synced, (fst (snd (snd (run_state (sched_turn (traced w_env) Lagged)
        (new_scheduler_loop 1 5, (w_cluster, []))))), [Saw w_cluster])))"
    by (simp add: w_synced_def prod_eq_iff)
qed (simp_all add: w_watched)


end
