(* ===== verification/Core_Naming_Proofs.thy ===== *)
theory Core_Naming_Proofs
  imports Core_Naming "HOL-Library.Code_Target_Numeral"
begin

text \<open>
  Ids and names: the division loop computes base 36, every generated id is valid and is the
  number drawn without its two last digits; the name checks accept exactly the patterns they
  are meant to implement; a task's name can be taken apart again.
\<close>

section \<open>Base 36\<close>

definition digit36 :: "char \<Rightarrow> nat" where
  "digit36 c = (if is_ascii_digit c then byte c - 48 else byte c - 87)"

definition value36 :: "string \<Rightarrow> nat" where
  "value36 s = foldl (\<lambda>v c. v * 36 + digit36 c) 0 s"

definition is_digit36 :: "char \<Rightarrow> bool" where
  "is_digit36 c \<longleftrightarrow> is_ascii_digit c \<or> is_ascii_lowercase c"

lemma alphabet_digit:
  assumes "d < 36"
  shows "is_digit36 (ALPHABET ! d)" and "digit36 (ALPHABET ! d) = d"
proof -
  have "\<forall>d \<in> set [0..<36]. is_digit36 (ALPHABET ! d) \<and> digit36 (ALPHABET ! d) = d"
    by code_simp
  with assms show "is_digit36 (ALPHABET ! d)" and "digit36 (ALPHABET ! d) = d"
    by auto
qed

lemma value36_snoc [simp]: "value36 (s @ [c]) = value36 s * 36 + digit36 c"
  by (simp add: value36_def)

lemma value36_Nil [simp]: "value36 [] = 0"
  by (simp add: value36_def)

text \<open>The digits of the loop, least significant first.\<close>

lemma base36_loop_digits:
  "value36 (rev (base36_loop bs)) = be_value bs \<and> list_all is_digit36 (base36_loop bs)"
proof (induction bs rule: base36_loop.induct)
  case (1 bs)
  show ?case
  proof (cases "bs = []")
    case False
    obtain q r where qr: "base36_pass 0 bs = (q, r)"
      by fastforce
    with base36_pass_divides [of 0 bs q r]
    have "be_value bs = 36 * be_value q + unat r" "unat r < 36"
      by simp_all
    with 1 [OF False refl qr [symmetric]] False qr show ?thesis
      by (simp add: base36_loop.simps [of bs] alphabet_digit)
  qed (simp add: base36_loop.simps)
qed

lemma base36_loop_length:
  "be_value bs < 36 ^ n \<Longrightarrow> hd bs \<noteq> 0 \<or> bs = [] \<Longrightarrow> length (base36_loop bs) \<le> n"
proof (induction bs arbitrary: n rule: base36_loop.induct)
  case (1 bs)
  show ?case
  proof (cases "bs = []")
    case False
    obtain q r where qr: "base36_pass 0 bs = (q, r)"
      by fastforce
    with base36_pass_divides [of 0 bs q r]
    have v: "be_value bs = 36 * be_value q + unat r" "unat r < 36"
      by simp_all
    have "be_value bs \<noteq> 0"
      using "1.prems"(2) False by (cases bs) (auto simp: be_value_eq_0)
    then obtain m where n: "n = Suc m"
      using "1.prems"(1) by (cases n) simp_all
    have "be_value (dropWhile (\<lambda>b. b = 0) q) < 36 ^ m"
      using v "1.prems"(1) n by simp
    moreover have "hd (dropWhile (\<lambda>b. b = 0) q) \<noteq> 0 \<or> dropWhile (\<lambda>b. b = 0) q = []"
      using hd_dropWhile by blast
    ultimately have "length (base36_loop (dropWhile (\<lambda>b. b = 0) q)) \<le> m"
      using "1.IH" [OF False refl qr [symmetric]] by blast
    with False qr n show ?thesis
      by (simp add: base36_loop.simps [of bs])
  qed (simp add: base36_loop.simps)
qed

lemma value36_bound: "list_all is_digit36 s \<Longrightarrow> value36 s < 36 ^ length s"
proof (induction s rule: rev_induct)
  case (snoc c s)
  then have "value36 s < 36 ^ length s" "digit36 c < 36"
    by (auto simp: is_digit36_def digit36_def is_ascii_digit_def is_ascii_lowercase_def)
  then show ?case
    by simp
qed simp

lemma value36_take:
  assumes "list_all is_digit36 s"
  shows "value36 (take (length s - k) s) = value36 s div 36 ^ k"
  using assms
proof (induction s arbitrary: k rule: rev_induct)
  case (snoc c s)
  then have "digit36 c < 36"
    by (auto simp: is_digit36_def digit36_def is_ascii_digit_def is_ascii_lowercase_def)
  show ?case
  proof (cases k)
    case (Suc j)
    have "(value36 s * 36 + digit36 c) div 36 ^ Suc j = (value36 s * 36 + digit36 c) div 36 div 36 ^ j"
      by (simp add: div_mult2_eq)
    with Suc snoc \<open>digit36 c < 36\<close> show ?thesis
      by simp
  qed simp
qed simp

lemma force_top_bit_value:
  assumes "length bs = ID_BYTES"
  shows "2 ^ 135 \<le> be_value (force_top_bit bs)" and "be_value (force_top_bit bs) < 2 ^ 136"
    and "hd (force_top_bit bs) \<noteq> 0"
proof -
  obtain b rest where bs: "bs = b # rest" "length rest = 16"
    using assms by (auto simp: ID_BYTES_def length_Suc_conv numeral_eq_Suc)
  have top: "force_top_bit bs = (b OR 0x80) # rest"
    by (simp add: force_top_bit_def bs)
  have "(0x80 :: 8 word) \<le> b OR 0x80"
    by (subst or.commute) (rule le_word_or2)
  then have ge: "128 \<le> unat (b OR 0x80)"
    by (simp add: word_le_nat_alt)
  then have "128 * 256 ^ 16 \<le> unat (b OR 0x80) * 256 ^ 16"
    by (rule mult_right_mono) simp
  then show "2 ^ 135 \<le> be_value (force_top_bit bs)"
    unfolding top be_value_Cons bs(2) by simp
  show "be_value (force_top_bit bs) < 2 ^ 136"
    using be_value_bound [of "force_top_bit bs"] unfolding top by (simp add: bs(2))
  show "hd (force_top_bit bs) \<noteq> 0"
    using ge by (auto simp: top)
qed

lemma base36_forced_length:
  assumes "length bs = ID_BYTES"
  shows "length (base36_loop (force_top_bit bs)) = 27"
proof -
  note top = force_top_bit_value [OF assms]
  have "be_value (force_top_bit bs) < 36 ^ 27"
    using top(2) by simp
  then have "length (base36_loop (force_top_bit bs)) \<le> 27"
    using top(3) by (intro base36_loop_length) simp_all
  moreover have "\<not> length (base36_loop (force_top_bit bs)) \<le> 26"
  proof
    assume "length (base36_loop (force_top_bit bs)) \<le> 26"
    then have "(36 :: nat) ^ length (base36_loop (force_top_bit bs)) \<le> 36 ^ 26"
      by (intro power_increasing) simp_all
    moreover have "be_value (force_top_bit bs) < 36 ^ length (base36_loop (force_top_bit bs))"
      using value36_bound [of "rev (base36_loop (force_top_bit bs))"]
        base36_loop_digits [of "force_top_bit bs"] by simp
    ultimately show False
      using top(1) by simp
  qed
  ultimately show ?thesis
    by simp
qed

text \<open>
  C38. Every generated id is valid, 25 characters of \<open>[0-9a-z]\<close> whatever bytes the random source gave,
  and stands for the number drawn (its top bit set) without the two last base-36 digits: no
  byte is lost in the division loop, and the text is never shorter than the truncation expects.
\<close>

theorem generated_ids_valid:
  assumes "length bs = ID_BYTES"
  shows "is_valid_id (id_generate bs) \<and>
    value36 (id_generate bs) = be_value (force_top_bit bs) div 36\<^sup>2"
proof -
  let ?ds = "rev (base36_loop (force_top_bit bs))"
  have len: "length ?ds = 27"
    using base36_forced_length [OF assms] by simp
  then have gen: "id_generate bs = take (length ?ds - 2) ?ds"
    by (auto simp: id_generate_def base36_def Let_def ID_LENGTH_def)
  have digits: "list_all is_digit36 ?ds" "value36 ?ds = be_value (force_top_bit bs)"
    using base36_loop_digits [of "force_top_bit bs"] by simp_all
  have "is_valid_id (id_generate bs)"
    using digits(1) len set_take_subset [of 25 ?ds]
    by (auto simp: gen is_valid_id_def ID_LENGTH_def list_all_iff is_digit36_def)
  with value36_take [OF digits(1), of 2] digits(2) show ?thesis
    by (simp add: gen)
qed

theorem generated_ids_valid_witness:
  "is_valid_id (id_generate (replicate 17 7)) \<and>
   value36 (id_generate (replicate 17 7)) = be_value (force_top_bit (replicate 17 7)) div 36\<^sup>2"
  by (rule generated_ids_valid) (simp add: ID_BYTES_def)

section \<open>Names\<close>

text \<open>Regular expressions, as far as the documented patterns use them.\<close>

datatype rx = Cls "char \<Rightarrow> bool" | Cat rx rx | Star rx | Opt rx

inductive rx_matches :: "rx \<Rightarrow> string \<Rightarrow> bool" where
  cls: "p c \<Longrightarrow> rx_matches (Cls p) [c]"
| cat: "rx_matches r s \<Longrightarrow> rx_matches r' s' \<Longrightarrow> rx_matches (Cat r r') (s @ s')"
| star_nil: "rx_matches (Star r) []"
| star_step: "rx_matches r s \<Longrightarrow> rx_matches (Star r) s' \<Longrightarrow> rx_matches (Star r) (s @ s')"
| opt_none: "rx_matches (Opt r) []"
| opt_some: "rx_matches r s \<Longrightarrow> rx_matches (Opt r) s"

inductive_simps rx_matches_simps [simp]:
  "rx_matches (Cls p) s" "rx_matches (Cat r r') s" "rx_matches (Opt r) s"

inductive_cases rx_catE: "rx_matches (Cat r r') s"

abbreviation rx_plus :: "rx \<Rightarrow> rx" where
  "rx_plus r \<equiv> Cat r (Star r)"

text \<open>\<open>^[a-zA-Z0-9](?:[-_]*[A-Za-z0-9]+)*$\<close>\<close>

definition service_name_rx :: rx where
  "service_name_rx = Cat (Cls is_ascii_alphanumeric)
     (Star (Cat (Star (Cls (\<lambda>c. c = CHR ''-'' \<or> c = CHR ''_''))) (rx_plus (Cls is_ascii_alphanumeric))))"

text \<open>\<open>^[a-zA-Z0-9]+(?:[a-zA-Z0-9-_.]*[a-zA-Z0-9])?$\<close>\<close>

definition secret_name_rx :: rx where
  "secret_name_rx = Cat (rx_plus (Cls is_ascii_alphanumeric))
     (Opt (Cat (Star (Cls (name_interior True))) (Cls is_ascii_alphanumeric)))"

lemma star_cls_imp: "rx_matches r s \<Longrightarrow> r = Star (Cls p) \<Longrightarrow> list_all p s"
  by (induction rule: rx_matches.induct) auto

lemma star_cls [simp]: "rx_matches (Star (Cls p)) s \<longleftrightarrow> list_all p s"
proof
  show "list_all p s \<Longrightarrow> rx_matches (Star (Cls p)) s"
  proof (induction s)
    case (Cons c s)
    then show ?case
      using star_step [of "Cls p" "[c]" s] by simp
  qed (rule star_nil)
qed (simp add: star_cls_imp)

text \<open>A word whose characters are interior ones and that ends in an alphanumeric one.\<close>

definition name_tail :: "bool \<Rightarrow> string \<Rightarrow> bool" where
  "name_tail dot s \<longleftrightarrow> list_all (name_interior dot) s \<and> (s = [] \<or> is_ascii_alphanumeric (last s))"

lemma name_tail_append: "name_tail dot s \<Longrightarrow> name_tail dot s' \<Longrightarrow> name_tail dot (s @ s')"
  by (cases "s' = []") (auto simp: name_tail_def)

lemma list_all_last: "list_all p s \<Longrightarrow> s \<noteq> [] \<Longrightarrow> p (last s)"
  by (simp add: list_all_iff)

lemma alnum_interior: "is_ascii_alphanumeric c \<Longrightarrow> name_interior dot c"
  by (simp add: name_interior_def)

abbreviation name_group :: rx where
  "name_group \<equiv> Cat (Star (Cls (\<lambda>c. c = CHR ''-'' \<or> c = CHR ''_''))) (rx_plus (Cls is_ascii_alphanumeric))"

lemma name_group_tail:
  assumes "rx_matches name_group s"
  shows "name_tail False s"
proof -
  obtain d c e where s: "s = d @ c # e" and d: "list_all (\<lambda>c. c = CHR ''-'' \<or> c = CHR ''_'') d"
    and ce: "is_ascii_alphanumeric c" "list_all is_ascii_alphanumeric e"
    using assms by auto
  have "list_all (name_interior False) d" "list_all (name_interior False) e"
    using d ce(2) by (auto simp: list_all_iff name_interior_def)
  with ce list_all_last [OF ce(2)] show ?thesis
    by (cases "e = []") (simp_all add: name_tail_def s alnum_interior)
qed

lemma star_group_imp: "rx_matches r s \<Longrightarrow> r = Star name_group \<Longrightarrow> name_tail False s"
proof (induction rule: rx_matches.induct)
  case (star_step r s s')
  then have parts: "rx_matches name_group s" "name_tail False s'"
    by simp_all
  show ?case
    by (rule name_tail_append [OF name_group_tail [OF parts(1)] parts(2)])
qed (simp_all add: name_tail_def)

lemma star_group: "name_tail False s \<Longrightarrow> rx_matches (Star name_group) s"
proof (induction s rule: length_induct)
  case (1 s)
  show ?case
  proof (cases "s = []")
    case False
    let ?dash = "\<lambda>c. c = CHR ''-'' \<or> c = CHR ''_''"
    have alnum: "\<not> ?dash c" if "is_ascii_alphanumeric c" for c
      using that by (auto simp: is_ascii_alphanumeric_def is_ascii_digit_def is_ascii_alphabetic_def)
    have "\<not> ?dash (last s)"
      using alnum 1(2) False unfolding name_tail_def by blast
    then have "dropWhile ?dash s \<noteq> []"
      using last_in_set [OF False] unfolding dropWhile_eq_Nil_conv by blast
    then obtain x rest where rest: "dropWhile ?dash s = x # rest"
      by (cases "dropWhile ?dash s") auto
    define d where "d = takeWhile ?dash s"
    have s: "s = d @ x # rest"
      unfolding d_def rest [symmetric] by simp
    have all: "name_interior False x" "list_all (name_interior False) rest"
      using 1(2) unfolding name_tail_def by (simp_all add: s)
    have "\<not> ?dash x"
      using hd_dropWhile [of ?dash s] rest by auto
    with all(1) have x: "is_ascii_alphanumeric x"
      by (auto simp: name_interior_def)
    have d: "list_all ?dash d"
      unfolding d_def list_all_iff using set_takeWhileD by fast
    have "name_tail False rest"
      using 1(2) all(2) unfolding name_tail_def by (cases "rest = []") (simp_all add: s)
    moreover have "length rest < length s"
      by (simp add: s)
    ultimately have "rx_matches (Star name_group) rest"
      using 1(1) by blast
    moreover have "rx_matches (rx_plus (Cls is_ascii_alphanumeric)) ([x] @ [])"
      by (rule cat) (simp_all add: x)
    then have "rx_matches name_group (d @ [x])"
      using d by (intro cat) simp_all
    ultimately have "rx_matches (Star name_group) ((d @ [x]) @ rest)"
      by (intro star_step)
    then show ?thesis
      by (simp add: s)
  qed (simp add: star_nil)
qed

lemma service_name_rx_iff:
  "rx_matches service_name_rx s \<longleftrightarrow> s \<noteq> [] \<and> is_ascii_alphanumeric (hd s) \<and>
     is_ascii_alphanumeric (last s) \<and> list_all (name_interior False) s"
proof -
  have group: "rx_matches (Star name_group) t \<longleftrightarrow> name_tail False t" for t
    using star_group star_group_imp by blast
  have "rx_matches service_name_rx s \<longleftrightarrow>
      (\<exists>c t. s = c # t \<and> is_ascii_alphanumeric c \<and> name_tail False t)"
    (is "?l \<longleftrightarrow> ?r")
  proof
    assume ?r
    then obtain c t where "s = [c] @ t" "is_ascii_alphanumeric c" "name_tail False t"
      by auto
    then show ?l
      unfolding service_name_rx_def by (simp only:) (rule cat, simp_all add: group cls)
  qed (unfold service_name_rx_def rx_matches_simps group, elim exE conjE, simp)
  also have "\<dots> \<longleftrightarrow> s \<noteq> [] \<and> is_ascii_alphanumeric (hd s) \<and>
     is_ascii_alphanumeric (last s) \<and> list_all (name_interior False) s"
    by (cases s) (auto simp: name_tail_def alnum_interior)
  finally show ?thesis .
qed

lemma secret_name_rx_iff:
  "rx_matches secret_name_rx s \<longleftrightarrow> s \<noteq> [] \<and> is_ascii_alphanumeric (hd s) \<and>
     is_ascii_alphanumeric (last s) \<and> list_all (name_interior True) s"
    (is "_ \<longleftrightarrow> ?ok s")
proof
  assume "rx_matches secret_name_rx s"
  then obtain a t where s0: "s = a @ t" and a: "rx_matches (rx_plus (Cls is_ascii_alphanumeric)) a"
    and opt: "rx_matches (Opt (Cat (Star (Cls (name_interior True))) (Cls is_ascii_alphanumeric))) t"
    unfolding secret_name_rx_def by (rule rx_catE)
  from a obtain c e where s: "s = c # e @ t" and ce: "is_ascii_alphanumeric c"
      "list_all is_ascii_alphanumeric e"
    unfolding s0 by auto
  from opt have t: "t = [] \<or>
      (\<exists>m x. t = m @ [x] \<and> list_all (name_interior True) m \<and> is_ascii_alphanumeric x)"
    by auto
  have "list_all (name_interior True) e"
    using ce(2) by (auto simp: list_all_iff alnum_interior)
  with ce t list_all_last [OF ce(2)] show "?ok s"
    by (cases "e = []") (auto simp: s alnum_interior)
next
  assume ok: "?ok s"
  then obtain c t where s: "s = c # t"
    by (cases s) auto
  have "t = [] \<or> (\<exists>m x. t = m @ [x] \<and> list_all (name_interior True) m \<and> is_ascii_alphanumeric x)"
    using ok by (cases t rule: rev_cases) (auto simp: s)
  then have "rx_matches (Opt (Cat (Star (Cls (name_interior True))) (Cls is_ascii_alphanumeric))) t"
    by (elim disjE exE conjE) (simp, simp only:, intro opt_some cat, simp_all)
  moreover have "rx_matches (rx_plus (Cls is_ascii_alphanumeric)) ([c] @ [])"
    by (rule cat) (use ok in \<open>simp_all add: s\<close>)
  ultimately have "rx_matches secret_name_rx ([c] @ t)"
    unfolding secret_name_rx_def by (intro cat) simp_all
  then show "rx_matches secret_name_rx s"
    by (simp add: s)
qed

lemma validate_name_ok_iff:
  "validate_name nm n dot rule = Inr () \<longleftrightarrow> length nm \<le> n \<and> nm \<noteq> [] \<and>
     is_ascii_alphanumeric (hd nm) \<and> is_ascii_alphanumeric (last nm) \<and>
     list_all (name_interior dot) nm"
  by (auto simp: validate_name_def split: list.splits)


section \<open>Task names\<close>

lemma append_dot_inject:
  "CHR ''.'' \<notin> set a \<Longrightarrow> CHR ''.'' \<notin> set b \<Longrightarrow> a @ CHR ''.'' # s = b @ CHR ''.'' # t \<Longrightarrow> a = b \<and> s = t"
proof (induction a arbitrary: b)
  case Nil
  then show ?case by (cases b) auto
next
  case (Cons c a)
  then show ?case by (cases b) auto
qed

lemma service_name_no_dot: "validate_service_name nm = Inr () \<Longrightarrow> CHR ''.'' \<notin> set nm"
  by (auto simp: validate_service_name_def validate_name_ok_iff list_all_iff name_interior_def
      is_ascii_alphanumeric_def is_ascii_digit_def is_ascii_alphabetic_def)

lemma valid_id_no_dot: "is_valid_id i \<Longrightarrow> CHR ''.'' \<notin> set i"
  by (auto simp: is_valid_id_def list_all_iff is_ascii_digit_def is_ascii_lowercase_def)

text \<open>A slot key is a decimal number or a node id: neither holds a dot.\<close>

definition slot_key :: "string \<Rightarrow> bool" where
  "slot_key k \<longleftrightarrow> (\<exists>n. k = show_nat n) \<or> is_valid_id k"

lemma show_nat_digits: "list_all is_ascii_digit (show_nat n)"
proof (induction n rule: show_nat.induct)
  case (1 n)
  have "is_ascii_digit (char_of (d + 48))" if "d < 10" for d :: nat
    using that by (simp add: is_ascii_digit_def)
  then show ?case
    using 1 by (cases "n < 10") (simp_all add: show_nat.simps [of n])
qed

lemma slot_key_no_dot: "slot_key k \<Longrightarrow> CHR ''.'' \<notin> set k"
proof -
  have dot: "\<not> is_ascii_digit CHR ''.''"
    by (simp add: is_ascii_digit_def)
  have "CHR ''.'' \<notin> set (show_nat n)" for n
    using show_nat_digits [of n] dot unfolding list_all_iff by blast
  with valid_id_no_dot show "slot_key k \<Longrightarrow> CHR ''.'' \<notin> set k"
    unfolding slot_key_def by blast
qed

text \<open>
  C40. A task's name can be taken apart again: two tasks of services with valid names that have the
  same task name belong to services of the same name, to the same slot (or node) and have the
  same id.
\<close>

theorem task_name_unique:
  assumes "validate_service_name s = Inr ()" "validate_service_name s' = Inr ()"
    and "slot_key k" "slot_key k'" "task_name s k i = task_name s' k' i'"
  shows "s = s' \<and> k = k' \<and> i = i'"
proof -
  have eq: "s @ CHR ''.'' # (k @ CHR ''.'' # i) = s' @ CHR ''.'' # (k' @ CHR ''.'' # i')"
    using assms(5) by (simp add: task_name_def)
  have s: "s = s'" "k @ CHR ''.'' # i = k' @ CHR ''.'' # i'"
    using append_dot_inject [OF _ _ eq] assms(1,2) by (simp_all add: service_name_no_dot)
  show ?thesis
    using s(1) append_dot_inject [OF _ _ s(2)] assms(3,4) by (simp add: slot_key_no_dot)
qed

theorem task_name_unique_witness:
  "validate_service_name ''web'' = Inr () \<and> slot_key (show_nat 3) \<and> slot_key (show_nat 4) \<and>
   task_name ''web'' (show_nat 3) ''0123456789abcdefghijklmno'' \<noteq>
     task_name ''web'' (show_nat 4) ''0123456789abcdefghijklmno''"
proof -
  have web: "validate_service_name ''web'' = Inr ()" and "show_nat 3 \<noteq> show_nat 4"
    by code_simp+
  moreover have slots: "slot_key (show_nat 3)" "slot_key (show_nat 4)"
    unfolding slot_key_def by blast+
  ultimately show ?thesis
    using task_name_unique [OF web web slots] by blast
qed

end
