(* ===== verification/Orch_Task_Proofs.thy ===== *)
theory Orch_Task_Proofs
  imports Orch_Task Sample_Objects
begin

text \<open>
  The building blocks of the control loops: grouping by slot and by node is filtering, the free
  slots are the lowest unoccupied numbers, and a scale-down keeps the right number of slots in
  the right order.
\<close>

section \<open>Grouping\<close>

lemma bt_push_invar: "bt_invar m \<Longrightarrow> bt_invar (bt_push k v m)"
  by (simp add: bt_push_def bt_insert_invar)

lemma bt_push_lookup:
  "bt_invar m \<Longrightarrow> map_of (bt_push k v m) k' =
     (if k' = k then Some ((case map_of m k of None \<Rightarrow> [] | Some vs \<Rightarrow> vs) @ [v]) else map_of m k')"
  by (simp add: bt_push_def bt_lookup_insert)

text \<open>Pushing each element of a list under its key groups the list by key, in order.\<close>

definition grouped :: "('k \<Rightarrow> 'v list) \<Rightarrow> 'k \<Rightarrow> 'v list option" where
  "grouped f k = (if f k = [] then None else Some (f k))"

lemma fold_bt_push:
  assumes "bt_invar m" "\<And>k. map_of m k = grouped f k"
  shows "bt_invar (fold (\<lambda>t. bt_push (key t) t) ts m) \<and>
    map_of (fold (\<lambda>t. bt_push (key t) t) ts m) k = grouped (\<lambda>k. f k @ filter (\<lambda>t. key t = k) ts) k"
  using assms
proof (induction ts arbitrary: m f k)
  case (Cons t ts)
  let ?f = "\<lambda>k. f k @ (if key t = k then [t] else [])"
  have "map_of (bt_push (key t) t m) k = grouped ?f k" for k
    using Cons.prems by (auto simp: bt_push_lookup grouped_def)
  from Cons.IH [OF bt_push_invar [OF Cons.prems(1)] this] show ?case
    by (simp add: grouped_def)
qed simp

lemma group_fold:
  shows group_fold_invar: "bt_invar (fold (\<lambda>t. bt_push (key t) t) ts [])"
    and group_fold_lookup: "map_of (fold (\<lambda>t. bt_push (key t) t) ts []) k =
      grouped (\<lambda>k. filter (\<lambda>t. key t = k) ts) k"
  using fold_bt_push [of "[]" "\<lambda>_. []" key ts k] by (simp_all add: grouped_def bt.invar_empty)

lemma group_by_slot_invar [simp]: "bt_invar (group_by_slot ts)"
  by (simp add: group_by_slot_def group_fold_invar)

lemma group_by_slot_lookup:
  "map_of (group_by_slot ts) s = grouped (\<lambda>s. filter (\<lambda>t. \<not> is_removing t \<and> task_slot t = s) ts) s"
  by (simp add: group_by_slot_def group_fold_lookup grouped_def)

text \<open>Elements without a key are left out.\<close>

lemma fold_group_some:
  "fold (\<lambda>t m. case key t of None \<Rightarrow> m | Some k \<Rightarrow> bt_push k t m) ts m =
   fold (\<lambda>t. bt_push (the (key t)) t) (filter (\<lambda>t. key t \<noteq> None) ts) m"
  by (induction ts arbitrary: m) (auto split: option.split)

lemma group_some:
  shows group_some_invar: "bt_invar (fold (\<lambda>t m. case key t of None \<Rightarrow> m | Some k \<Rightarrow> bt_push k t m) ts [])"
    and group_some_lookup: "map_of (fold (\<lambda>t m. case key t of None \<Rightarrow> m | Some k \<Rightarrow> bt_push k t m) ts []) k =
      grouped (\<lambda>k. filter (\<lambda>t. key t = Some k) ts) k"
proof -
  have "filter (\<lambda>t. the (key t) = k) (filter (\<lambda>t. key t \<noteq> None) ts) = filter (\<lambda>t. key t = Some k) ts"
    unfolding filter_filter by (rule filter_cong) auto
  then show "map_of (fold (\<lambda>t m. case key t of None \<Rightarrow> m | Some k \<Rightarrow> bt_push k t m) ts []) k =
      grouped (\<lambda>k. filter (\<lambda>t. key t = Some k) ts) k"
    by (simp only: fold_group_some group_fold_lookup grouped_def)
qed (simp only: fold_group_some group_fold_invar)

lemma group_by_node_invar [simp]: "bt_invar (group_by_node ts)"
  by (simp only: group_by_node_def group_some_invar)

lemma group_by_node_lookup:
  "map_of (group_by_node ts) n =
   grouped (\<lambda>n. filter (\<lambda>t. \<not> is_removing t \<and> task_node_id t = Some n) ts) n"
proof -
  have "filter (\<lambda>t. task_node_id t = Some n) (filter (\<lambda>t. \<not> is_removing t) ts) =
      filter (\<lambda>t. \<not> is_removing t \<and> task_node_id t = Some n) ts"
    unfolding filter_filter by (rule filter_cong) auto
  then show ?thesis
    by (simp only: group_by_node_def group_some_lookup grouped_def)
qed

text \<open>A selection from each group has no duplicates.\<close>

lemma distinct_groups:
  assumes "distinct (keys_of m)" "\<And>k g. (k, g) \<in> set m \<Longrightarrow> distinct g \<and> (\<forall>t \<in> set g. key t = Some k)"
    and "\<And>k g. distinct g \<Longrightarrow> distinct (f k g)" "\<And>k g. set (f k g) \<subseteq> set g"
  shows "distinct (concat (map (\<lambda>(k, g). f k g) m))"
  using assms(1,2)
proof (induction m)
  case (Cons e m)
  obtain k g where e: "e = (k, g)"
    by fastforce
  have "distinct (concat (map (\<lambda>(k, g). f k g) m))"
    by (rule Cons.IH) (use Cons.prems in \<open>auto simp: e\<close>)
  moreover have g: "distinct g" "\<forall>t \<in> set g. key t = Some k"
    using Cons.prems(2) [of k g] by (simp_all add: e)
  moreover have "set (f k g) \<inter> set (concat (map (\<lambda>(k, g). f k g) m)) = {}"
  proof -
    have "key t \<noteq> Some k" if "(k', g') \<in> set m" "t \<in> set (f k' g')" for k' g' t
    proof -
      have "key t = Some k'" "k' \<noteq> k"
        using Cons.prems that assms(4) [of k' g'] by (force simp: e)+
      then show ?thesis by simp
    qed
    then show ?thesis
      using g(2) assms(4) [of k g] by fastforce
  qed
  ultimately show ?case
    using assms(3) by (simp add: e)
qed simp

section \<open>Occupied and free slots\<close>

text \<open>The slots of a list of tasks: those of the tasks not on their way out.\<close>

definition task_slots :: "task list \<Rightarrow> nat set" where
  "task_slots ts = task_slot ` {t \<in> set ts. \<not> is_removing t}"

lemma group_entry:
  "(s, g) \<in> set (group_by_slot ts) \<longleftrightarrow>
     g = filter (\<lambda>t. \<not> is_removing t \<and> task_slot t = s) ts \<and> g \<noteq> []"
  using bt.mem_iff [OF group_by_slot_invar, of s g ts]
  by (auto simp: group_by_slot_lookup grouped_def split: if_splits)

lemma group_not_empty: "(s, g) \<in> set (group_by_slot ts) \<Longrightarrow> classify_slot g \<noteq> Empty"
  by (auto simp: group_entry classify_slot_def list_all_iff filter_empty_conv)

lemma occupied_all: "occupied_slots (group_by_slot ts) = keys_of (group_by_slot ts)"
proof -
  have "filter (\<lambda>(_, g). classify_slot g \<noteq> Empty) (group_by_slot ts) = group_by_slot ts"
    using group_not_empty by (auto simp: filter_id_conv)
  then show ?thesis
    by (simp add: occupied_slots_def)
qed

lemma set_occupied: "set (occupied_slots (group_by_slot ts)) = task_slots ts"
proof (intro set_eqI iffI)
  fix s assume "s \<in> set (occupied_slots (group_by_slot ts))"
  then obtain g where "(s, g) \<in> set (group_by_slot ts)"
    by (auto simp: occupied_all)
  then show "s \<in> task_slots ts"
    by (auto simp: group_entry task_slots_def filter_empty_conv)
next
  fix s assume "s \<in> task_slots ts"
  then have "filter (\<lambda>t. \<not> is_removing t \<and> task_slot t = s) ts \<noteq> []"
    by (auto simp: task_slots_def filter_empty_conv)
  then have "(s, filter (\<lambda>t. \<not> is_removing t \<and> task_slot t = s) ts) \<in> set (group_by_slot ts)"
    by (simp add: group_entry)
  then show "s \<in> set (occupied_slots (group_by_slot ts))"
    unfolding occupied_all by force
qed

lemma occupied_sorted: "sorted_wrt (<) (occupied_slots (group_by_slot ts))"
  using group_by_slot_invar [of ts] by (simp add: occupied_all bt_invar_def)

lemma occupied_distinct [simp]: "distinct (occupied_slots (group_by_slot ts))"
  using occupied_sorted [of ts] by (simp add: strict_sorted_iff)

lemma length_occupied: "length (occupied_slots (group_by_slot ts)) = card (task_slots ts)"
  by (metis distinct_card occupied_distinct set_occupied)

lemma free_from_unfold:
  "free_from occ slot 0 = []"
  "slot \<in> set occ \<Longrightarrow> 0 < n \<Longrightarrow> free_from occ slot n = free_from occ (Suc slot) n"
  "slot \<notin> set occ \<Longrightarrow> 0 < n \<Longrightarrow> free_from occ slot n = slot # free_from occ (Suc slot) (n - 1)"
  by (subst free_from.simps, simp)+

lemma free_from_length [simp]: "length (free_from occ slot n) = n"
proof (induction occ slot n rule: free_from.induct)
  case (1 occ slot n)
  then show ?case
    by (cases "n = 0"; cases "slot \<in> set occ") (simp_all add: free_from_unfold)
qed

lemma free_from_mem: "x \<in> set (free_from occ slot n) \<Longrightarrow> slot \<le> x \<and> x \<notin> set occ"
proof (induction occ slot n rule: free_from.induct)
  case (1 occ slot n)
  consider "n = 0" | "n \<noteq> 0" "slot \<in> set occ" | "n \<noteq> 0" "slot \<notin> set occ"
    by blast
  then show ?case
  proof cases
    case 2
    with 1 show ?thesis by (simp add: free_from_unfold(2) Suc_leD)
  next
    case 3
    with 1 show ?thesis by (auto simp: free_from_unfold(3) Suc_leD)
  qed (use 1 in \<open>simp add: free_from_unfold\<close>)
qed

lemma free_from_sorted: "sorted_wrt (<) (free_from occ slot n)"
proof (induction occ slot n rule: free_from.induct)
  case (1 occ slot n)
  have "slot < x" if "x \<in> set (free_from occ (Suc slot) m)" for x m
    using free_from_mem [OF that] by simp
  with 1 show ?case
    by (cases "n = 0"; cases "slot \<in> set occ") (simp_all add: free_from_unfold)
qed

lemma free_from_lowest:
  "x \<in> set (free_from occ slot n) \<Longrightarrow> slot \<le> y \<Longrightarrow> y < x \<Longrightarrow> y \<notin> set occ \<Longrightarrow>
   y \<in> set (free_from occ slot n)"
proof (induction occ slot n rule: free_from.induct)
  case (1 occ slot n)
  consider "n = 0" | "n \<noteq> 0" "slot \<in> set occ" | "n \<noteq> 0" "slot \<notin> set occ"
    by blast
  then show ?case
  proof cases
    case 2
    then have "Suc slot \<le> y"
      using "1.prems" by (metis le_neq_implies_less Suc_leI)
    with 1 2 show ?thesis by (simp add: free_from_unfold(2))
  next
    case 3
    show ?thesis
    proof (cases "y = slot")
      case False
      with "1.prems" have "Suc slot \<le> y" "x \<noteq> slot"
        by auto
      with 1 3 show ?thesis by (simp add: free_from_unfold(3))
    qed (use 3 in \<open>simp add: free_from_unfold(3)\<close>)
  qed (use 1 in \<open>simp add: free_from_unfold\<close>)
qed

lemma free_slots_distinct: "distinct (free_slots occ n limit)"
  using free_from_sorted [of occ 1 "min n limit"] by (simp add: free_slots_def strict_sorted_iff)

lemma free_slots_free: "x \<in> set (free_slots occ n limit) \<Longrightarrow> 0 < x \<and> x \<notin> set occ"
  using free_from_mem [of x occ 1 "min n limit"] by (simp add: free_slots_def)

lemma free_slots_lowest:
  "x \<in> set (free_slots occ n limit) \<Longrightarrow> 0 < y \<Longrightarrow> y < x \<Longrightarrow> y \<notin> set occ \<Longrightarrow>
   y \<in> set (free_slots occ n limit)"
  using free_from_lowest [of x occ 1 "min n limit" y] by (simp add: free_slots_def)

lemma free_slots_length [simp]: "length (free_slots occ n limit) = min n limit"
  by (simp add: free_slots_def)

section \<open>Scale-down order\<close>

definition rank_order :: "slot_rank \<Rightarrow> bool \<times> nat \<times> nat" where
  "rank_order r = (\<not> rank_running r, rank_copy r, rank_slot r)"

lemma compare_ranks_key: "compare_ranks a b = cmp (rank_order a) (rank_order b)"
  by (cases "rank_running a"; cases "rank_running b")
     (auto simp: compare_ranks_def rank_order_def cmp_def less_prod_def')

interpretation slot_order: total_cmp compare_ranks
  unfolding compare_ranks_key by (rule total_cmp_key)

lemma number_copies_same [simp]:
  "map rank_slot (number_copies m cs) = map rank_slot cs"
  "length (number_copies m cs) = length cs"
  by (induction cs arbitrary: m) (simp_all add: Let_def)

lemma number_copies_nth:
  "bt_invar m \<Longrightarrow> i < length cs \<Longrightarrow>
   number_copies m cs ! i = (cs ! i)\<lparr>rank_copy :=
     (case map_of m (rank_node (cs ! i)) of None \<Rightarrow> 0 | Some n \<Rightarrow> n) +
     length (filter (\<lambda>c. rank_node c = rank_node (cs ! i)) (take i cs))\<rparr>"
proof (induction cs arbitrary: m i)
  case (Cons c cs)
  let ?n = "case map_of m (rank_node c) of None \<Rightarrow> 0 | Some n \<Rightarrow> n"
  let ?m = "bt_insert (rank_node c) (Suc ?n) m"
  show ?case
  proof (cases i)
    case (Suc j)
    have "bt_invar ?m" "j < length cs"
      using Cons.prems Suc by (simp_all add: bt_insert_invar)
    from Cons.IH [OF this] show ?thesis
      using Suc Cons.prems(1) by (simp add: Let_def bt_lookup_insert)
  qed (simp add: Let_def)
qed simp

text \<open>The rank of a slot, from the tasks alone.\<close>

definition slot_serving :: "task list \<Rightarrow> nat \<Rightarrow> bool" where
  "slot_serving ts s \<longleftrightarrow> (\<exists>t \<in> set ts. task_slot t = s \<and> is_serving t)"

definition slot_node :: "task list \<Rightarrow> nat \<Rightarrow> id option" where
  "slot_node ts s = first_node (filter (\<lambda>t. \<not> is_removing t \<and> task_slot t = s) ts)"

definition slot_copies :: "task list \<Rightarrow> nat \<Rightarrow> nat" where
  "slot_copies ts s = card {s' \<in> task_slots ts. 0 < s' \<and> s' < s \<and> slot_node ts s' = slot_node ts s}"

definition slot_priority :: "task list \<Rightarrow> nat \<Rightarrow> bool \<times> nat \<times> nat" where
  "slot_priority ts s = (\<not> slot_serving ts s, slot_copies ts s, s)"

lemma slot_rank_of_group:
  "slot_rank_of (group_by_slot ts) s =
     \<lparr>rank_slot = s, rank_running = slot_serving ts s, rank_node = slot_node ts s, rank_copy = 0\<rparr>"
proof -
  have "list_ex is_serving (filter (\<lambda>t. \<not> is_removing t \<and> task_slot t = s) ts) \<longleftrightarrow> slot_serving ts s"
    by (auto simp: slot_serving_def list_ex_iff is_serving_def)
  then show ?thesis
    by (cases "filter (\<lambda>t. \<not> is_removing t \<and> task_slot t = s) ts = []")
       (simp_all add: slot_rank_of_def group_by_slot_lookup grouped_def slot_node_def)
qed

lemma take_strict_sorted:
  "sorted_wrt (<) xs \<Longrightarrow> i < length xs \<Longrightarrow> set (take i xs) = {x \<in> set xs. x < (xs ! i :: nat)}"
proof (induction xs arbitrary: i)
  case (Cons y ys)
  show ?case
  proof (cases i)
    case (Suc j)
    with Cons show ?thesis
      by auto
  qed (use Cons in auto)
qed simp

definition candidates_of :: "task list \<Rightarrow> slot_rank list" where
  "candidates_of ts = number_copies [] (map (slot_rank_of (group_by_slot ts))
     (filter (\<lambda>s. s \<noteq> 0) (occupied_slots (group_by_slot ts))))"

lemma candidates_slots:
  "map rank_slot (candidates_of ts) = filter (\<lambda>s. s \<noteq> 0) (occupied_slots (group_by_slot ts))"
  by (simp add: candidates_of_def slot_rank_of_def comp_def)

lemma candidates_rank:
  assumes "c \<in> set (candidates_of ts)"
  shows "rank_order c = slot_priority ts (rank_slot c)"
proof -
  define nz where "nz = filter (\<lambda>s. s \<noteq> 0) (occupied_slots (group_by_slot ts))"
  have cand: "candidates_of ts = number_copies [] (map (slot_rank_of (group_by_slot ts)) nz)"
    by (simp only: candidates_of_def nz_def)
  then obtain i where i: "i < length nz" "c = candidates_of ts ! i"
    using assms by (auto simp: in_set_conv_nth)
  have nz: "sorted_wrt (<) nz" "distinct nz" "set nz = task_slots ts - {0}"
    using occupied_sorted [of ts] unfolding nz_def by (auto simp: sorted_wrt_filter set_occupied)
  have "set (take i nz) = {s' \<in> task_slots ts. 0 < s' \<and> s' < nz ! i}"
    using take_strict_sorted [OF nz(1) i(1)] unfolding nz(3) by auto
  then have copies: "length (filter (\<lambda>s'. slot_node ts s' = slot_node ts (nz ! i)) (take i nz)) =
      slot_copies ts (nz ! i)"
    using distinct_card [of "filter (\<lambda>s'. slot_node ts s' = slot_node ts (nz ! i)) (take i nz)"] nz(2)
    by (simp add: slot_copies_def)
  have "c = (slot_rank_of (group_by_slot ts) (nz ! i))\<lparr>rank_copy := slot_copies ts (nz ! i)\<rparr>"
    unfolding i(2) cand using i(1)
    by (subst number_copies_nth)
       (simp_all add: bt.invar_empty take_map filter_map comp_def slot_rank_of_group copies)
  then show ?thesis
    by (simp add: rank_order_def slot_priority_def slot_rank_of_group)
qed

lemma slots_to_remove_def':
  "slots_to_remove (group_by_slot ts) (occupied_slots (group_by_slot ts)) n =
     sort (filter (\<lambda>s. s = 0) (occupied_slots (group_by_slot ts)) @
       map rank_slot (drop n (sort_by compare_ranks (candidates_of ts))))"
  by (simp add: slots_to_remove_def candidates_of_def Let_def)

text \<open>The slots a scale-down to \<open>n\<close> gives up, and those it keeps.\<close>

definition doomed_slots :: "task list \<Rightarrow> nat \<Rightarrow> nat set" where
  "doomed_slots ts n = set (slots_to_remove (group_by_slot ts) (occupied_slots (group_by_slot ts)) n)"

definition kept_slots :: "task list \<Rightarrow> nat \<Rightarrow> nat set" where
  "kept_slots ts n = task_slots ts - doomed_slots ts n"

lemma ranked_slots:
  "distinct (map rank_slot (sort_by compare_ranks (candidates_of ts)))"
  "set (map rank_slot (sort_by compare_ranks (candidates_of ts))) = task_slots ts - {0}"
  "length (candidates_of ts) = card (task_slots ts - {0})"
proof -
  let ?sorted = "sort_by compare_ranks (candidates_of ts)"
  have eq: "mset (map rank_slot ?sorted) =
      mset (filter (\<lambda>s. s \<noteq> 0) (occupied_slots (group_by_slot ts)))"
    unfolding candidates_slots [symmetric] mset_map mset_sort_by ..
  show dist: "distinct (map rank_slot ?sorted)"
    using mset_eq_imp_distinct_iff [OF eq] by simp
  have "set (map rank_slot ?sorted) = set (filter (\<lambda>s. s \<noteq> 0) (occupied_slots (group_by_slot ts)))"
    by (rule mset_eq_setD [OF eq])
  then show set: "set (map rank_slot ?sorted) = task_slots ts - {0}"
    unfolding set_filter set_occupied by blast
  show "length (candidates_of ts) = card (task_slots ts - {0})"
    using distinct_card [OF dist] unfolding set by simp
qed

lemma doomed_iff:
  "doomed_slots ts n = (task_slots ts \<inter> {0}) \<union>
     set (map rank_slot (drop n (sort_by compare_ranks (candidates_of ts))))"
  by (auto simp: doomed_slots_def slots_to_remove_def' set_occupied)

lemma kept_iff:
  "kept_slots ts n = set (map rank_slot (take n (sort_by compare_ranks (candidates_of ts))))"
proof -
  let ?slots = "map rank_slot (sort_by compare_ranks (candidates_of ts))"
  have "set (take n ?slots) \<inter> set (drop n ?slots) = {}"
    using ranked_slots(1) by (rule set_take_disj_set_drop_if_distinct) simp
  moreover have "set (take n ?slots) \<union> set (drop n ?slots) = task_slots ts - {0}"
    using ranked_slots(2) [of ts] by (metis append_take_drop_id set_append)
  ultimately show ?thesis
    unfolding kept_slots_def doomed_iff take_map drop_map by blast
qed

lemma card_kept: "card (kept_slots ts n) = min n (card (task_slots ts - {0}))"
proof -
  have "distinct (take n (map rank_slot (sort_by compare_ranks (candidates_of ts))))"
    using ranked_slots(1) by (rule distinct_take)
  from distinct_card [OF this] show ?thesis
    unfolding kept_iff take_map by (simp add: ranked_slots(3) min.commute)
qed

lemma kept_before_doomed:
  assumes "a \<in> kept_slots ts n" "b \<in> doomed_slots ts n" "b \<noteq> 0"
  shows "slot_priority ts a < slot_priority ts b"
proof -
  let ?sorted = "sort_by compare_ranks (candidates_of ts)"
  obtain x where x: "x \<in> set (take n ?sorted)" "a = rank_slot x"
    using assms(1) unfolding kept_iff by auto
  obtain y where y: "y \<in> set (drop n ?sorted)" "b = rank_slot y"
    using assms(2,3) unfolding doomed_iff by auto
  have "sorted_wrt (\<lambda>x y. compare_ranks x y \<noteq> Greater) (take n ?sorted @ drop n ?sorted)"
    using slot_order.sorted_sort_by [of "candidates_of ts"] by (simp only: append_take_drop_id)
  then have "compare_ranks x y \<noteq> Greater"
    using x(1) y(1) unfolding sorted_wrt_append by blast
  then have "rank_order x \<le> rank_order y"
    by (simp add: compare_ranks_key cmp_def split: if_splits)
  moreover have "x \<in> set (candidates_of ts)" "y \<in> set (candidates_of ts)"
    using in_set_takeD [OF x(1)] in_set_dropD [OF y(1)] by simp_all
  ultimately have "slot_priority ts a \<le> slot_priority ts b"
    by (simp add: candidates_rank x(2) y(2))
  moreover have "a \<noteq> b"
    using assms(1,2) by (auto simp: kept_slots_def)
  ultimately show ?thesis
    by (auto simp: slot_priority_def less_le)
qed

lemma doomed_subset: "doomed_slots ts n \<subseteq> task_slots ts"
proof -
  have "set (map rank_slot (drop n (sort_by compare_ranks (candidates_of ts)))) \<subseteq> task_slots ts"
    using ranked_slots(2) [of ts] set_drop_subset [of n "map rank_slot (sort_by compare_ranks (candidates_of ts))"]
    by (auto simp: drop_map)
  then show ?thesis
    unfolding doomed_iff by blast
qed

lemma zero_doomed: "0 \<in> task_slots ts \<Longrightarrow> 0 \<in> doomed_slots ts n"
  by (simp add: doomed_iff)

lemma zero_not_kept: "0 \<notin> kept_slots ts n"
  using zero_doomed by (auto simp: kept_slots_def)

text \<open>
  C36. A scale-down to \<open>n\<close> keeps exactly \<open>n\<close> slots (or all, when there are fewer), never slot 0, and
  keeps the right ones: whatever it keeps comes before whatever it gives up, serving slots first,
  then by how many lower slots of the service sit on the same node, then by number. So no serving
  slot is given up for an idle one, and on one node the higher slot goes first.
\<close>

theorem scale_down_keeps_best:
  "0 \<notin> kept_slots ts n \<and> card (kept_slots ts n) = min n (card (task_slots ts - {0})) \<and>
   kept_slots ts n \<union> doomed_slots ts n = task_slots ts \<and>
   (\<forall>a \<in> kept_slots ts n. \<forall>b \<in> doomed_slots ts n - {0}. slot_priority ts a < slot_priority ts b)"
proof -
  have "kept_slots ts n \<union> doomed_slots ts n = task_slots ts"
    using doomed_subset [of ts n] by (auto simp: kept_slots_def)
  then show ?thesis
    using zero_not_kept card_kept kept_before_doomed by blast
qed

definition w_slots :: "task list" where
  "w_slots = [sample_task ''a'' ''svc'' 1 task_state.Failed desired_state.Running,
     sample_task ''b'' ''svc'' 2 task_state.Running desired_state.Running,
     sample_task ''c'' ''svc'' 3 task_state.Running desired_state.Running]"

theorem scale_down_keeps_best_witness:
  "1 \<in> doomed_slots w_slots 2 \<and> 2 \<in> kept_slots w_slots 2 \<and>
   slot_priority w_slots 2 < slot_priority w_slots 1"
proof -
  have "1 \<in> doomed_slots w_slots 2" "2 \<in> kept_slots w_slots 2"
    unfolding kept_slots_def by code_simp+
  then show ?thesis
    using scale_down_keeps_best [of w_slots 2] by simp
qed

end
