(* ===== verification/Orch_Loops.thy ===== *)
theory Orch_Loops
  imports Orch_Propose Orch_Task_Proofs
begin

text \<open>
  What the control loops' proofs share: the tasks of a well-formed store, transactions that update
  stored tasks and create new ones, and the tasks such a transaction leaves.
\<close>

section \<open>Tasks of a store\<close>

lemma store_map_task: "store_map s (object_kind.Task, i) = map_option store_object.Task (view_task s i)"
  by (simp add: store_map_def get_object_def view_task_def)

lemma store_map_service:
  "store_map s (object_kind.Service, i) = map_option store_object.Service (view_service s i)"
  by (simp add: store_map_def get_object_def view_service_def)

lemma store_map_node: "store_map s (object_kind.Node, i) = map_option store_object.Node (view_node s i)"
  by (simp add: store_map_def get_object_def view_node_def)

lemma wf_tasks_distinct: "store_wf s \<Longrightarrow> hm_invar (st_tasks s)"
  by (simp add: store_wf_def maps_distinct_def)

lemma view_task_id:
  assumes "store_wf s" "view_task s i = Some t"
  shows "task_id t = i"
proof -
  have "get_object s object_kind.Task i = Some (store_object.Task t)"
    using assms(2) by (simp add: get_object_def view_task_def)
  then have "obj_key (store_object.Task t) = (object_kind.Task, i)"
    using assms(1) by (simp only: store_wf_def well_keyed_def)
  then show ?thesis
    by (simp add: obj_id_def)
qed

lemma view_service_id:
  assumes "store_wf s" "view_service s i = Some svc"
  shows "service_id svc = i"
proof -
  have "get_object s object_kind.Service i = Some (store_object.Service svc)"
    using assms(2) by (simp add: get_object_def view_service_def)
  then have "obj_key (store_object.Service svc) = (object_kind.Service, i)"
    using assms(1) by (simp only: store_wf_def well_keyed_def)
  then show ?thesis
    by (simp add: obj_id_def)
qed

lemma view_tasks_iff:
  assumes "store_wf s"
  shows "t \<in> set (view_tasks s) \<longleftrightarrow> view_task s (task_id t) = Some t"
proof -
  have "t \<in> set (view_tasks s) \<longleftrightarrow> (\<exists>i. view_task s i = Some t)"
    using hm.values_mem [OF wf_tasks_distinct [OF assms], of t]
    unfolding view_tasks_def view_task_def .
  then show ?thesis
    using view_task_id [OF assms] by blast
qed

lemma view_tasks_unique:
  assumes "store_wf s" "t \<in> set (view_tasks s)" "u \<in> set (view_tasks s)" "task_id t = task_id u"
  shows "t = u"
  using assms by (simp add: view_tasks_iff)

lemma view_tasks_distinct:
  assumes "store_wf s"
  shows "distinct (map task_id (view_tasks s))" "distinct (view_tasks s)"
proof -
  have entry: "task_id t = i" if "(i, t) \<in> set (st_tasks s)" for i t
    using that view_task_id [OF assms] hm.mem_iff [OF wf_tasks_distinct [OF assms]]
    by (simp add: view_task_def)
  have "map task_id (view_tasks s) = keys_of (st_tasks s)"
    unfolding view_tasks_def map_map by (rule map_cong [OF refl]) (use entry in auto)
  then show "distinct (map task_id (view_tasks s))"
    using wf_tasks_distinct [OF assms] by (simp add: hm_invar_def)
  then show "distinct (view_tasks s)"
    by (simp add: distinct_map)
qed

section \<open>Transactions on tasks\<close>

definition stamp_task :: "version \<Rightarrow> task \<Rightarrow> task" where
  "stamp_task v t = t\<lparr>task_meta := (task_meta t)\<lparr>meta_version := v\<rparr>\<rparr>"

lemma stamp_task_simps [simp]:
  "task_id (stamp_task v t) = task_id t" "task_slot (stamp_task v t) = task_slot t"
  "task_service_id (stamp_task v t) = task_service_id t"
  "task_node_id (stamp_task v t) = task_node_id t"
  "task_desired_state (stamp_task v t) = task_desired_state t"
  "task_status (stamp_task v t) = task_status t"
  "is_removing (stamp_task v t) = is_removing t"
  by (simp_all add: stamp_task_def is_removing_def)

lemma task_object_simps [simp]:
  "obj_key (store_object.Task t) = (object_kind.Task, task_id t)"
  "object_version (store_object.Task t) = meta_version (task_meta t)"
  "stamp_spec_version old v (stamp_version v (store_object.Task t)) = store_object.Task (stamp_task v t)"
  by (simp_all add: obj_kind_def obj_id_def object_version_def stamp_version_def
      stamp_spec_version_def stamp_task_def)

text \<open>The object a task action leaves.\<close>

fun task_result :: "version \<Rightarrow> store_action \<Rightarrow> task option" where
  "task_result v (Create (store_object.Task t)) = Some (stamp_task v t)"
| "task_result v (Update (store_object.Task t)) = Some (stamp_task v t)"
| "task_result v _ = None"

definition task_actions :: "store_action list \<Rightarrow> bool" where
  "task_actions acts \<longleftrightarrow> (\<forall>a \<in> set acts. fst (action_key a) = object_kind.Task)"

lemma task_action_result:
  assumes "fst (action_key a) = object_kind.Task"
  shows "action_result v m a = map_option store_object.Task (task_result v a)"
proof (cases a)
  case (Create obj)
  with assms show ?thesis by (cases obj) (simp_all add: obj_kind_def)
next
  case (Update obj)
  with assms show ?thesis by (cases obj) (simp_all add: obj_kind_def)
qed simp

lemma result_map_other:
  "key \<notin> set (map action_key acts) \<Longrightarrow> result_map v m acts key = m key"
  unfolding result_map_def by (simp add: map_of_eq_None_iff [THEN iffD2] image_image)

lemma result_map_mem:
  assumes "distinct (map action_key acts)" "a \<in> set acts"
  shows "result_map v m acts (action_key a) = action_result v m a"
proof -
  have "map_of (map (\<lambda>a. (action_key a, action_result v m a)) acts) (action_key a) =
      Some (action_result v m a)"
    using assms by (intro map_of_is_SomeI) (simp_all add: comp_def image_iff, blast)
  then show ?thesis
    by (simp add: result_map_def)
qed

text \<open>The tasks after a transaction: those it does not name, and what its actions leave.\<close>

lemma tasks_after:
  assumes wf: "store_wf s" "store_wf s'" and tx: "independent_tx (store_map s) acts"
    and eff: "store_map s' = result_map v (store_map s) acts" and tasks: "task_actions acts"
  shows "set (view_tasks s') =
    {t \<in> set (view_tasks s). (object_kind.Task, task_id t) \<notin> set (map action_key acts)} \<union>
    {t. \<exists>a \<in> set acts. task_result v a = Some t}"
proof (intro set_eqI)
  fix t :: task
  let ?key = "(object_kind.Task, task_id t)"
  have in': "t \<in> set (view_tasks s') \<longleftrightarrow> result_map v (store_map s) acts ?key = Some (store_object.Task t)"
    by (simp only: view_tasks_iff [OF wf(2)] eff [symmetric] store_map_task map_option_eq_Some) auto
  have dist: "distinct (map action_key acts)"
    using tx by (simp add: independent_tx_def)
  have key: "task_id u = snd (action_key a)" if "task_result v a = Some u" for u a
    using that by (cases "(v, a)" rule: task_result.cases) auto
  show "t \<in> set (view_tasks s') \<longleftrightarrow> t \<in>
    {t \<in> set (view_tasks s). (object_kind.Task, task_id t) \<notin> set (map action_key acts)} \<union>
    {t. \<exists>a \<in> set acts. task_result v a = Some t}"
  proof (cases "?key \<in> set (map action_key acts)")
    case True
    then obtain a where a: "a \<in> set acts" "action_key a = ?key"
      by auto
    have "t \<in> set (view_tasks s') \<longleftrightarrow> task_result v a = Some t"
      using result_map_mem [OF dist a(1), of v "store_map s"] task_action_result [of a v] a(2)
      unfolding in' by auto
    moreover have "b = a" if "b \<in> set acts" "task_result v b = Some t" for b
    proof -
      have "action_key b = ?key"
        using key [OF that(2)] tasks that(1) unfolding task_actions_def by (metis prod.collapse)
      then show ?thesis
        using a that(1) dist by (metis distinct_map inj_onD)
    qed
    ultimately show ?thesis
      using True a(1) by auto
  next
    case False
    have "t \<in> set (view_tasks s') \<longleftrightarrow> t \<in> set (view_tasks s)"
      unfolding in' result_map_other [OF False] view_tasks_iff [OF wf(1)] store_map_task by auto
    moreover have "task_result v b \<noteq> Some t" if "b \<in> set acts" for b
      using key [of b t] tasks that False unfolding task_actions_def
      by (metis image_eqI list.set_map prod.collapse)
    ultimately show ?thesis
      using False by auto
  qed
qed

text \<open>Such a transaction changes nothing but tasks.\<close>

lemma others_after:
  assumes "store_map s' = result_map v (store_map s) acts" "task_actions acts" "k \<noteq> object_kind.Task"
  shows "store_map s' (k, i) = store_map s (k, i)"
proof -
  have "(k, i) \<notin> set (map action_key acts)"
  proof
    assume "(k, i) \<in> set (map action_key acts)"
    then obtain a where "a \<in> set acts" "fst (action_key a) = k"
      by (auto, metis fst_conv)
    then show False
      using assms(2,3) by (auto simp: task_actions_def)
  qed
  then show ?thesis
    unfolding assms(1) by (rule result_map_other)
qed

lemma services_after:
  assumes "store_map s' = result_map v (store_map s) acts" "task_actions acts"
  shows "view_service s' i = view_service s i"
  using others_after [OF assms, of object_kind.Service i] unfolding store_map_service
  by (cases "view_service s' i"; cases "view_service s i") simp_all

lemma nodes_after:
  assumes "store_map s' = result_map v (store_map s) acts" "task_actions acts"
  shows "view_node s' i = view_node s i"
  using others_after [OF assms, of object_kind.Node i] unfolding store_map_node
  by (cases "view_node s' i"; cases "view_node s i") simp_all

section \<open>Updates and creations\<close>

definition keeps_identity :: "(task \<Rightarrow> task) \<Rightarrow> bool" where
  "keeps_identity f \<longleftrightarrow> (\<forall>t. task_id (f t) = task_id t \<and>
     meta_version (task_meta (f t)) = meta_version (task_meta t))"

lemma updates_independent:
  assumes "store_wf s" "set ts \<subseteq> set (view_tasks s)" "distinct (map task_id ts)" "keeps_identity f"
  shows "independent_tx (store_map s) (map (\<lambda>t. Update (store_object.Task (f t))) ts)"
proof -
  have "map action_key (map (\<lambda>t. Update (store_object.Task (f t))) ts) =
      map (Pair object_kind.Task) (map task_id ts)"
    using assms(4) by (simp add: keeps_identity_def)
  then have "distinct (map action_key (map (\<lambda>t. Update (store_object.Task (f t))) ts))"
    using assms(3) by (simp add: distinct_map inj_on_def)
  moreover have "action_fits (store_map s) (Update (store_object.Task (f t)))" if "t \<in> set ts" for t
  proof -
    have "view_task s (task_id t) = Some t"
      using assms(1,2) that view_tasks_iff by blast
    then show ?thesis
      using assms(4) by (simp add: store_map_task keeps_identity_def)
  qed
  ultimately show ?thesis
    by (simp add: independent_tx_def list_all_iff)
qed

lemma creates_independent:
  assumes "distinct (map task_id ts)" "\<And>t. t \<in> set ts \<Longrightarrow> store_map s (object_kind.Task, task_id t) = None"
  shows "independent_tx (store_map s) (map (\<lambda>t. Create (store_object.Task t)) ts)"
proof -
  have "map action_key (map (\<lambda>t. Create (store_object.Task t)) ts) =
      map (Pair object_kind.Task) (map task_id ts)"
    by simp
  then have "distinct (map action_key (map (\<lambda>t. Create (store_object.Task t)) ts))"
    using assms(1) by (simp add: distinct_map inj_on_def)
  then show ?thesis
    using assms(2) by (simp add: independent_tx_def list_all_iff)
qed

lemma independent_append:
  "independent_tx m (as @ bs) \<longleftrightarrow> independent_tx m as \<and> independent_tx m bs \<and>
     set (map action_key as) \<inter> set (map action_key bs) = {}"
  by (auto simp: independent_tx_def)

text \<open>A creation is never on the key of an update: what is created is not stored yet.\<close>

lemma update_create_disjoint:
  assumes "list_all (action_fits m) as" "list_all (action_fits m) bs"
    and "\<forall>a \<in> set as. \<exists>obj. a = Update obj \<or> (\<exists>k i. a = store_action.Remove k i)"
    and "\<forall>b \<in> set bs. \<exists>obj. b = Create obj"
  shows "set (map action_key as) \<inter> set (map action_key bs) = {}"
proof -
  have "m (action_key a) \<noteq> None" if "a \<in> set as" for a
    using assms(1,3) that by (fastforce simp: list_all_iff split: option.splits)
  moreover have "m (action_key b) = None" if "b \<in> set bs" for b
    using assms(2,4) that by (fastforce simp: list_all_iff)
  ultimately show ?thesis
    by auto (metis option.distinct(1))
qed

lemma applied_effect:
  assumes "apply_transaction s \<lparr>proposal_actions = acts\<rparr> index len =
      (proposal_response.Applied index, evs, s')" "independent_tx (store_map s) acts"
  shows "store_map s' = result_map index (store_map s) acts"
  using applied_spec [OF assms(1)] spec_actions_independent [OF assms(2), of index]
  by (auto simp: spec_transaction_def split: if_splits)

text \<open>Changing some stored tasks and creating others.\<close>

lemma tasks_after_changes:
  assumes wf: "store_wf s" "store_wf s'"
    and eff: "store_map s' = result_map v (store_map s)
      (map (\<lambda>t. Update (store_object.Task (f t))) ds @ map (\<lambda>t. Create (store_object.Task t)) ns)"
    and tx: "independent_tx (store_map s)
      (map (\<lambda>t. Update (store_object.Task (f t))) ds @ map (\<lambda>t. Create (store_object.Task t)) ns)"
    and ds: "set ds \<subseteq> set (view_tasks s)" and f: "keeps_identity f"
  shows "set (view_tasks s') =
    (set (view_tasks s) - set ds) \<union> (stamp_task v \<circ> f) ` set ds \<union> stamp_task v ` set ns"
proof -
  let ?acts = "map (\<lambda>t. Update (store_object.Task (f t))) ds @ map (\<lambda>t. Create (store_object.Task t)) ns"
  have id: "task_id (f t) = task_id t" for t
    using f by (simp add: keeps_identity_def)
  have keys: "(object_kind.Task, task_id t) \<in> set (map action_key ?acts) \<longleftrightarrow>
      task_id t \<in> task_id ` set ds \<union> task_id ` set ns" for t :: task
    by (auto simp: image_iff id)
  have results: "{t. \<exists>a \<in> set ?acts. task_result v a = Some t} =
      (stamp_task v \<circ> f) ` set ds \<union> stamp_task v ` set ns"
    by (auto simp: bex_Un)
  have "task_actions ?acts"
    by (simp add: task_actions_def ball_Un)
  from tasks_after [OF wf tx eff this]
  have tasks': "set (view_tasks s') = {t \<in> set (view_tasks s). task_id t \<notin> task_id ` set ds \<union> task_id ` set ns}
      \<union> ((stamp_task v \<circ> f) ` set ds \<union> stamp_task v ` set ns)"
    unfolding keys results .
  have new: "task_id t \<notin> task_id ` set ns" if "t \<in> set (view_tasks s)" for t
  proof
    assume "task_id t \<in> task_id ` set ns"
    then obtain u where u: "u \<in> set ns" "task_id t = task_id u"
      by auto
    then have "action_fits (store_map s) (Create (store_object.Task u))"
      using tx by (simp add: independent_tx_def list_all_iff ball_Un)
    then show False
      using that u(2) by (simp add: view_tasks_iff [OF wf(1)] store_map_task)
  qed
  have old: "task_id t \<in> task_id ` set ds \<longleftrightarrow> t \<in> set ds" if "t \<in> set (view_tasks s)" for t
    using that ds view_tasks_unique [OF wf(1)] by auto
  show ?thesis
    unfolding tasks' using new old by auto
qed

lemma updates_then_creates:
  assumes "store_wf s" "set ds \<subseteq> set (view_tasks s)" "distinct ds" "keeps_identity f"
    and "distinct (map task_id ns)" "\<And>t. t \<in> set ns \<Longrightarrow> store_map s (object_kind.Task, task_id t) = None"
  shows "independent_tx (store_map s)
    (map (\<lambda>t. Update (store_object.Task (f t))) ds @ map (\<lambda>t. Create (store_object.Task t)) ns)"
proof -
  have "distinct (map task_id ds)"
    using assms(2,3) view_tasks_unique [OF assms(1)] by (auto simp: distinct_map inj_on_def)
  note parts = updates_independent [OF assms(1,2) this assms(4)] creates_independent [OF assms(5,6)]
  then show ?thesis
    unfolding independent_append
    by (intro conjI update_create_disjoint [of "store_map s"]) (auto simp: independent_tx_def)
qed

text \<open>The same, of an applied transaction: what it leaves of the store.\<close>

lemma pass_changes:
  assumes wf: "store_wf s"
    and acts: "acts = map (\<lambda>t. Update (store_object.Task (f t))) ds @ map (\<lambda>t. Create (store_object.Task t)) ns"
    and tx: "apply_transaction s \<lparr>proposal_actions = acts\<rparr> index len =
      (proposal_response.Applied index, evs, s')"
    and indep: "independent_tx (store_map s) acts"
    and ds: "set ds \<subseteq> set (view_tasks s)" and f: "keeps_identity f"
  shows "store_wf s'"
    and "set (view_tasks s') =
      (set (view_tasks s) - set ds) \<union> (stamp_task index \<circ> f) ` set ds \<union> stamp_task index ` set ns"
    and "view_service s' i = view_service s i" and "view_node s' j = view_node s j"
proof -
  show wf': "store_wf s'"
    using apply_transaction_wf [OF wf tx] .
  have eff: "store_map s' = result_map index (store_map s) acts"
    using applied_effect [OF tx indep] .
  have task_acts: "task_actions acts"
    unfolding acts by (simp add: task_actions_def ball_Un)
  show "set (view_tasks s') =
      (set (view_tasks s) - set ds) \<union> (stamp_task index \<circ> f) ` set ds \<union> stamp_task index ` set ns"
    using tasks_after_changes [OF wf wf' eff [unfolded acts] indep [unfolded acts] ds f] .
  show "view_service s' i = view_service s i" "view_node s' j = view_node s j"
    using services_after [OF eff task_acts] nodes_after [OF eff task_acts] by simp_all
qed

text \<open>Stopping a task.\<close>

definition mark_shutdown :: "system_time \<Rightarrow> task \<Rightarrow> task" where
  "mark_shutdown now t = touch_task now (t\<lparr>task_desired_state := desired_state.Shutdown\<rparr>)"

abbreviation stopping :: "system_time \<Rightarrow> task \<Rightarrow> store_action" where
  "stopping now t \<equiv> Update (store_object.Task (mark_shutdown now t))"

lemma mark_shutdown_simps [simp]:
  "task_id (mark_shutdown now t) = task_id t"
  "task_service_id (mark_shutdown now t) = task_service_id t"
  "task_node_id (mark_shutdown now t) = task_node_id t"
  "task_slot (mark_shutdown now t) = task_slot t"
  "task_status (mark_shutdown now t) = task_status t"
  "task_desired_state (mark_shutdown now t) = desired_state.Shutdown"
  "keeps_identity (mark_shutdown now)"
  by (simp_all add: mark_shutdown_def touch_task_def keeps_identity_def)

lemma raise_shutdown_iff:
  "raise_desired_state now t desired_state.Shutdown =
     (if task_desired_state t < desired_state.Shutdown then Some (stopping now t) else None)"
  by (cases "task_desired_state t")
     (simp_all add: raise_desired_state_def update_task_def mark_shutdown_def order_defs)

lemma view_nodes_iff:
  assumes "store_wf s"
  shows "n \<in> set (view_nodes s) \<longleftrightarrow> view_node s (node_id n) = Some n"
proof -
  have id: "node_id n = i" if "view_node s i = Some n" for i
  proof -
    have "get_object s object_kind.Node i = Some (store_object.Node n)"
      using that by (simp add: get_object_def view_node_def)
    then have "obj_key (store_object.Node n) = (object_kind.Node, i)"
      using assms by (simp only: store_wf_def well_keyed_def)
    then show ?thesis
      by (simp add: obj_id_def)
  qed
  have "hm_invar (st_nodes s)"
    using assms by (simp add: store_wf_def maps_distinct_def)
  then have "n \<in> set (view_nodes s) \<longleftrightarrow> (\<exists>i. view_node s i = Some n)"
    using hm.values_mem [of "st_nodes s" n] unfolding view_nodes_def view_node_def by blast
  then show ?thesis
    using id by blast
qed

text \<open>The tasks a transaction creates.\<close>

definition created_task :: "store_action \<Rightarrow> task option" where
  "created_task a = (case a of Create (store_object.Task t) \<Rightarrow> Some t | _ \<Rightarrow> None)"

definition created_tasks :: "store_action list \<Rightarrow> task list" where
  "created_tasks acts = List.map_filter created_task acts"

lemma created_append [simp]: "created_tasks (xs @ ys) = created_tasks xs @ created_tasks ys"
  by (simp add: created_tasks_def map_filter_def)

lemma raise_creates_nothing:
  "a \<in> set (List.map_filter (\<lambda>t. raise_desired_state now t d) ts) \<Longrightarrow> created_task a = None"
  by (auto simp: set_map_filter raise_desired_state_def update_task_def created_task_def split: if_splits)

lemma created_none: "(\<And>a. a \<in> set acts \<Longrightarrow> created_task a = None) \<Longrightarrow> created_tasks acts = []"
  by (auto simp: created_tasks_def map_filter_def filter_empty_conv)

lemma created_raises: "created_tasks (List.map_filter (\<lambda>t. raise_desired_state now t d) ts) = []"
  by (rule created_none) (rule raise_creates_nothing)

section \<open>Loops that converge\<close>

text \<open>
  One pass of a loop: a derived transaction that is not empty, applied to the store it was derived
  from.
\<close>

inductive loop_pass ::
  "((nat \<Rightarrow> id) \<Rightarrow> system_time \<Rightarrow> ('lid, 'mem) store_inner \<Rightarrow> store_action list) \<Rightarrow>
   ('lid, 'mem) store_inner \<Rightarrow> ('lid, 'mem) store_inner \<Rightarrow> bool" for decide where
  pass: "fresh_ids fresh (store_map s) \<Longrightarrow> decide fresh now s \<noteq> [] \<Longrightarrow>
   apply_transaction s \<lparr>proposal_actions = decide fresh now s\<rparr> index len =
     (proposal_response.Applied index, evs, s') \<Longrightarrow>
   loop_pass decide s s'"

inductive_cases loop_passE: "loop_pass decide s s'"

text \<open>Ids the store does not hold exist in abundance.\<close>

lemma fresh_ids_exist: "\<exists>fresh. fresh_ids fresh (store_map (s :: ('lid, 'mem) store_inner))"
proof -
  have "finite (dom (map_of (st_tasks s)))"
    by (rule finite_dom_map_of)
  moreover have "infinite (UNIV :: id set)"
    by (rule infinite_UNIV_listI)
  ultimately have "infinite (- dom (map_of (st_tasks s)))"
    by (simp add: Compl_eq_Diff_UNIV)
  then obtain fresh :: "nat \<Rightarrow> id" where "inj fresh" "range fresh \<subseteq> - dom (map_of (st_tasks s))"
    using infinite_countable_subset by blast
  then have "map_of (st_tasks s) (fresh k) = None" for k
    by (auto simp: domIff subset_iff)
  with \<open>inj fresh\<close> show ?thesis
    by (auto simp: fresh_ids_def store_map_task view_task_def)
qed

lemma fresh_not_stored:
  assumes "store_wf s" "fresh_ids fresh (store_map s)"
  shows "fresh k \<notin> task_id ` set (view_tasks s)"
proof
  assume "fresh k \<in> task_id ` set (view_tasks s)"
  then obtain t where "view_task s (fresh k) = Some t"
    by (auto simp: view_tasks_iff [OF assms(1)])
  with assms(2) show False
    by (simp add: fresh_ids_def store_map_task)
qed

context control_loop
begin

lemma pass_exists:
  assumes wf: "store_wf s" and some: "\<And>fresh. decide fresh 0 s \<noteq> []"
  shows "\<exists>s'. loop_pass decide s s'"
proof -
  obtain fresh where fresh: "fresh_ids fresh (store_map s)"
    using fresh_ids_exist by blast
  obtain evs s' where "apply_transaction s \<lparr>proposal_actions = decide fresh 0 s\<rparr> 0 0 =
      (proposal_response.Applied 0, evs, s')"
    using accepted [OF wf fresh, of 0 0 0] by auto
  from pass [where decide = decide, OF fresh some this] show ?thesis ..
qed

end

text \<open>
  A control loop converges when it has nothing to do exactly in the stores it aims at, and every
  applied pass brings the store closer.
\<close>

locale converging_loop = control_loop decide
  for decide :: "(nat \<Rightarrow> id) \<Rightarrow> system_time \<Rightarrow> ('lid, 'mem) store_inner \<Rightarrow> store_action list" +
  fixes inv :: "('lid, 'mem) store_inner \<Rightarrow> bool"
    and goal :: "('lid, 'mem) store_inner \<Rightarrow> bool"
    and dist :: "('lid, 'mem) store_inner \<Rightarrow> nat"
  assumes inv_wf: "inv s \<Longrightarrow> store_wf s"
    and idle: "inv s \<Longrightarrow> decide fresh now s = [] \<longleftrightarrow> goal s"
    and progress: "inv s \<Longrightarrow> fresh_ids fresh (store_map s) \<Longrightarrow> decide fresh now s \<noteq> [] \<Longrightarrow>
      apply_transaction s \<lparr>proposal_actions = decide fresh now s\<rparr> index len =
        (proposal_response.Applied index, evs, s') \<Longrightarrow> inv s' \<and> dist s' < dist s"
begin

lemma pass_progress: "inv s \<Longrightarrow> loop_pass decide s s' \<Longrightarrow> inv s' \<and> dist s' < dist s"
  by (elim loop_passE) (rule progress)

lemma pass_possible:
  assumes "inv s" "\<not> goal s"
  shows "\<exists>s'. loop_pass decide s s'"
  using idle [OF assms(1)] assms(2) by (intro pass_exists [OF inv_wf [OF assms(1)]]) blast

lemma terminates:
  assumes "inv s"
  shows "\<nexists>f. f 0 = s \<and> (\<forall>i. loop_pass decide (f i) (f (Suc i)))"
proof
  assume "\<exists>f. f 0 = s \<and> (\<forall>i. loop_pass decide (f i) (f (Suc i)))"
  then obtain f where f: "f 0 = s" "\<And>i. loop_pass decide (f i) (f (Suc i))"
    by blast
  have "inv (f i) \<and> dist (f i) + i \<le> dist s" for i
  proof (induction i)
    case (Suc i)
    then show ?case
      using pass_progress [OF _ f(2), of i] by force
  qed (simp add: f(1) assms)
  from this [of "Suc (dist s)"] show False by simp
qed

lemma reaches:
  assumes "inv s"
  shows "\<exists>s'. (loop_pass decide)\<^sup>*\<^sup>* s s' \<and> inv s' \<and> goal s'"
  using assms
proof (induction "dist s" arbitrary: s rule: less_induct)
  case less
  show ?case
  proof (cases "goal s")
    case False
    then obtain s1 where s1: "loop_pass decide s s1"
      using pass_possible less.prems by blast
    with pass_progress [OF less.prems s1] less.hyps [of s1] show ?thesis
      by (meson converse_rtranclp_into_rtranclp)
  qed (use less.prems in blast)
qed

end

section \<open>Concrete stores\<close>

text \<open>The store one transaction makes of the empty one.\<close>

definition sample_store :: "store_action list \<Rightarrow> (nat, nat list) store_inner" where
  "sample_store acts = after (store_default nat_raft) (tx_entry 1 acts)"

lemma after_wf: "store_wf s \<Longrightarrow> store_wf (after s e)"
  unfolding after_def using apply_entry_wf by (metis prod.collapse)

lemma sample_store_wf: "store_wf (sample_store acts)"
  unfolding sample_store_def by (intro after_wf store_default_wf)

end
