(* ===== verification/Orch_Replicated.thy ===== *)
theory Orch_Replicated
  imports Orch_Task Orch_Propose
begin

text \<open>
  \<open>satl-orchestrator/src/replicated.rs\<close>: the reconciliation of replicated services. The ids of the
  tasks it creates come from the supply \<open>fresh\<close>, one for each created task in order; one reading
  of the clock serves a whole derivation.
\<close>

section \<open>Deriving a transaction\<close>

definition service_tasks :: "('lid, 'mem) store_inner \<Rightarrow> id \<Rightarrow> task list" where
  "service_tasks view sid = filter (\<lambda>t. task_service_id t = Some sid) (view_tasks view)"

definition remove_all :: "system_time \<Rightarrow> task list \<Rightarrow> store_action list" where
  "remove_all now tasks = take MAX_TX_ACTIONS
     (List.map_filter (\<lambda>t. raise_desired_state now t desired_state.Remove)
       (filter (\<lambda>t. \<not> is_removing t) tasks))"

definition scale_down_actions ::
  "system_time \<Rightarrow> (nat, task list) btree_map \<Rightarrow> nat list \<Rightarrow> store_action list" where
  "scale_down_actions now slots doomed = concat (map (\<lambda>s.
     List.map_filter (\<lambda>t. raise_desired_state now t desired_state.Remove)
       (case map_of slots s of None \<Rightarrow> [] | Some ts \<Rightarrow> ts)) doomed)"

definition fill_actions ::
  "(nat \<Rightarrow> id) \<Rightarrow> system_time \<Rightarrow> service \<Rightarrow> nat list \<Rightarrow> store_action list" where
  "fill_actions fresh now svc free = map (\<lambda>(k, s). Create (store_object.Task (new_task (fresh k) now svc s)))
     (enumerate 0 free)"

definition reconcile_actions ::
  "id \<Rightarrow> (nat \<Rightarrow> id) \<Rightarrow> system_time \<Rightarrow> ('lid, 'mem) store_inner \<Rightarrow> store_action list" where
  "reconcile_actions sid fresh now view =
     (let tasks = service_tasks view sid
      in case view_service view sid of
           None \<Rightarrow> remove_all now tasks
         | Some svc \<Rightarrow> (case sspec_mode (service_spec svc) of
             Replicated n \<Rightarrow>
               (let slots = group_by_slot tasks;
                    occ = occupied_slots slots;
                    doomed = slots_to_remove slots occ n;
                    kept = length occ - length doomed
                in take MAX_TX_ACTIONS
                     (scale_down_actions now slots doomed @
                      fill_actions fresh now svc (free_slots occ (n - kept) MAX_TX_ACTIONS)))
           | _ \<Rightarrow> []))"

section \<open>The loop\<close>

text \<open>
  \<open>ReplicatedOrchestrator\<close>: the services touched since the last commit marker (a \<open>BTreeSet\<close>, here a
  set; its order decides only the order of independent reconciliations) and the owner of each task.
\<close>

record replicated_orchestrator =
  ro_dirty :: "id set"
  ro_task_owner :: "(id, id) hash_map"

definition observe_object :: "store_object \<Rightarrow> replicated_orchestrator \<Rightarrow> replicated_orchestrator" where
  "observe_object obj ro = (case obj of
       store_object.Service svc \<Rightarrow> ro\<lparr>ro_dirty := insert (service_id svc) (ro_dirty ro)\<rparr>
     | store_object.Task t \<Rightarrow> (case task_service_id t of
         Some sid \<Rightarrow> ro\<lparr>ro_task_owner := hm_insert (task_id t) sid (ro_task_owner ro),
                       ro_dirty := insert sid (ro_dirty ro)\<rparr>
       | None \<Rightarrow> ro)
     | _ \<Rightarrow> ro)"

text \<open>The second component: the services reconciled on this event.\<close>

fun observe :: "store_event \<Rightarrow> replicated_orchestrator \<Rightarrow> replicated_orchestrator \<times> id set" where
  "observe (Created obj) ro = (observe_object obj ro, {})"
| "observe (Updated _ obj) ro = (observe_object obj ro, {})"
| "observe (store_event.Removed k i) ro = (case k of
       object_kind.Service \<Rightarrow> (ro\<lparr>ro_dirty := insert i (ro_dirty ro)\<rparr>, {})
     | object_kind.Task \<Rightarrow> (case map_of (ro_task_owner ro) i of
         Some sid \<Rightarrow> (ro\<lparr>ro_task_owner := hm_remove i (ro_task_owner ro),
                        ro_dirty := insert sid (ro_dirty ro)\<rparr>, {})
       | None \<Rightarrow> (ro, {}))
     | _ \<Rightarrow> (ro, {}))"
| "observe (Commit _) ro = (ro\<lparr>ro_dirty := {}\<rparr>, ro_dirty ro)"

definition full_pass_targets :: "('lid, 'mem) store_inner \<Rightarrow> id set" where
  "full_pass_targets view = set (map service_id (view_services view)) \<union>
     {sid \<in> set (List.map_filter task_service_id (view_tasks view)). view_service view sid = None}"

end
