(* ===== verification/Orch_Replicated_Proofs.thy ===== *)
theory Orch_Replicated_Proofs
  imports Orch_Replicated Orch_Loops
begin

text \<open>
  The replicated orchestrator keeps the contract of a control loop; a pass is accepted, changes
  only desired states to \<open>Remove\<close> and creates tasks; passes come to an end, and then exactly the
  wanted number of slots is occupied.
\<close>

section \<open>The derived transaction\<close>

definition mark_removed :: "system_time \<Rightarrow> task \<Rightarrow> task" where
  "mark_removed now t = touch_task now (t\<lparr>task_desired_state := desired_state.Remove\<rparr>)"

abbreviation removal :: "system_time \<Rightarrow> task \<Rightarrow> store_action" where
  "removal now t \<equiv> Update (store_object.Task (mark_removed now t))"

abbreviation creation :: "task \<Rightarrow> store_action" where
  "creation t \<equiv> Create (store_object.Task t)"

lemma mark_removed_simps [simp]:
  "task_id (mark_removed now t) = task_id t"
  "task_service_id (mark_removed now t) = task_service_id t"
  "is_removing (mark_removed now t)"
  "keeps_identity (mark_removed now)"
  by (simp_all add: mark_removed_def touch_task_def is_removing_def keeps_identity_def)

lemma raise_remove:
  "\<not> is_removing t \<Longrightarrow> raise_desired_state now t desired_state.Remove = Some (removal now t)"
  by (cases "task_desired_state t")
     (simp_all add: raise_desired_state_def update_task_def mark_removed_def is_removing_def order_defs)

lemma map_filter_raise:
  "list_all (\<lambda>t. \<not> is_removing t) ts \<Longrightarrow>
   List.map_filter (\<lambda>t. raise_desired_state now t desired_state.Remove) ts = map (removal now) ts"
  by (induction ts) (simp_all add: map_filter_simps raise_remove)

definition doomed_tasks :: "task list \<Rightarrow> nat list \<Rightarrow> task list" where
  "doomed_tasks ts ds = concat (map (\<lambda>s. filter (\<lambda>t. \<not> is_removing t \<and> task_slot t = s) ts) ds)"

lemma scale_down_map:
  "scale_down_actions now (group_by_slot ts) ds = map (removal now) (doomed_tasks ts ds)"
proof (induction ds)
  case (Cons d ds)
  let ?g = "filter (\<lambda>t. \<not> is_removing t \<and> task_slot t = d) ts"
  have "(case map_of (group_by_slot ts) d of None \<Rightarrow> [] | Some ts \<Rightarrow> ts) = ?g"
    by (simp add: group_by_slot_lookup grouped_def)
  moreover have "list_all (\<lambda>t. \<not> is_removing t) ?g"
    by (simp add: list_all_iff)
  ultimately show ?case
    using Cons by (simp add: scale_down_actions_def doomed_tasks_def map_filter_raise)
qed (simp add: scale_down_actions_def doomed_tasks_def)

lemma set_doomed_tasks:
  "set (doomed_tasks ts ds) = {t \<in> set ts. \<not> is_removing t \<and> task_slot t \<in> set ds}"
  by (auto simp: doomed_tasks_def)

lemma distinct_doomed_tasks:
  "distinct ts \<Longrightarrow> distinct ds \<Longrightarrow> distinct (doomed_tasks ts ds)"
proof (induction ds)
  case (Cons d ds)
  then show ?case
    using set_doomed_tasks [of ts ds] by (auto simp: doomed_tasks_def)
qed (simp add: doomed_tasks_def)

definition new_tasks :: "(nat \<Rightarrow> id) \<Rightarrow> system_time \<Rightarrow> service \<Rightarrow> nat list \<Rightarrow> task list" where
  "new_tasks fresh now svc free = map (\<lambda>(k, s). new_task (fresh k) now svc s) (enumerate 0 free)"

lemma fill_map: "fill_actions fresh now svc free = map creation (new_tasks fresh now svc free)"
  by (simp add: fill_actions_def new_tasks_def case_prod_beta)

lemma new_tasks_simps [simp]:
  "length (new_tasks fresh now svc free) = length free"
  "map task_slot (new_tasks fresh now svc free) = free"
  "map task_id (new_tasks fresh now svc free) = map fresh [0..<length free]"
proof -
  have "map task_id (new_tasks fresh now svc free) = map (fresh \<circ> fst) (enumerate 0 free)"
    by (simp add: new_tasks_def case_prod_beta new_task_def build_task_def Let_def comp_def)
  then show "map task_id (new_tasks fresh now svc free) = map fresh [0..<length free]"
    unfolding map_map [symmetric] map_fst_enumerate by simp
qed (simp_all add: new_tasks_def case_prod_beta new_task_def build_task_def Let_def comp_def
      enumerate_eq_zip)

lemma new_tasks_slots: "task_slot ` set (new_tasks fresh now svc free) = set free"
  by (metis new_tasks_simps(2) set_map)

lemma new_tasks_mem:
  assumes "t \<in> set (new_tasks fresh now svc free)"
  shows "task_service_id t = Some (service_id svc) \<and> \<not> is_removing t \<and> task_slot t \<in> set free"
proof -
  have "initial_desired_state spec \<noteq> desired_state.Remove" for spec
    by (simp add: initial_desired_state_def split: option.split)
  moreover have "task_slot t \<in> set (map task_slot (new_tasks fresh now svc free))"
    using assms by (simp del: new_tasks_simps)
  then have "task_slot t \<in> set free"
    by (simp only: new_tasks_simps)
  ultimately show ?thesis
    using assms
    by (auto simp: new_tasks_def new_task_def build_task_def Let_def is_removing_def)
qed

lemma new_tasks_take: "take k (new_tasks fresh now svc free) = new_tasks fresh now svc (take k free)"
  by (cases "k \<le> length free")
     (simp_all add: new_tasks_def take_map enumerate_eq_zip take_zip take_upt min_absorb2)

text \<open>The slots given up, the tasks in them and the slots filled, for a service of \<open>n\<close> replicas.\<close>

definition giving_up :: "task list \<Rightarrow> nat \<Rightarrow> nat list" where
  "giving_up ts n = slots_to_remove (group_by_slot ts) (occupied_slots (group_by_slot ts)) n"

definition filling :: "task list \<Rightarrow> nat \<Rightarrow> nat list" where
  "filling ts n = free_slots (occupied_slots (group_by_slot ts)) (n - card (kept_slots ts n)) MAX_TX_ACTIONS"

lemma giving_up_props: "set (giving_up ts n) = doomed_slots ts n" "distinct (giving_up ts n)"
proof -
  show "set (giving_up ts n) = doomed_slots ts n"
    by (simp add: giving_up_def doomed_slots_def)
  have "distinct (drop n (map rank_slot (sort_by compare_ranks (candidates_of ts))))"
    using ranked_slots(1) by (rule distinct_drop)
  moreover have "0 \<notin> set (map rank_slot (drop n (sort_by compare_ranks (candidates_of ts))))"
    using ranked_slots(2) [of ts] set_drop_subset [of n "map rank_slot (sort_by compare_ranks (candidates_of ts))"]
    by (auto simp: drop_map)
  ultimately show "distinct (giving_up ts n)"
    by (auto simp: giving_up_def slots_to_remove_def' drop_map)
qed

lemma kept_count:
  "length (occupied_slots (group_by_slot ts)) - length (giving_up ts n) = card (kept_slots ts n)"
proof -
  have "length (giving_up ts n) = card (doomed_slots ts n)"
    using distinct_card [OF giving_up_props(2)] by (simp add: giving_up_props(1))
  moreover have "card (kept_slots ts n) = card (task_slots ts) - card (doomed_slots ts n)"
    unfolding kept_slots_def using doomed_subset by (rule card_Diff_subset [rotated]) (simp add: doomed_slots_def)
  ultimately show ?thesis
    by (simp add: length_occupied)
qed

lemma reconcile_replicated:
  assumes "view_service s sid = Some svc" "sspec_mode (service_spec svc) = Replicated n"
  shows "reconcile_actions sid fresh now s =
    (let ts = service_tasks s sid
     in take MAX_TX_ACTIONS (map (removal now) (doomed_tasks ts (giving_up ts n)) @
          map creation (new_tasks fresh now svc (filling ts n))))"
  using assms kept_count [of "service_tasks s sid" n, unfolded giving_up_def]
  by (simp add: reconcile_actions_def Let_def scale_down_map fill_map filling_def giving_up_def)

section \<open>The contract\<close>

lemma service_tasks_subset: "set (service_tasks s sid) \<subseteq> set (view_tasks s)"
  by (auto simp: service_tasks_def)

lemma service_tasks_distinct: "store_wf s \<Longrightarrow> distinct (service_tasks s sid)"
  by (simp add: service_tasks_def view_tasks_distinct)

lemma distinct_task_ids:
  assumes "store_wf s" "set ts \<subseteq> set (view_tasks s)" "distinct ts"
  shows "distinct (map task_id ts)"
  using assms view_tasks_unique [OF assms(1)] by (auto simp: distinct_map inj_on_def)

lemma removals_independent:
  assumes "store_wf s" "set ts \<subseteq> set (view_tasks s)" "distinct ts"
  shows "independent_tx (store_map s) (map (removal now) ts)"
  using updates_independent [OF assms(1,2) distinct_task_ids [OF assms], of "mark_removed now"] by simp

lemma creations_independent:
  assumes "fresh_ids fresh (store_map s)"
  shows "independent_tx (store_map s) (map creation (new_tasks fresh now svc free))"
proof (rule creates_independent)
  show "distinct (map task_id (new_tasks fresh now svc free))"
    using assms by (auto simp: fresh_ids_def distinct_map intro: inj_on_subset)
  fix t assume "t \<in> set (new_tasks fresh now svc free)"
  then have "task_id t \<in> set (map task_id (new_tasks fresh now svc free))"
    by (simp del: new_tasks_simps)
  then show "store_map s (object_kind.Task, task_id t) = None"
    using assms unfolding new_tasks_simps by (auto simp: fresh_ids_def)
qed

lemma removals_then_creations:
  assumes "store_wf s" "set ts \<subseteq> set (view_tasks s)" "distinct ts" "fresh_ids fresh (store_map s)"
  shows "independent_tx (store_map s)
    (map (removal now) ts @ map creation (new_tasks fresh now svc free))"
proof -
  note parts = removals_independent [OF assms(1-3), of now]
    creations_independent [OF assms(4), of now svc free]
  then show ?thesis
    unfolding independent_append
    by (intro conjI update_create_disjoint [of "store_map s"]) (auto simp: independent_tx_def)
qed

interpretation replicated: control_loop "reconcile_actions sid" for sid
proof
  show "length (reconcile_actions sid fresh now s) \<le> MAX_TX_ACTIONS" for fresh now s
    by (simp add: reconcile_actions_def remove_all_def Let_def del: take_append
        split: option.split service_mode.split)
next
  fix s :: "('a, 'b) store_inner" and fresh now
  assume wf: "store_wf s" and fresh: "fresh_ids fresh (store_map s)"
  show "independent_tx (store_map s) (reconcile_actions sid fresh now s)"
  proof (cases "view_service s sid")
    case None
    let ?ts = "filter (\<lambda>t. \<not> is_removing t) (service_tasks s sid)"
    have "reconcile_actions sid fresh now s = take MAX_TX_ACTIONS (map (removal now) ?ts)"
      by (simp add: None reconcile_actions_def remove_all_def Let_def map_filter_raise list_all_iff)
    moreover have "independent_tx (store_map s) (map (removal now) ?ts)"
      using service_tasks_subset service_tasks_distinct [OF wf]
      by (intro removals_independent [OF wf]) auto
    ultimately show ?thesis
      by (simp add: independent_take)
  next
    case (Some svc)
    show ?thesis
    proof (cases "sspec_mode (service_spec svc)")
      case (Replicated n)
      let ?ts = "service_tasks s sid"
      have "set (doomed_tasks ?ts (giving_up ?ts n)) \<subseteq> set (view_tasks s)"
        using service_tasks_subset by (auto simp: set_doomed_tasks)
      moreover have "distinct (doomed_tasks ?ts (giving_up ?ts n))"
        using service_tasks_distinct [OF wf] giving_up_props(2) by (rule distinct_doomed_tasks)
      ultimately show ?thesis
        unfolding reconcile_replicated [OF Some Replicated] Let_def
        by (intro independent_take removals_then_creations [OF wf _ _ fresh])
    qed (simp_all add: reconcile_actions_def Some independent_tx_def)
  qed
qed

section \<open>The effect of a pass\<close>

definition live_tasks :: "('lid, 'mem) store_inner \<Rightarrow> id \<Rightarrow> task set" where
  "live_tasks s sid = {t \<in> set (service_tasks s sid). \<not> is_removing t}"

lemma live_slots: "task_slot ` live_tasks s sid = task_slots (service_tasks s sid)"
  by (simp add: live_tasks_def task_slots_def)

lemma live_finite [simp]: "finite (live_tasks s sid)"
  by (simp add: live_tasks_def)

text \<open>Removing some live tasks of a service and creating others.\<close>

lemma live_after:
  assumes wf: "store_wf s" "store_wf s'"
    and eff: "store_map s' = result_map v (store_map s) (map (removal now) ds @ map creation ns)"
    and tx: "independent_tx (store_map s) (map (removal now) ds @ map creation ns)"
    and ds: "set ds \<subseteq> set (view_tasks s)"
    and ns: "\<forall>t \<in> set ns. task_service_id t = Some sid \<and> \<not> is_removing t"
  shows "live_tasks s' sid = (live_tasks s sid - set ds) \<union> stamp_task v ` set ns"
  using ns tasks_after_changes [OF wf eff tx ds mark_removed_simps(4)]
  by (auto simp: live_tasks_def service_tasks_def)

lemma pass_effect:
  assumes wf: "store_wf s" and svc: "view_service s sid = Some svc" "sspec_mode (service_spec svc) = Replicated n"
    and fresh: "fresh_ids fresh (store_map s)"
    and tx: "apply_transaction s \<lparr>proposal_actions = reconcile_actions sid fresh now s\<rparr> index len =
      (proposal_response.Applied index, evs, s')"
  defines "ts \<equiv> service_tasks s sid"
  defines "ds \<equiv> take MAX_TX_ACTIONS (doomed_tasks ts (giving_up ts n))"
  defines "free \<equiv> take (MAX_TX_ACTIONS - length (doomed_tasks ts (giving_up ts n))) (filling ts n)"
  shows "live_tasks s' sid = (live_tasks s sid - set ds) \<union> stamp_task index ` set (new_tasks fresh now svc free)"
    and "store_wf s'" and "view_service s' sid = Some svc"
    and "reconcile_actions sid fresh now s =
      map (removal now) ds @ map creation (new_tasks fresh now svc free)"
proof -
  show acts: "reconcile_actions sid fresh now s =
      map (removal now) ds @ map creation (new_tasks fresh now svc free)"
    unfolding reconcile_replicated [OF svc] Let_def ds_def free_def ts_def
    by (simp add: take_map new_tasks_take)
  show wf': "store_wf s'"
    using apply_transaction_wf [OF wf tx] .
  have indep: "independent_tx (store_map s) (reconcile_actions sid fresh now s)"
    using replicated.decide_independent [OF wf fresh] .
  have eff: "store_map s' = result_map index (store_map s) (reconcile_actions sid fresh now s)"
    using applied_effect [OF tx indep] .
  show "view_service s' sid = Some svc"
    using services_after [OF eff, of sid] svc(1) unfolding acts by (simp add: task_actions_def ball_Un)
  show "live_tasks s' sid = (live_tasks s sid - set ds) \<union> stamp_task index ` set (new_tasks fresh now svc free)"
  proof (rule live_after [OF wf wf'])
    show "set ds \<subseteq> set (view_tasks s)"
      using service_tasks_subset [of s sid] set_take_subset
      unfolding ds_def ts_def by (fastforce simp: set_doomed_tasks dest: in_set_takeD)
    show "\<forall>t \<in> set (new_tasks fresh now svc free). task_service_id t = Some sid \<and> \<not> is_removing t"
      using new_tasks_mem view_service_id [OF wf svc(1)] by blast
  qed (use indep eff in \<open>simp_all only: acts\<close>)
qed

section \<open>Convergence\<close>

text \<open>The service is reconciled: \<open>n\<close> slots hold a task, none of them slot 0.\<close>

definition reconciled :: "('lid, 'mem) store_inner \<Rightarrow> id \<Rightarrow> nat \<Rightarrow> bool" where
  "reconciled s sid n \<longleftrightarrow> card (task_slots (service_tasks s sid)) = n \<and>
     0 \<notin> task_slots (service_tasks s sid)"

lemma finite_task_slots [simp]: "finite (task_slots ts)"
  by (simp add: task_slots_def)

lemma no_doomed_iff: "doomed_slots ts n = {} \<longleftrightarrow> 0 \<notin> task_slots ts \<and> card (task_slots ts) \<le> n"
proof
  assume "doomed_slots ts n = {}"
  then have "kept_slots ts n = task_slots ts" "0 \<notin> task_slots ts"
    using zero_doomed [of ts n] by (auto simp: kept_slots_def)
  then show "0 \<notin> task_slots ts \<and> card (task_slots ts) \<le> n"
    using card_kept [of ts n] by simp
next
  assume ok: "0 \<notin> task_slots ts \<and> card (task_slots ts) \<le> n"
  then have "card (kept_slots ts n) = card (task_slots ts)"
    using card_kept [of ts n] by simp
  then have "kept_slots ts n = task_slots ts"
    by (intro card_subset_eq) (auto simp: kept_slots_def)
  then show "doomed_slots ts n = {}"
    using doomed_subset [of ts n] by (auto simp: kept_slots_def)
qed

lemma no_doomed_tasks_iff: "doomed_tasks ts (giving_up ts n) = [] \<longleftrightarrow> doomed_slots ts n = {}"
proof -
  have "doomed_tasks ts (giving_up ts n) = [] \<longleftrightarrow> set (doomed_tasks ts (giving_up ts n)) = {}"
    by simp
  also have "\<dots> \<longleftrightarrow> task_slots ts \<inter> doomed_slots ts n = {}"
    unfolding set_doomed_tasks giving_up_props(1) by (auto simp: task_slots_def)
  finally show ?thesis
    using doomed_subset [of ts n] by auto
qed

lemma length_filling: "length (filling ts n) = min (n - card (kept_slots ts n)) MAX_TX_ACTIONS"
  by (simp add: filling_def)

lemma nothing_to_do_iff:
  assumes "view_service s sid = Some svc" "sspec_mode (service_spec svc) = Replicated n"
  shows "reconcile_actions sid fresh now s = [] \<longleftrightarrow> reconciled s sid n"
proof -
  let ?ts = "service_tasks s sid"
  have pos: "0 < MAX_TX_ACTIONS"
    by (simp add: MAX_TX_ACTIONS_def)
  have "reconcile_actions sid fresh now s = [] \<longleftrightarrow>
      doomed_tasks ?ts (giving_up ?ts n) = [] \<and> length (filling ?ts n) = 0"
    unfolding reconcile_replicated [OF assms] Let_def using pos
    by (simp del: take_append) (metis length_0_conv new_tasks_simps(1))
  also have "\<dots> \<longleftrightarrow> doomed_slots ?ts n = {} \<and> n \<le> card (kept_slots ?ts n)"
    unfolding no_doomed_tasks_iff length_filling using pos by (auto simp: min_def)
  also have "\<dots> \<longleftrightarrow> reconciled s sid n"
    unfolding no_doomed_iff card_kept by (auto simp: reconciled_def)
  finally show ?thesis .
qed

definition runs :: "('lid, 'mem) store_inner \<Rightarrow> id \<Rightarrow> nat \<Rightarrow> bool" where
  "runs s sid n \<longleftrightarrow> store_wf s \<and>
     (\<exists>svc. view_service s sid = Some svc \<and> sspec_mode (service_spec svc) = Replicated n)"

text \<open>What is left to do: the live tasks while slots must be given up, then the missing slots.\<close>

definition distance :: "('lid, 'mem) store_inner \<Rightarrow> id \<Rightarrow> nat \<Rightarrow> nat" where
  "distance s sid n = (if doomed_slots (service_tasks s sid) n = {}
     then n - card (task_slots (service_tasks s sid)) else Suc (n + card (live_tasks s sid)))"

lemma filling_free:
  assumes "x \<in> set (filling ts n)"
  shows "0 < x \<and> x \<notin> task_slots ts"
  using assms free_slots_free unfolding filling_def set_occupied [symmetric] by blast

lemma distinct_filling: "distinct (filling ts n)"
  by (simp add: filling_def free_slots_distinct)

text \<open>Once every doomed task fits the transaction, the slots left are the kept and the filled ones.\<close>

lemma slots_after_fit:
  assumes live: "live' = (live_tasks s sid - set (doomed_tasks ts (giving_up ts n))) \<union>
      stamp_task v ` set (new_tasks fresh now svc free)"
    and ts: "ts = service_tasks s sid" and free: "free = take k (filling ts n)"
  shows "task_slot ` live' = kept_slots ts n \<union> set free"
    and "card (task_slot ` live') = card (kept_slots ts n) + length free"
    and "0 \<notin> task_slot ` live'"
proof -
  have "task_slot ` (live_tasks s sid - set (doomed_tasks ts (giving_up ts n))) = kept_slots ts n"
    unfolding set_doomed_tasks giving_up_props(1) ts kept_slots_def live_slots [symmetric]
    by (auto simp: live_tasks_def)
  moreover have "task_slot ` stamp_task v ` set (new_tasks fresh now svc free) = set free"
    by (simp add: image_image new_tasks_slots)
  ultimately show slots: "task_slot ` live' = kept_slots ts n \<union> set free"
    by (simp add: live image_Un)
  have sub: "set free \<subseteq> set (filling ts n)"
    unfolding free by (rule set_take_subset)
  have disj: "kept_slots ts n \<inter> set free = {}"
    using sub filling_free [of _ ts n] by (auto simp: kept_slots_def)
  have "card (set free) = length free"
    unfolding free by (rule distinct_card) (simp add: distinct_filling)
  with disj show "card (task_slot ` live') = card (kept_slots ts n) + length free"
    unfolding slots by (subst card_Un_disjoint) (auto simp: kept_slots_def)
  show "0 \<notin> task_slot ` live'"
    unfolding slots using sub filling_free [of 0 ts n] zero_not_kept [of ts n] by auto
qed

lemma pass_decreases:
  assumes runs: "runs s sid n" and fresh: "fresh_ids fresh (store_map s)"
    and some: "reconcile_actions sid fresh now s \<noteq> []"
    and tx: "apply_transaction s \<lparr>proposal_actions = reconcile_actions sid fresh now s\<rparr> index len =
      (proposal_response.Applied index, evs, s')"
  shows "runs s' sid n \<and> distance s' sid n < distance s sid n"
proof -
  obtain svc where svc: "view_service s sid = Some svc" "sspec_mode (service_spec svc) = Replicated n"
    and wf: "store_wf s"
    using runs by (auto simp: runs_def)
  define ts where "ts = service_tasks s sid"
  define D where "D = doomed_tasks ts (giving_up ts n)"
  define free where "free = take (MAX_TX_ACTIONS - length D) (filling ts n)"
  note eff = pass_effect [OF wf svc fresh tx, folded ts_def, folded D_def, folded free_def]
  have runs': "runs s' sid n"
    using eff(2,3) svc by (auto simp: runs_def)
  have D: "set D = {t \<in> live_tasks s sid. task_slot t \<in> doomed_slots ts n}"
    by (auto simp: D_def set_doomed_tasks giving_up_props(1) live_tasks_def ts_def)
  have doomed: "doomed_slots ts n = {} \<longleftrightarrow> D = []"
    by (simp add: D_def no_doomed_tasks_iff)
  have "distance s' sid n < distance s sid n"
  proof (cases "length D \<le> MAX_TX_ACTIONS")
    case True
    then have "live_tasks s' sid = (live_tasks s sid - set D) \<union>
        stamp_task index ` set (new_tasks fresh now svc free)"
      using eff(1) by simp
    note slots = slots_after_fit [OF this [unfolded D_def] ts_def free_def, unfolded live_slots]
    have kept: "card (kept_slots ts n) \<le> n" "length free \<le> n - card (kept_slots ts n)"
      using card_kept [of ts n] by (simp_all add: free_def length_filling)
    then have le: "card (task_slots (service_tasks s' sid)) \<le> n"
      using slots(2) by simp
    then have "doomed_slots (service_tasks s' sid) n = {}"
      using slots(3) by (simp add: no_doomed_iff)
    then have d': "distance s' sid n = n - card (task_slots (service_tasks s' sid))"
      by (simp add: distance_def)
    show ?thesis
    proof (cases "doomed_slots ts n = {}")
      case none: True
      then have "D = []"
        by (simp add: doomed)
      then have "free \<noteq> []"
        using some eff(4) by (auto simp: new_tasks_def)
      moreover have "kept_slots ts n = task_slots ts"
        using none by (simp add: kept_slots_def)
      ultimately have "card (task_slots ts) < card (task_slots (service_tasks s' sid))"
        using slots(2) by simp
      then show ?thesis
        using none le unfolding d' by (simp add: distance_def ts_def)
    qed (unfold d', simp add: distance_def ts_def)
  next
    case False
    have "live_tasks s' sid = live_tasks s sid - set (take MAX_TX_ACTIONS D)"
      using eff(1) False by (simp add: free_def new_tasks_def)
    moreover obtain x where "x \<in> set (take MAX_TX_ACTIONS D)"
      using False by (cases D) (auto simp: MAX_TX_ACTIONS_def)
    moreover have "set (take MAX_TX_ACTIONS D) \<subseteq> live_tasks s sid"
      using set_take_subset [of MAX_TX_ACTIONS D] D by auto
    ultimately have "live_tasks s' sid \<subset> live_tasks s sid"
      by blast
    then have "card (live_tasks s' sid) < card (live_tasks s sid)"
      by (rule psubset_card_mono [rotated]) simp
    moreover have "doomed_slots ts n \<noteq> {}"
      using False by (auto simp: doomed)
    ultimately show ?thesis
      by (auto simp: distance_def ts_def)
  qed
  with runs' show ?thesis ..
qed

interpretation replicated: converging_loop "reconcile_actions sid" "\<lambda>s. runs s sid n"
    "\<lambda>s. reconciled s sid n" "\<lambda>s. distance s sid n" for sid n
proof
  show "runs s sid n \<Longrightarrow> store_wf s" for s :: "('a, 'b) store_inner"
    by (simp add: runs_def)
  show "runs s sid n \<Longrightarrow> reconcile_actions sid fresh now s = [] \<longleftrightarrow> reconciled s sid n"
    for s :: "('a, 'b) store_inner" and fresh now
    using nothing_to_do_iff [of s sid _ n fresh now] unfolding runs_def by blast
qed (rule pass_decreases)

text \<open>
  C5. The reconciliation of a replicated service converges. From any well-formed store, passes of the
  loop cannot go on for ever (each applied pass brings the service closer, also where a pass
  is cut off at the transaction limit), and a sequence of passes leads to a store in which exactly
  the wanted number of slots hold a task; there, and only there, a pass derives nothing.
\<close>

theorem replicated_converges:
  assumes "runs s sid n"
  shows "(\<nexists>f. f 0 = s \<and> (\<forall>i. loop_pass (reconcile_actions sid) (f i) (f (Suc i)))) \<and>
    (\<exists>s'. (loop_pass (reconcile_actions sid))\<^sup>*\<^sup>* s s' \<and> runs s' sid n \<and> reconciled s' sid n) \<and>
    (reconcile_actions sid fresh now s = [] \<longleftrightarrow> reconciled s sid n)"
  using replicated.terminates [OF assms] replicated.reaches [OF assms] replicated.idle [OF assms] by blast

definition w_cluster :: "(nat, nat list) store_inner" where
  "w_cluster = sample_store
     [Create (store_object.Service (sample_service ''svc'' (Replicated 2)))]"

lemma w_cluster_runs: "runs w_cluster ''svc'' 2"
proof -
  have "store_wf w_cluster"
    unfolding w_cluster_def by (rule sample_store_wf)
  moreover have "map_option (sspec_mode \<circ> service_spec) (view_service w_cluster ''svc'') = Some (Replicated 2)"
    by code_simp
  ultimately show ?thesis
    by (auto simp: runs_def)
qed

theorem replicated_converges_witness:
  "runs w_cluster ''svc'' 2 \<and> \<not> reconciled w_cluster ''svc'' 2 \<and>
   (\<exists>s'. (loop_pass (reconcile_actions ''svc''))\<^sup>*\<^sup>* w_cluster s' \<and> reconciled s' ''svc'' 2)"
proof -
  have "length (reconcile_actions ''svc'' show_nat 0 w_cluster) = 2"
    by code_simp
  then have "reconcile_actions ''svc'' show_nat 0 w_cluster \<noteq> []"
    by auto
  with replicated_converges [OF w_cluster_runs, of show_nat 0] show ?thesis
    using w_cluster_runs by blast
qed

end
