(* ===== verification/Orch_Dirty.thy ===== *)
theory Orch_Dirty
  imports Orch_Task
begin

text \<open>
  \<open>satl-orchestrator/src/dirty.rs\<close> and \<open>node_enforcer.rs\<close>: whether a task must be replaced to bring its
  service to the current spec, and whether it must give up its node.
\<close>

section \<open>Dirty tasks\<close>

definition specs_match :: "task_spec \<Rightarrow> task_spec \<Rightarrow> bool \<Rightarrow> bool" where
  "specs_match tspec wanted ignore_pull_options =
     (if \<not> ignore_pull_options then tspec = wanted
      else tspec\<lparr>tspec_container := (tspec_container tspec)\<lparr>container_pull_options :=
             container_pull_options (tspec_container wanted)\<rparr>\<rparr> = wanted)"

definition placement_only_change :: "task_spec \<Rightarrow> task_spec \<Rightarrow> bool \<Rightarrow> bool" where
  "placement_only_change tspec wanted ignore =
     (if tspec_placement tspec = tspec_placement wanted then False
      else specs_match (tspec\<lparr>tspec_placement := tspec_placement wanted\<rparr>) wanted ignore)"

definition resources_only_change :: "task_spec \<Rightarrow> task_spec \<Rightarrow> bool \<Rightarrow> bool" where
  "resources_only_change tspec wanted ignore =
     (if tspec_resources tspec = tspec_resources wanted then False
      else specs_match (tspec\<lparr>tspec_resources := tspec_resources wanted\<rparr>) wanted ignore)"

definition node_satisfies :: "task_spec \<Rightarrow> node option \<Rightarrow> bool" where
  "node_satisfies wanted nd =
     (let expressions = constraints (tspec_placement wanted)
      in if expressions = [] then True
         else case nd of
             None \<Rightarrow> False
           | Some n \<Rightarrow> (case parse_all expressions of
               Inr cs \<Rightarrow> constraints_match cs n
             | Inl _ \<Rightarrow> True))"

definition default_endpoint_spec :: endpoint_spec where
  "default_endpoint_spec = \<lparr>espec_mode = DnsRR, espec_ports = []\<rparr>"

definition endpoint_changed :: "service \<Rightarrow> task \<Rightarrow> bool" where
  "endpoint_changed svc t =
     (let wanted = (case sspec_endpoint (service_spec svc) of Some e \<Rightarrow> e | None \<Rightarrow> default_endpoint_spec);
          carried = (case task_endpoint t of Some e \<Rightarrow> endpoint_spec e | None \<Rightarrow> default_endpoint_spec)
      in carried \<noteq> wanted)"

definition already_pulled :: "task \<Rightarrow> bool" where
  "already_pulled t \<longleftrightarrow> task_state.Ready \<le> status_state (task_status t) \<and>
     status_state (task_status t) \<le> task_state.Running \<and>
     task_desired_state t \<le> desired_state.Running"

definition is_task_dirty :: "service \<Rightarrow> task \<Rightarrow> node option \<Rightarrow> bool" where
  "is_task_dirty svc t nd =
     (if task_spec_version t = Some (service_spec_version svc) then False
      else let wanted = sspec_task (service_spec svc); ignore = already_pulled t
           in if placement_only_change (task_spec t) wanted ignore \<and> node_satisfies wanted nd \<and>
                 \<not> endpoint_changed svc t then False
              else if resources_only_change (task_spec t) wanted ignore \<and> \<not> endpoint_changed svc t
              then False
              else \<not> specs_match (task_spec t) wanted ignore \<or> endpoint_changed svc t)"

section \<open>Eviction\<close>

text \<open>The enum \<open>NodeInvalidity\<close>.\<close>

datatype invalidity = Missing | Down | Drained

definition node_invalidity :: "node option \<Rightarrow> invalidity option" where
  "node_invalidity nd = (case nd of
       None \<Rightarrow> Some Missing
     | Some n \<Rightarrow>
         if nspec_availability (node_spec n) = Drain then Some Drained
         else if nstatus_state (node_status n) = node_state.Down then Some invalidity.Down
         else None)"

definition evictable :: "task \<Rightarrow> bool" where
  "evictable t \<longleftrightarrow> task_node_id t \<noteq> None \<and> task_desired_state t \<le> desired_state.Running \<and>
     \<not> is_terminal (status_state (task_status t))"

definition evict_reason :: "task \<Rightarrow> node option \<Rightarrow> invalidity option" where
  "evict_reason t nd = (if \<not> evictable t then None else node_invalidity nd)"

definition constraints_unmet :: "service \<Rightarrow> task \<Rightarrow> node \<Rightarrow> bool" where
  "constraints_unmet svc t n =
     (if \<not> evictable t then False
      else if nspec_availability (node_spec n) \<noteq> Active then False
      else \<not> node_satisfies (sspec_task (service_spec svc)) (Some n))"

end
