(* ===== verification/Orch_Global.thy ===== *)
theory Orch_Global
  imports Orch_Dirty Orch_Propose Sched_Filters
begin

text \<open>
  \<open>satl-orchestrator/src/global.rs\<close>: the reconciliation of global services, one task on every eligible
  node. Generated ids and the clock are arguments, as for the replicated orchestrator.
\<close>

text \<open>The enum \<open>NodeVerdict\<close>.\<close>

datatype verdict = Run | Hold | Reject

definition node_verdict :: "node \<Rightarrow> placement_requirements \<Rightarrow> verdict" where
  "node_verdict n req =
     (if nspec_availability (node_spec n) = Drain then Reject
      else if nspec_availability (node_spec n) = availability.Pause then Hold
      else if nstatus_state (node_status n) = node_state.Down then Reject
      else if \<not> satisfied_by req n then Reject
      else if accepts_new_tasks n then Run else Hold)"

definition eligible_nodes :: "('lid, 'mem) store_inner \<Rightarrow> service \<Rightarrow> id set" where
  "eligible_nodes view svc =
     set (map node_id (filter (\<lambda>n. node_verdict n (requirements_of (sspec_task (service_spec svc))) = Run)
       (view_nodes view)))"

definition node_occupied :: "task list \<Rightarrow> bool" where
  "node_occupied on_node \<longleftrightarrow> list_ex (\<lambda>t. task_desired_state t \<le> desired_state.Running) on_node"

text \<open>The tasks to stop, node by node in the order of the ids.\<close>

definition rejected_tasks ::
  "('lid, 'mem) store_inner \<Rightarrow> placement_requirements \<Rightarrow> (id, task list) btree_map \<Rightarrow> task list" where
  "rejected_tasks view req by_node = concat (map (\<lambda>(nid, on_node).
     let verdict = (case view_node view nid of None \<Rightarrow> Reject | Some n \<Rightarrow> node_verdict n req)
     in if verdict \<noteq> Reject then [] else filter evictable on_node) by_node)"

text \<open>The nodes that need a task.\<close>

definition vacant_nodes ::
  "('lid, 'mem) store_inner \<Rightarrow> placement_requirements \<Rightarrow> (id, task list) btree_map \<Rightarrow> node list" where
  "vacant_nodes view req by_node = filter (\<lambda>n. node_verdict n req = Run \<and>
     \<not> (case map_of by_node (node_id n) of None \<Rightarrow> False | Some on_node \<Rightarrow> node_occupied on_node))
     (view_nodes view)"

definition global_reconcile_actions ::
  "id \<Rightarrow> (nat \<Rightarrow> id) \<Rightarrow> system_time \<Rightarrow> ('lid, 'mem) store_inner \<Rightarrow> store_action list" where
  "global_reconcile_actions sid fresh now view =
     (case view_service view sid of
        None \<Rightarrow> []
      | Some svc \<Rightarrow>
          if sspec_mode (service_spec svc) \<noteq> Global then []
          else let tasks = filter (\<lambda>t. task_service_id t = Some sid) (view_tasks view);
                   req = requirements_of (sspec_task (service_spec svc));
                   by_node = group_by_node tasks
               in take MAX_TX_ACTIONS
                    (List.map_filter (\<lambda>t. raise_desired_state now t desired_state.Shutdown)
                       (rejected_tasks view req by_node) @
                     map (\<lambda>(k, n). Create (store_object.Task (new_global_task (fresh k) now svc (node_id n))))
                       (enumerate 0 (vacant_nodes view req by_node))))"

section \<open>The loop\<close>

record global_orchestrator =
  go_dirty :: "id set"
  go_task_owner :: "(id, id) hash_map"
  go_nodes_changed :: bool

definition global_services :: "('lid, 'mem) store_inner \<Rightarrow> id list" where
  "global_services view =
     map service_id (filter (\<lambda>svc. sspec_mode (service_spec svc) = Global) (view_services view))"

definition global_observe_object :: "store_object \<Rightarrow> global_orchestrator \<Rightarrow> global_orchestrator" where
  "global_observe_object obj go = (case obj of
       store_object.Service svc \<Rightarrow> go\<lparr>go_dirty := insert (service_id svc) (go_dirty go)\<rparr>
     | store_object.Task t \<Rightarrow> (case task_service_id t of
         Some sid \<Rightarrow> go\<lparr>go_task_owner := hm_insert (task_id t) sid (go_task_owner go),
                       go_dirty := insert sid (go_dirty go)\<rparr>
       | None \<Rightarrow> go)
     | store_object.Node _ \<Rightarrow> go\<lparr>go_nodes_changed := True\<rparr>
     | _ \<Rightarrow> go)"

text \<open>The view is the store when the event is handled; the second component is what is reconciled.\<close>

fun global_observe ::
  "('lid, 'mem) store_inner \<Rightarrow> store_event \<Rightarrow> global_orchestrator \<Rightarrow> global_orchestrator \<times> id set" where
  "global_observe view (Created obj) go = (global_observe_object obj go, {})"
| "global_observe view (Updated _ obj) go = (global_observe_object obj go, {})"
| "global_observe view (store_event.Removed k i) go = (case k of
       object_kind.Service \<Rightarrow> (go\<lparr>go_dirty := go_dirty go - {i}\<rparr>, {})
     | object_kind.Task \<Rightarrow> (case map_of (go_task_owner go) i of
         Some sid \<Rightarrow> (go\<lparr>go_task_owner := hm_remove i (go_task_owner go),
                        go_dirty := insert sid (go_dirty go)\<rparr>, {})
       | None \<Rightarrow> (go, {}))
     | object_kind.Node \<Rightarrow> (go\<lparr>go_nodes_changed := True\<rparr>, {})
     | _ \<Rightarrow> (go, {}))"
| "global_observe view (Commit _) go =
     (let dirty = (if go_nodes_changed go then go_dirty go \<union> set (global_services view) else go_dirty go)
      in (go\<lparr>go_nodes_changed := False, go_dirty := {}\<rparr>, dirty))"

end
