(* ===== verification/Orch_Global_Proofs.thy ===== *)
theory Orch_Global_Proofs
  imports Orch_Global Orch_Loops Orch_Replicated_Proofs
begin

text \<open>
  The global orchestrator keeps the contract of a control loop and converges: every eligible node
  holds a task the cluster wants, and no rejected node holds one that could still be stopped.
\<close>

section \<open>The derived transaction\<close>

lemma evictable_simps:
  "\<not> evictable (mark_shutdown now t)" "evictable (stamp_task v t) = evictable t"
  "evictable t \<Longrightarrow> \<not> is_removing t"
  "task_desired_state t \<le> desired_state.Running \<Longrightarrow> \<not> is_removing t"
  by (auto simp: evictable_def is_removing_def less_eq_desired_state_def)

lemma raise_shutdown:
  "evictable t \<Longrightarrow> raise_desired_state now t desired_state.Shutdown = Some (stopping now t)"
  by (cases "task_desired_state t") (simp_all add: raise_shutdown_iff evictable_def order_defs)

lemma map_filter_shutdown:
  "list_all evictable ts \<Longrightarrow>
   List.map_filter (\<lambda>t. raise_desired_state now t desired_state.Shutdown) ts = map (stopping now) ts"
  by (induction ts) (simp_all add: map_filter_simps raise_shutdown)

definition new_global_tasks :: "(nat \<Rightarrow> id) \<Rightarrow> system_time \<Rightarrow> service \<Rightarrow> node list \<Rightarrow> task list" where
  "new_global_tasks fresh now svc ns =
     map (\<lambda>(k, n). new_global_task (fresh k) now svc (node_id n)) (enumerate 0 ns)"

lemma new_global_tasks_take:
  "take k (new_global_tasks fresh now svc ns) = new_global_tasks fresh now svc (take k ns)"
  by (cases "k \<le> length ns")
     (simp_all add: new_global_tasks_def take_map enumerate_eq_zip take_zip take_upt min_absorb2)

lemma new_global_tasks_length [simp]: "length (new_global_tasks fresh now svc ns) = length ns"
  by (simp add: new_global_tasks_def)

lemma new_global_tasks_ids:
  "map task_id (new_global_tasks fresh now svc ns) = map fresh [0..<length ns]"
proof -
  have "map task_id (new_global_tasks fresh now svc ns) = map (fresh \<circ> fst) (enumerate 0 ns)"
    by (simp add: new_global_tasks_def case_prod_beta new_global_task_def build_task_def Let_def comp_def)
  then show ?thesis
    unfolding map_map [symmetric] map_fst_enumerate by simp
qed

lemma new_global_tasks_nodes:
  "(\<lambda>t. task_node_id t) ` set (new_global_tasks fresh now svc ns) = Some ` node_id ` set ns"
proof -
  have "map task_node_id (new_global_tasks fresh now svc ns) = map ((Some \<circ> node_id) \<circ> snd) (enumerate 0 ns)"
    by (simp add: new_global_tasks_def case_prod_beta new_global_task_def build_task_def Let_def comp_def)
  then have "map task_node_id (new_global_tasks fresh now svc ns) = map (Some \<circ> node_id) ns"
    unfolding map_map [symmetric] map_snd_enumerate by simp
  then show ?thesis
    by (metis image_comp set_map)
qed

lemma new_global_tasks_mem:
  assumes "t \<in> set (new_global_tasks fresh now svc ns)"
  shows "task_service_id t = Some (service_id svc) \<and> task_desired_state t \<le> desired_state.Running \<and>
    (\<exists>n \<in> set ns. task_node_id t = Some (node_id n))"
proof -
  have "initial_desired_state spec \<le> desired_state.Running" for spec
    by (simp add: initial_desired_state_def less_eq_desired_state_def split: option.split)
  moreover have "task_node_id t \<in> Some ` node_id ` set ns"
    using assms unfolding new_global_tasks_nodes [of fresh now svc, symmetric] by (rule imageI)
  ultimately show ?thesis
    using assms by (auto simp: new_global_tasks_def new_global_task_def build_task_def Let_def)
qed

section \<open>What is left to do\<close>

abbreviation wants :: "service \<Rightarrow> placement_requirements" where
  "wants svc \<equiv> requirements_of (sspec_task (service_spec svc))"

definition rejected_node :: "('lid, 'mem) store_inner \<Rightarrow> placement_requirements \<Rightarrow> id \<Rightarrow> bool" where
  "rejected_node s req nid \<longleftrightarrow>
     (case view_node s nid of None \<Rightarrow> True | Some n \<Rightarrow> node_verdict n req = Reject)"

text \<open>Tasks that must go, and nodes that lack a task.\<close>

definition must_stop :: "('lid, 'mem) store_inner \<Rightarrow> id \<Rightarrow> service \<Rightarrow> task set" where
  "must_stop s sid svc = {t \<in> set (service_tasks s sid). evictable t \<and>
     (\<exists>nid. task_node_id t = Some nid \<and> rejected_node s (wants svc) nid)}"

definition must_start :: "('lid, 'mem) store_inner \<Rightarrow> id \<Rightarrow> service \<Rightarrow> node set" where
  "must_start s sid svc = {n \<in> set (view_nodes s). node_verdict n (wants svc) = Run \<and>
     \<not> (\<exists>t \<in> set (service_tasks s sid). task_node_id t = Some (node_id n) \<and>
        task_desired_state t \<le> desired_state.Running)}"

abbreviation stop_list :: "('lid, 'mem) store_inner \<Rightarrow> id \<Rightarrow> service \<Rightarrow> task list" where
  "stop_list s sid svc \<equiv> rejected_tasks s (wants svc) (group_by_node (service_tasks s sid))"

abbreviation start_list :: "('lid, 'mem) store_inner \<Rightarrow> id \<Rightarrow> service \<Rightarrow> node list" where
  "start_list s sid svc \<equiv> vacant_nodes s (wants svc) (group_by_node (service_tasks s sid))"

lemma node_group_entry:
  "(n, g) \<in> set (group_by_node ts) \<longleftrightarrow>
     g = filter (\<lambda>t. \<not> is_removing t \<and> task_node_id t = Some n) ts \<and> g \<noteq> []"
  using bt.mem_iff [OF group_by_node_invar, of n g ts]
  by (auto simp: group_by_node_lookup grouped_def split: if_splits)

lemma rejected_tasks_alt:
  "rejected_tasks s req m = concat (map (\<lambda>(nid, g). if rejected_node s req nid then filter evictable g else []) m)"
proof -
  have "(case view_node s nid of None \<Rightarrow> Reject | Some n \<Rightarrow> node_verdict n req) \<noteq> Reject \<longleftrightarrow>
      \<not> rejected_node s req nid" for nid
    by (simp add: rejected_node_def split: option.split)
  then show ?thesis
    by (auto simp: rejected_tasks_def Let_def intro!: arg_cong [of _ _ concat])
qed

lemma set_stop_list: "set (stop_list s sid svc) = must_stop s sid svc"
proof (intro set_eqI iffI)
  fix t assume "t \<in> set (stop_list s sid svc)"
  then obtain nid g where "(nid, g) \<in> set (group_by_node (service_tasks s sid))"
    "rejected_node s (wants svc) nid" "t \<in> set g" "evictable t"
    unfolding rejected_tasks_alt by (auto split: if_splits)
  then show "t \<in> must_stop s sid svc"
    by (auto simp: node_group_entry must_stop_def)
next
  fix t assume t: "t \<in> must_stop s sid svc"
  then obtain nid where nid: "task_node_id t = Some nid" "rejected_node s (wants svc) nid"
    by (auto simp: must_stop_def)
  let ?g = "filter (\<lambda>t. \<not> is_removing t \<and> task_node_id t = Some nid) (service_tasks s sid)"
  have "t \<in> set ?g"
    using t nid(1) evictable_simps(3) by (auto simp: must_stop_def)
  then have "(nid, ?g) \<in> set (group_by_node (service_tasks s sid))"
    unfolding node_group_entry by (metis empty_iff list.set(1))
  moreover have "t \<in> set (if rejected_node s (wants svc) nid then filter evictable ?g else [])"
    using \<open>t \<in> set ?g\<close> t nid(2) by (simp add: must_stop_def)
  ultimately show "t \<in> set (stop_list s sid svc)"
    unfolding rejected_tasks_alt set_concat set_map by blast
qed

lemma distinct_stop_list: "store_wf s \<Longrightarrow> distinct (stop_list s sid svc)"
  unfolding rejected_tasks_alt
proof (rule distinct_groups [where key = task_node_id])
  show "distinct (keys_of (group_by_node (service_tasks s sid)))"
    using bt.invar_distinct [OF group_by_node_invar] .
  show "store_wf s \<Longrightarrow> (k, g) \<in> set (group_by_node (service_tasks s sid)) \<Longrightarrow>
      distinct g \<and> (\<forall>t \<in> set g. task_node_id t = Some k)" for k g
    using service_tasks_distinct [of s sid] by (auto simp: node_group_entry)
qed auto

lemma set_start_list: "set (start_list s sid svc) = must_start s sid svc"
proof -
  have "(case map_of (group_by_node ts) nid of None \<Rightarrow> False | Some g \<Rightarrow> node_occupied g) \<longleftrightarrow>
      (\<exists>t \<in> set ts. task_node_id t = Some nid \<and> task_desired_state t \<le> desired_state.Running)" for ts nid
    using evictable_simps(4)
    by (auto simp: group_by_node_lookup grouped_def node_occupied_def list_ex_iff filter_empty_conv)
  then show ?thesis
    by (simp add: vacant_nodes_def must_start_def)
qed

lemma global_reconcile_eq:
  assumes "view_service s sid = Some svc" "sspec_mode (service_spec svc) = Global"
  shows "global_reconcile_actions sid fresh now s =
    map (stopping now) (take MAX_TX_ACTIONS (stop_list s sid svc)) @
    map creation (new_global_tasks fresh now svc
      (take (MAX_TX_ACTIONS - length (stop_list s sid svc)) (start_list s sid svc)))"
proof -
  have "list_all evictable (stop_list s sid svc)"
    unfolding list_all_iff set_stop_list by (simp add: must_stop_def)
  moreover have "map (\<lambda>(k, n). creation (new_global_task (fresh k) now svc (node_id n))) (enumerate 0 ns) =
      map creation (new_global_tasks fresh now svc ns)" for ns
    by (simp add: new_global_tasks_def case_prod_beta)
  ultimately show ?thesis
    using assms
    by (simp add: global_reconcile_actions_def Let_def map_filter_shutdown take_map
        new_global_tasks_take service_tasks_def [symmetric])
qed

section \<open>The contract\<close>

lemma global_independent:
  assumes wf: "store_wf s" and fresh: "fresh_ids fresh (store_map s)"
    and ds: "set ds \<subseteq> set (view_tasks s)" "distinct ds"
  shows "independent_tx (store_map s)
    (map (stopping now) ds @ map creation (new_global_tasks fresh now svc ns))"
proof (rule updates_then_creates [OF wf ds])
  show "distinct (map task_id (new_global_tasks fresh now svc ns))"
    using fresh unfolding new_global_tasks_ids
    by (auto simp: fresh_ids_def distinct_map intro: inj_on_subset)
  fix t assume "t \<in> set (new_global_tasks fresh now svc ns)"
  then have "task_id t \<in> set (map task_id (new_global_tasks fresh now svc ns))"
    by simp
  then show "store_map s (object_kind.Task, task_id t) = None"
    using fresh unfolding new_global_tasks_ids by (auto simp: fresh_ids_def)
qed simp

lemma stop_list_stored:
  assumes "store_wf s"
  shows "set (take k (stop_list s sid svc)) \<subseteq> set (view_tasks s)" "distinct (take k (stop_list s sid svc))"
proof -
  have "must_stop s sid svc \<subseteq> set (view_tasks s)"
    using service_tasks_subset [of s sid] by (auto simp: must_stop_def)
  then show "set (take k (stop_list s sid svc)) \<subseteq> set (view_tasks s)"
    using set_take_subset [of k "stop_list s sid svc"] unfolding set_stop_list by blast
  show "distinct (take k (stop_list s sid svc))"
    using distinct_stop_list [OF assms] by (rule distinct_take)
qed

interpretation global: control_loop "global_reconcile_actions sid" for sid
proof
  show "length (global_reconcile_actions sid fresh now s) \<le> MAX_TX_ACTIONS" for fresh now s
    by (simp add: global_reconcile_actions_def Let_def del: take_append split: option.split)
next
  fix s :: "('a, 'b) store_inner" and fresh now
  assume wf: "store_wf s" and fresh: "fresh_ids fresh (store_map s)"
  show "independent_tx (store_map s) (global_reconcile_actions sid fresh now s)"
  proof (cases "\<exists>svc. view_service s sid = Some svc \<and> sspec_mode (service_spec svc) = Global")
    case True
    then obtain svc where svc: "view_service s sid = Some svc" "sspec_mode (service_spec svc) = Global"
      by blast
    show ?thesis
      unfolding global_reconcile_eq [OF svc]
      by (intro global_independent [OF wf fresh] stop_list_stored [OF wf])
  next
    case False
    then have "global_reconcile_actions sid fresh now s = []"
      by (auto simp: global_reconcile_actions_def split: option.split)
    then show ?thesis
      by (simp add: independent_tx_def)
  qed
qed

section \<open>Convergence\<close>

definition runs_global :: "('lid, 'mem) store_inner \<Rightarrow> id \<Rightarrow> service \<Rightarrow> bool" where
  "runs_global s sid svc \<longleftrightarrow> store_wf s \<and> view_service s sid = Some svc \<and>
     sspec_mode (service_spec svc) = Global"

text \<open>Every node that should run the service holds a task the cluster wants, and no node that must
  not run it holds one that is still wanted and not yet stopped.\<close>

definition settled :: "('lid, 'mem) store_inner \<Rightarrow> id \<Rightarrow> service \<Rightarrow> bool" where
  "settled s sid svc \<longleftrightarrow>
     (\<forall>n \<in> set (view_nodes s). node_verdict n (wants svc) = Run \<longrightarrow>
        (\<exists>t \<in> set (service_tasks s sid). task_node_id t = Some (node_id n) \<and>
           task_desired_state t \<le> desired_state.Running)) \<and>
     (\<forall>t \<in> set (service_tasks s sid). evictable t \<longrightarrow>
        (\<forall>nid. task_node_id t = Some nid \<longrightarrow> \<not> rejected_node s (wants svc) nid))"

lemma settled_iff: "settled s sid svc \<longleftrightarrow> must_start s sid svc = {} \<and> must_stop s sid svc = {}"
  by (auto simp: settled_def must_start_def must_stop_def)

definition global_distance :: "('lid, 'mem) store_inner \<Rightarrow> id \<Rightarrow> service \<Rightarrow> nat" where
  "global_distance s sid svc = card (must_start s sid svc) + card (must_stop s sid svc)"

lemma global_finite [simp]: "finite (must_start s sid svc)" "finite (must_stop s sid svc)"
  by (simp_all add: must_start_def must_stop_def)

lemma global_idle:
  assumes "runs_global s sid svc"
  shows "global_reconcile_actions sid fresh now s = [] \<longleftrightarrow> settled s sid svc"
proof -
  have svc: "view_service s sid = Some svc" "sspec_mode (service_spec svc) = Global"
    using assms by (simp_all add: runs_global_def)
  have pos: "MAX_TX_ACTIONS \<noteq> 0"
    by (simp add: MAX_TX_ACTIONS_def)
  have nil: "new_global_tasks fresh now svc ns = [] \<longleftrightarrow> ns = []" for ns
    using new_global_tasks_length [of fresh now svc ns] by (metis length_0_conv)
  have "global_reconcile_actions sid fresh now s = [] \<longleftrightarrow>
      stop_list s sid svc = [] \<and> start_list s sid svc = []"
    unfolding global_reconcile_eq [OF svc] append_is_Nil_conv map_is_Nil_conv nil
    using pos by (cases "stop_list s sid svc") simp_all
  also have "\<dots> \<longleftrightarrow> settled s sid svc"
    unfolding settled_iff set_start_list [symmetric] set_stop_list [symmetric] set_empty by blast
  finally show ?thesis .
qed

lemma service_tasks_mem:
  "t \<in> set (service_tasks s sid) \<longleftrightarrow> t \<in> set (view_tasks s) \<and> task_service_id t = Some sid"
  by (simp add: service_tasks_def)

lemma run_not_rejected:
  assumes "store_wf s" "n \<in> set (view_nodes s)" "node_verdict n req = Run"
  shows "\<not> rejected_node s req (node_id n)"
  using assms by (simp add: view_nodes_iff rejected_node_def)

lemma global_pass_shrinks:
  assumes wf: "store_wf s" "store_wf s'" and sid: "service_id svc = sid"
    and nodes: "\<And>i. view_node s' i = view_node s i"
    and ds: "set ds \<subseteq> must_stop s sid svc" and ns: "set ns \<subseteq> must_start s sid svc"
    and tasks: "set (view_tasks s') = (set (view_tasks s) - set ds) \<union>
      (stamp_task v \<circ> mark_shutdown now) ` set ds \<union>
      stamp_task v ` set (new_global_tasks fresh now svc ns)"
  shows "must_stop s' sid svc \<subseteq> must_stop s sid svc - set ds"
    and "must_start s' sid svc \<subseteq> must_start s sid svc - set ns"
proof -
  have rejected: "rejected_node s' req i = rejected_node s req i" for req i
    by (simp add: rejected_node_def nodes)
  have view_nodes: "set (view_nodes s') = set (view_nodes s)"
    by (simp add: set_eq_iff view_nodes_iff [OF wf(1)] view_nodes_iff [OF wf(2)] nodes)
  show "must_stop s' sid svc \<subseteq> must_stop s sid svc - set ds"
  proof
    fix t assume t: "t \<in> must_stop s' sid svc"
    then obtain nid where nid: "t \<in> set (view_tasks s')" "task_service_id t = Some sid" "evictable t"
      "task_node_id t = Some nid" "rejected_node s (wants svc) nid"
      by (auto simp: must_stop_def service_tasks_mem rejected)
    consider "t \<in> set (view_tasks s) - set ds" | u where "t = stamp_task v (mark_shutdown now u)"
      | u where "t = stamp_task v u" "u \<in> set (new_global_tasks fresh now svc ns)"
      using nid(1) unfolding tasks by auto
    then show "t \<in> must_stop s sid svc - set ds"
    proof cases
      case 1
      with nid show ?thesis by (auto simp: must_stop_def service_tasks_mem)
    next
      case 2
      with nid(3) show ?thesis by (simp add: evictable_simps)
    next
      case 3
      then obtain n where "n \<in> set ns" "task_node_id t = Some (node_id n)"
        using new_global_tasks_mem by fastforce
      with ns nid(4,5) run_not_rejected [OF wf(1)] show ?thesis
        by (auto simp: must_start_def)
    qed
  qed
  show "must_start s' sid svc \<subseteq> must_start s sid svc - set ns"
  proof
    fix n assume n: "n \<in> must_start s' sid svc"
    then have run: "n \<in> set (view_nodes s)" "node_verdict n (wants svc) = Run"
      by (auto simp: must_start_def view_nodes)
    have none: "\<not> (t \<in> set (view_tasks s') \<and> task_service_id t = Some sid \<and>
        task_node_id t = Some (node_id n) \<and> task_desired_state t \<le> desired_state.Running)" for t
      using n by (auto simp: must_start_def service_tasks_mem)
    have "t \<notin> set ds" if "task_node_id t = Some (node_id n)" for t
      using that ds run_not_rejected [OF wf(1) run] by (auto simp: must_stop_def)
    then have "\<not> (t \<in> set (view_tasks s) \<and> task_service_id t = Some sid \<and>
        task_node_id t = Some (node_id n) \<and> task_desired_state t \<le> desired_state.Running)" for t
      using none [of t] unfolding tasks by blast
    then have "n \<in> must_start s sid svc"
      using run by (auto simp: must_start_def service_tasks_mem)
    moreover have "n \<notin> set ns"
    proof
      assume "n \<in> set ns"
      then have "Some (node_id n) \<in> task_node_id ` set (new_global_tasks fresh now svc ns)"
        unfolding new_global_tasks_nodes by blast
      then obtain u where u: "u \<in> set (new_global_tasks fresh now svc ns)" "task_node_id u = Some (node_id n)"
        by auto
      with none [of "stamp_task v u"] new_global_tasks_mem [OF u(1)] show False
        unfolding tasks by (auto simp: sid)
    qed
    ultimately show "n \<in> must_start s sid svc - set ns" by blast
  qed
qed

lemma card_shrink:
  assumes "finite A" "A' \<subseteq> A - X" "X \<subseteq> A"
  shows "card A' + card X \<le> card A"
proof -
  have "card A' \<le> card (A - X)"
    using assms by (intro card_mono) auto
  then show ?thesis
    using assms card_mono [of A X] by (simp add: card_Diff_subset finite_subset)
qed

lemma global_pass_decreases:
  assumes runs: "runs_global s sid svc" and fresh: "fresh_ids fresh (store_map s)"
    and some: "global_reconcile_actions sid fresh now s \<noteq> []"
    and tx: "apply_transaction s \<lparr>proposal_actions = global_reconcile_actions sid fresh now s\<rparr> index len =
      (proposal_response.Applied index, evs, s')"
  shows "runs_global s' sid svc \<and> global_distance s' sid svc < global_distance s sid svc"
proof -
  have wf: "store_wf s" and svc: "view_service s sid = Some svc" "sspec_mode (service_spec svc) = Global"
    using runs by (simp_all add: runs_global_def)
  define ds where "ds = take MAX_TX_ACTIONS (stop_list s sid svc)"
  define ns where "ns = take (MAX_TX_ACTIONS - length (stop_list s sid svc)) (start_list s sid svc)"
  have acts: "global_reconcile_actions sid fresh now s =
      map (stopping now) ds @ map creation (new_global_tasks fresh now svc ns)"
    by (simp only: global_reconcile_eq [OF svc] ds_def ns_def)
  have indep: "independent_tx (store_map s) (global_reconcile_actions sid fresh now s)"
    using global.decide_independent [OF wf fresh] .
  have stored: "set ds \<subseteq> set (view_tasks s)"
    using stop_list_stored(1) [OF wf] by (simp add: ds_def)
  note changes = pass_changes [OF wf acts tx indep stored mark_shutdown_simps(7)]
  have ds: "set ds \<subseteq> must_stop s sid svc" and ns: "set ns \<subseteq> must_start s sid svc"
    unfolding ds_def ns_def set_stop_list [symmetric] set_start_list [symmetric] by (rule set_take_subset)+
  note shrinks = global_pass_shrinks [OF wf changes(1) view_service_id [OF wf svc(1)]
      changes(4) ds ns changes(2)]
  have "card (set ds) + card (set ns) > 0"
    using some unfolding acts by (auto simp: new_global_tasks_def card_gt_0_iff)
  then have "global_distance s' sid svc < global_distance s sid svc"
    using card_shrink [OF _ shrinks(1) ds] card_shrink [OF _ shrinks(2) ns] unfolding global_distance_def by simp linarith
  moreover have "runs_global s' sid svc"
    using changes(1) changes(3) [of sid] svc by (simp add: runs_global_def)
  ultimately show ?thesis
    by simp
qed

interpretation global: converging_loop "global_reconcile_actions sid" "\<lambda>s. runs_global s sid svc"
    "\<lambda>s. settled s sid svc" "\<lambda>s. global_distance s sid svc" for sid svc
proof
  show "runs_global s sid svc \<Longrightarrow> store_wf s" for s :: "('a, 'b) store_inner"
    by (simp add: runs_global_def)
qed (rule global_idle global_pass_decreases; assumption)+

text \<open>
  C6. The reconciliation of a global service converges: passes come to an end, in a store where every
  node that should run the service holds a task the cluster wants and no rejected or vanished node
  holds one that is wanted and unfinished; there, and only there, a pass derives nothing.
\<close>

theorem global_converges:
  assumes "runs_global s sid svc"
  shows "(\<nexists>f. f 0 = s \<and> (\<forall>i. loop_pass (global_reconcile_actions sid) (f i) (f (Suc i)))) \<and>
    (\<exists>s'. (loop_pass (global_reconcile_actions sid))\<^sup>*\<^sup>* s s' \<and> runs_global s' sid svc \<and> settled s' sid svc) \<and>
    (global_reconcile_actions sid fresh now s = [] \<longleftrightarrow> settled s sid svc)"
  using global.terminates [OF assms] global.reaches [OF assms] global.idle [OF assms] by blast

definition w_global :: "(nat, nat list) store_inner" where
  "w_global = sample_store
     [Create (store_object.Service (sample_service ''svc'' Global)),
        Create (store_object.Node (sample_node ''n1'' node_state.Ready Active)),
        Create (store_object.Node (sample_node ''n2'' node_state.Ready Drain))]"

theorem global_converges_witness:
  "\<exists>svc. runs_global w_global ''svc'' svc \<and> \<not> settled w_global ''svc'' svc \<and>
     (\<exists>s'. (loop_pass (global_reconcile_actions ''svc''))\<^sup>*\<^sup>* w_global s' \<and> settled s' ''svc'' svc)"
proof -
  have "store_wf w_global"
    unfolding w_global_def by (rule sample_store_wf)
  moreover have "map_option (sspec_mode \<circ> service_spec) (view_service w_global ''svc'') = Some Global"
    by code_simp
  ultimately obtain svc where runs: "runs_global w_global ''svc'' svc"
    by (auto simp: runs_global_def)
  have "length (global_reconcile_actions ''svc'' show_nat 0 w_global) = 1"
    by code_simp
  then have "global_reconcile_actions ''svc'' show_nat 0 w_global \<noteq> []"
    by auto
  with runs global_converges [OF runs, of show_nat 0] show ?thesis
    by blast
qed

end
