(* ===== verification/Orch_Restart.thy ===== *)
theory Orch_Restart
  imports Orch_Dirty Orch_Propose
begin

text \<open>
  \<open>satl-orchestrator/src/restart.rs\<close>: the restart supervisor. It judges tasks that stopped although
  the cluster wants them, and tasks whose node can no longer run them; queues what it decided; and,
  when the delay is over, stops the task and creates its replacement in one transaction. The two
  clocks (\<open>SystemTime\<close>, and \<open>Instant\<close> in nanoseconds) are arguments.
\<close>

section \<open>Triggers\<close>

datatype trigger = Terminated | InvalidNode invalidity | ConstraintsUnmet

datatype trigger_kind = KTerminated | KInvalidNode | KConstraintsUnmet

definition is_node_driven :: "trigger_kind \<Rightarrow> bool" where
  "is_node_driven k = (case k of KTerminated \<Rightarrow> False | KInvalidNode \<Rightarrow> True | KConstraintsUnmet \<Rightarrow> True)"

definition trigger_kind_of :: "trigger \<Rightarrow> trigger_kind" where
  "trigger_kind_of tr = (case tr of
       Terminated \<Rightarrow> KTerminated | InvalidNode _ \<Rightarrow> KInvalidNode | ConstraintsUnmet \<Rightarrow> KConstraintsUnmet)"

definition skips_delay :: "trigger \<Rightarrow> bool" where
  "skips_delay tr \<longleftrightarrow> tr = InvalidNode Drained"

definition evicts :: "trigger \<Rightarrow> bool" where
  "evicts tr = (case tr of Terminated \<Rightarrow> False | InvalidNode _ \<Rightarrow> True | ConstraintsUnmet \<Rightarrow> True)"

definition applies_to_global :: "trigger \<Rightarrow> bool" where
  "applies_to_global tr \<longleftrightarrow> tr = Terminated"

section \<open>The policy\<close>

datatype restart_decision = Restart | ConditionNotMet | AttemptsExhausted

definition decide_restart :: "restart_policy \<Rightarrow> task_state \<Rightarrow> nat \<Rightarrow> restart_decision" where
  "decide_restart policy observed tries =
     (let covered = (case restart_condition policy of
           None_rc \<Rightarrow> False | OnFailure \<Rightarrow> observed \<noteq> task_state.Complete | Any \<Rightarrow> True)
      in if \<not> covered then ConditionNotMet
         else if max_attempts policy > 0 \<and> tries \<ge> max_attempts policy then AttemptsExhausted
         else Restart)"

definition attempts_in_window :: "system_time list \<Rightarrow> duration \<Rightarrow> system_time \<Rightarrow> nat" where
  "attempts_in_window history window failure_at =
     (if window = 0 then length history
      else length (filter (\<lambda>t. t \<le> failure_at \<and> nat (failure_at - t) \<le> window) history))"

record restart_key =
  rk_slot :: slot_tuple
  rk_spec_version :: "version option"

definition restart_key_of :: "task \<Rightarrow> restart_key option" where
  "restart_key_of t = map_option (\<lambda>sl. \<lparr>rk_slot = sl, rk_spec_version = task_spec_version t\<rparr>) (slot_tuple_of t)"

text \<open>
  \<open>RestartHistory\<close>: the map from a replica to the creation times of its tasks but the first; a key
  the map does not hold reads as the empty list.
\<close>

type_synonym restart_history = "restart_key \<Rightarrow> system_time list"

definition replay :: "task list \<Rightarrow> restart_history" where
  "replay tasks key = map fst (drop 1 (sort (map (\<lambda>t. (created_at (task_meta t), task_id t))
     (filter (\<lambda>t. max_attempts (tspec_restart (task_spec t)) \<noteq> 0 \<and> restart_key_of t = Some key) tasks))))"

definition history_from_view :: "('lid, 'mem) store_inner \<Rightarrow> restart_history" where
  "history_from_view view = replay (view_tasks view)"

definition history_attempts ::
  "restart_history \<Rightarrow> restart_key \<Rightarrow> restart_policy \<Rightarrow> system_time \<Rightarrow> nat" where
  "history_attempts history key policy failure_at =
     (if max_attempts policy = 0 then 0
      else attempts_in_window (history key) (restart_window policy) failure_at)"

section \<open>Predicates on the store\<close>

definition needs_decision :: "task \<Rightarrow> bool" where
  "needs_decision t \<longleftrightarrow> is_terminal (status_state (task_status t)) \<and>
     task_desired_state t = desired_state.Running"

definition is_job_task :: "('lid, 'mem) store_inner \<Rightarrow> task \<Rightarrow> bool" where
  "is_job_task view t \<longleftrightarrow> (case Option.bind (task_service_id t) (view_service view) of
       None \<Rightarrow> False | Some svc \<Rightarrow> is_job (sspec_mode (service_spec svc)))"

definition task_trigger :: "task \<Rightarrow> node option \<Rightarrow> ('lid, 'mem) store_inner \<Rightarrow> trigger option" where
  "task_trigger t nd view =
     (if \<not> evictable t then None
      else case evict_reason t nd of
          Some reason \<Rightarrow> Some (InvalidNode reason)
        | None \<Rightarrow> (case nd of
            None \<Rightarrow> None
          | Some n \<Rightarrow> (case Option.bind (task_service_id t) (view_service view) of
              None \<Rightarrow> None
            | Some svc \<Rightarrow> if constraints_unmet svc t n then Some ConstraintsUnmet else None)))"

definition bound_node :: "('lid, 'mem) store_inner \<Rightarrow> task \<Rightarrow> node option" where
  "bound_node view t = Option.bind (task_node_id t) (view_node view)"

definition placement_inputs_changed :: "node \<Rightarrow> node option \<Rightarrow> bool" where
  "placement_inputs_changed n previous = (case previous of
       None \<Rightarrow> True
     | Some p \<Rightarrow> nspec_labels (node_spec p) \<noteq> nspec_labels (node_spec n) \<or>
         nspec_availability (node_spec p) \<noteq> nspec_availability (node_spec n))"

definition still_applicable :: "task \<Rightarrow> trigger \<Rightarrow> ('lid, 'mem) store_inner \<Rightarrow> bool" where
  "still_applicable t tr view = (case tr of
       Terminated \<Rightarrow> needs_decision t
     | _ \<Rightarrow> task_trigger t (bound_node view t) view \<noteq> None)"

section \<open>The supervisor\<close>

type_synonym instant = nat

record pending_restart =
  pr_at :: instant
  pr_task_id :: id
  pr_replace :: bool
  pr_trigger :: trigger

record restart_supervisor =
  rs_decided :: "(id \<times> trigger_kind) set"
  rs_pending :: "pending_restart list"

definition evaluate ::
  "instant \<Rightarrow> task \<Rightarrow> trigger \<Rightarrow> restart_history \<Rightarrow> restart_supervisor \<Rightarrow> restart_supervisor" where
  "evaluate now t tr history rs =
     (let decision_key = (task_id t, trigger_kind_of tr);
          decided = rs\<lparr>rs_decided := insert decision_key (rs_decided rs)\<rparr>
      in if decision_key \<in> rs_decided rs then rs
         else if list_ex (\<lambda>p. pr_task_id p = task_id t) (rs_pending rs) then rs
         else if is_global_task t \<and> \<not> applies_to_global tr then decided
         else case restart_key_of t of
             None \<Rightarrow> decided
           | Some key \<Rightarrow>
               (let policy = tspec_restart (task_spec t);
                    tries = history_attempts history key policy (task_timestamp t);
                    replace = (decide_restart policy (status_state (task_status t)) tries = Restart)
                in if \<not> replace \<and> \<not> evicts tr then decided
                   else let delay = (if replace \<and> \<not> skips_delay tr then restart_delay policy else 0)
                        in decided\<lparr>rs_pending := rs_pending rs @
                             [\<lparr>pr_at = now + delay, pr_task_id = task_id t, pr_replace = replace,
                               pr_trigger = tr\<rparr>]\<rparr>))"

text \<open>Each of the entry points reads the store as it is then.\<close>

definition observe_task ::
  "instant \<Rightarrow> ('lid, 'mem) store_inner \<Rightarrow> task \<Rightarrow> restart_supervisor \<Rightarrow> restart_supervisor" where
  "observe_task now view t rs =
     (if \<not> needs_decision t \<and> \<not> evictable t then rs
      else if is_job_task view t then rs
      else let rs1 = (if needs_decision t then evaluate now t Terminated (history_from_view view) rs else rs)
           in if \<not> evictable t then rs1
              else case task_trigger t (bound_node view t) view of
                  Some tr \<Rightarrow> evaluate now t tr (history_from_view view) rs1
                | None \<Rightarrow> rs1)"

definition node_work ::
  "('lid, 'mem) store_inner \<Rightarrow> id \<Rightarrow> invalidity option \<Rightarrow> (task \<times> trigger) list" where
  "node_work view nid reason =
     List.map_filter (\<lambda>t. map_option (Pair t) (case reason of
         Some r \<Rightarrow> if evictable t then Some (InvalidNode r) else None
       | None \<Rightarrow> task_trigger t (view_node view nid) view))
       (filter (\<lambda>t. task_node_id t = Some nid \<and> \<not> is_job_task view t) (view_tasks view))"

definition evaluate_all ::
  "instant \<Rightarrow> restart_history \<Rightarrow> (task \<times> trigger) list \<Rightarrow> restart_supervisor \<Rightarrow> restart_supervisor" where
  "evaluate_all now history work rs = fold (\<lambda>(t, tr). evaluate now t tr history) work rs"

definition evict_node_tasks ::
  "instant \<Rightarrow> ('lid, 'mem) store_inner \<Rightarrow> id \<Rightarrow> invalidity option \<Rightarrow> restart_supervisor \<Rightarrow> restart_supervisor" where
  "evict_node_tasks now view nid reason rs =
     (let work = node_work view nid reason
      in if work = [] then rs else evaluate_all now (history_from_view view) work rs)"

definition forget_node_decisions ::
  "('lid, 'mem) store_inner \<Rightarrow> id \<Rightarrow> restart_supervisor \<Rightarrow> restart_supervisor" where
  "forget_node_decisions view nid rs =
     (if \<not> (\<exists>(_, k) \<in> rs_decided rs. is_node_driven k) then rs
      else let on_node = set (map task_id (filter (\<lambda>t. task_node_id t = Some nid) (view_tasks view)))
           in rs\<lparr>rs_decided := {(i, k) \<in> rs_decided rs. \<not> is_node_driven k \<or> i \<notin> on_node}\<rparr>)"

definition observe_node ::
  "instant \<Rightarrow> ('lid, 'mem) store_inner \<Rightarrow> node \<Rightarrow> node option \<Rightarrow> restart_supervisor \<Rightarrow> restart_supervisor" where
  "observe_node now view n previous rs = (case node_invalidity (Some n) of
       Some reason \<Rightarrow> evict_node_tasks now view (node_id n) (Some reason) rs
     | None \<Rightarrow>
         (let rs1 = forget_node_decisions view (node_id n) rs
          in if placement_inputs_changed n previous then evict_node_tasks now view (node_id n) None rs1
             else rs1))"

definition full_pass_work :: "('lid, 'mem) store_inner \<Rightarrow> (task \<times> trigger) list" where
  "full_pass_work view = List.map_filter (\<lambda>t.
     if is_job_task view t then None
     else if needs_decision t then Some (t, Terminated)
     else map_option (Pair t) (task_trigger t (bound_node view t) view)) (view_tasks view)"

definition restart_full_pass ::
  "instant \<Rightarrow> ('lid, 'mem) store_inner \<Rightarrow> restart_supervisor \<Rightarrow> restart_supervisor" where
  "restart_full_pass now view rs =
     evaluate_all now (history_from_view view) (full_pass_work view)
       (rs\<lparr>rs_decided := {(i, k) \<in> rs_decided rs. i \<in> set (map task_id (view_tasks view))}\<rparr>)"

text \<open>\<open>fire_due\<close>: the entries whose time has come, and the supervisor without them.\<close>

definition take_due :: "instant \<Rightarrow> restart_supervisor \<Rightarrow> pending_restart list \<times> restart_supervisor" where
  "take_due now rs = (filter (\<lambda>p. pr_at p \<le> now) (rs_pending rs),
     rs\<lparr>rs_pending := filter (\<lambda>p. \<not> pr_at p \<le> now) (rs_pending rs)\<rparr>)"

text \<open>The decision \<open>restart\<close> proposes, and what the supervisor does with the outcome.\<close>

definition restart_actions ::
  "id \<Rightarrow> bool \<Rightarrow> trigger \<Rightarrow> (nat \<Rightarrow> id) \<Rightarrow> system_time \<Rightarrow> ('lid, 'mem) store_inner \<Rightarrow> store_action list" where
  "restart_actions tid replace tr fresh now view = (case view_task view tid of
       None \<Rightarrow> []
     | Some old \<Rightarrow>
         if \<not> still_applicable old tr view then []
         else case raise_desired_state now old desired_state.Shutdown of
             None \<Rightarrow> []
           | Some shutdown \<Rightarrow> (case Option.bind (task_service_id old) (view_service view) of
               Some svc \<Rightarrow>
                 if \<not> replace then [shutdown]
                 else let replacement = (case task_node_id old of
                            Some nid \<Rightarrow> if is_global_task old then new_global_task (fresh 0) now svc nid
                                       else new_task (fresh 0) now svc (task_slot old)
                          | None \<Rightarrow> new_task (fresh 0) now svc (task_slot old))
                      in [shutdown, Create (store_object.Task
                            (replacement\<lparr>task_desired_state := task_desired_state old\<rparr>))]
             | None \<Rightarrow> [shutdown]))"

definition restart_outcome ::
  "id \<Rightarrow> trigger \<Rightarrow> ('e propose_retry_error, version option) result \<Rightarrow> restart_supervisor \<Rightarrow>
   restart_supervisor" where
  "restart_outcome tid tr outcome rs = (case outcome of
       Inr _ \<Rightarrow> rs
     | Inl _ \<Rightarrow> rs\<lparr>rs_decided := rs_decided rs - {(tid, trigger_kind_of tr)}\<rparr>)"

end
