(* ===== verification/Orch_Restart_Proofs.thy ===== *)
theory Orch_Restart_Proofs
  imports Orch_Restart Orch_Replicated_Proofs
begin

text \<open>
  The restart supervisor: its transaction keeps the contract of a control loop, replaces a task in
  its own slot, and disturbs no other loop; the queue holds one action per task; the history
  replayed from the store counts the tasks a replica has had.
\<close>

section \<open>The transaction\<close>

text \<open>Whether a replacement is created, and which.\<close>

definition replacing :: "('lid, 'mem) store_inner \<Rightarrow> bool \<Rightarrow> task \<Rightarrow> service option" where
  "replacing s replace old =
     (if replace then Option.bind (task_service_id old) (view_service s) else None)"

definition replacement :: "id \<Rightarrow> system_time \<Rightarrow> service \<Rightarrow> task \<Rightarrow> task" where
  "replacement i now svc old =
     (build_task i now svc (task_slot old) (if is_global_task old then task_node_id old else None))
       \<lparr>task_desired_state := task_desired_state old\<rparr>"

lemma replacement_simps [simp]:
  "task_id (replacement i now svc old) = i"
  "task_slot (replacement i now svc old) = task_slot old"
  "task_desired_state (replacement i now svc old) = task_desired_state old"
  "task_service_id (replacement i now svc old) = Some (service_id svc)"
  by (simp_all add: replacement_def build_task_def Let_def)

lemma replacement_slot:
  assumes "task_service_id old = Some (service_id svc)"
  shows "slot_tuple_of (replacement i now svc old) = slot_tuple_of old"
  using assms
  by (simp add: slot_tuple_of_def is_global_task_def replacement_def build_task_def Let_def)

lemma applicable_wanted: "still_applicable t tr s \<Longrightarrow> task_desired_state t \<le> desired_state.Running"
  by (auto simp: still_applicable_def needs_decision_def task_trigger_def evictable_def
      split: trigger.splits if_splits)

lemma wanted_simps:
  "task_desired_state t \<le> desired_state.Running \<Longrightarrow> task_desired_state t < desired_state.Shutdown"
  "task_desired_state t \<le> desired_state.Running \<Longrightarrow> \<not> is_removing t"
  "\<not> desired_state.Shutdown \<le> desired_state.Running"
  by (cases "task_desired_state t"; simp add: order_defs is_removing_def)+

definition restart_target :: "('lid, 'mem) store_inner \<Rightarrow> id \<Rightarrow> trigger \<Rightarrow> task option" where
  "restart_target s tid tr = (case view_task s tid of
       Some old \<Rightarrow> if still_applicable old tr s then Some old else None | None \<Rightarrow> None)"

lemma restart_actions_eq:
  "restart_actions tid replace tr fresh now s = (case restart_target s tid tr of
       None \<Rightarrow> []
     | Some old \<Rightarrow> map (stopping now) [old] @ map creation (case replacing s replace old of
         None \<Rightarrow> [] | Some svc \<Rightarrow> [replacement (fresh 0) now svc old]))"
proof (cases "restart_target s tid tr")
  case None
  then show ?thesis
    by (auto simp: restart_actions_def restart_target_def split: option.splits if_splits)
next
  case (Some old)
  then have old: "view_task s tid = Some old" "still_applicable old tr s"
    by (auto simp: restart_target_def split: option.splits if_splits)
  have "raise_desired_state now old desired_state.Shutdown = Some (stopping now old)"
    using applicable_wanted [OF old(2)] by (simp add: raise_shutdown_iff wanted_simps)
  then show ?thesis
    using Some old
    by (auto simp: restart_actions_def replacing_def replacement_def new_task_def new_global_task_def
        is_global_task_def split: option.split)
qed

interpretation restart: control_loop "restart_actions tid replace tr" for tid replace tr
proof
  show "length (restart_actions tid replace tr fresh now s) \<le> MAX_TX_ACTIONS" for fresh now s
    by (simp add: restart_actions_eq MAX_TX_ACTIONS_def split: option.split)
next
  fix s :: "('a, 'b) store_inner" and fresh now
  assume wf: "store_wf s" and fresh: "fresh_ids fresh (store_map s)"
  show "independent_tx (store_map s) (restart_actions tid replace tr fresh now s)"
  proof (cases "restart_target s tid tr")
    case None
    then show ?thesis by (simp add: restart_actions_eq independent_tx_def)
  next
    case (Some old)
    define ns where "ns = (case replacing s replace old of
      None \<Rightarrow> [] | Some svc \<Rightarrow> [replacement (fresh 0) now svc old])"
    have "view_task s tid = Some old"
      using Some by (auto simp: restart_target_def split: option.splits if_splits)
    then have "set [old] \<subseteq> set (view_tasks s)"
      using view_task_id [OF wf] by (simp add: view_tasks_iff [OF wf])
    moreover have "distinct (map task_id ns)" "\<And>t. t \<in> set ns \<Longrightarrow> store_map s (object_kind.Task, task_id t) = None"
      using fresh by (auto simp: ns_def fresh_ids_def split: option.splits)
    ultimately have "independent_tx (store_map s) (map (stopping now) [old] @ map creation ns)"
      by (intro updates_then_creates [OF wf]) simp_all
    then show ?thesis
      by (simp add: restart_actions_eq Some ns_def)
  qed
qed

section \<open>What a restart leaves\<close>

text \<open>The tasks of a replica the cluster wants to run.\<close>

definition wanted_in :: "('lid, 'mem) store_inner \<Rightarrow> slot_tuple \<Rightarrow> task set" where
  "wanted_in s sl = {t \<in> set (view_tasks s). slot_tuple_of t = Some sl \<and>
     task_desired_state t \<le> desired_state.Running}"

lemma slot_tuple_simps [simp]:
  "slot_tuple_of (stamp_task v t) = slot_tuple_of t"
  "slot_tuple_of (mark_shutdown now t) = slot_tuple_of t"
  by (simp_all add: slot_tuple_of_def is_global_task_def)

lemma is_removing_simps [simp]:
  "is_removing (stamp_task v t) = is_removing t" "\<not> is_removing (mark_shutdown now t)"
  by (simp_all add: is_removing_def)

lemma replacing_service:
  assumes "store_wf s" "replacing s replace old = Some svc"
  shows "task_service_id old = Some (service_id svc)"
  using assms view_service_id [OF assms(1)]
  by (auto simp: replacing_def split: if_splits bind_splits)

lemma restart_pass_tasks:
  assumes wf: "store_wf s" and pass: "loop_pass (restart_actions tid replace tr) s s'"
  obtains old new v now where "view_task s tid = Some old" "task_desired_state old \<le> desired_state.Running"
    "old \<in> set (view_tasks s)" "store_wf s'" "\<And>i. view_service s' i = view_service s i"
    "set (view_tasks s') = insert (stamp_task v (mark_shutdown now old)) (set (view_tasks s) - {old}) \<union> set new"
    "\<And>t. t \<in> set new \<Longrightarrow> task_id t \<notin> task_id ` set (view_tasks s) \<and> slot_tuple_of t = slot_tuple_of old \<and>
       task_service_id t = task_service_id old \<and>
       task_slot t = task_slot old \<and> task_desired_state t = task_desired_state old"
    "length new = (if replacing s replace old = None then 0 else 1)"
  using pass
proof (rule loop_passE)
  fix fresh now index len evs
  assume fresh: "fresh_ids fresh (store_map s)" and some: "restart_actions tid replace tr fresh now s \<noteq> []"
    and tx: "apply_transaction s \<lparr>proposal_actions = restart_actions tid replace tr fresh now s\<rparr> index len =
      (proposal_response.Applied index, evs, s')"
  obtain old where old: "restart_target s tid tr = Some old"
    using some by (auto simp: restart_actions_eq split: option.splits)
  then have view: "view_task s tid = Some old" and wanted: "task_desired_state old \<le> desired_state.Running"
    by (auto simp: restart_target_def applicable_wanted split: option.splits if_splits)
  then have mem: "old \<in> set (view_tasks s)"
    using view_task_id [OF wf] by (simp add: view_tasks_iff [OF wf])
  define ns where "ns = (case replacing s replace old of
      None \<Rightarrow> [] | Some svc \<Rightarrow> [replacement (fresh 0) now svc old])"
  have acts: "restart_actions tid replace tr fresh now s = map (stopping now) [old] @ map creation ns"
    by (simp add: restart_actions_eq old ns_def)
  note changes = pass_changes [OF wf acts tx restart.decide_independent [OF wf fresh] _ mark_shutdown_simps(7)]
  have new: "task_id t \<notin> task_id ` set (view_tasks s) \<and> slot_tuple_of t = slot_tuple_of old \<and>
      task_service_id t = task_service_id old \<and>
      task_slot t = task_slot old \<and> task_desired_state t = task_desired_state old"
    if t: "t \<in> set (map (stamp_task index) ns)" for t
  proof -
    obtain svc where svc: "replacing s replace old = Some svc"
      "t = stamp_task index (replacement (fresh 0) now svc old)"
      using t by (cases "replacing s replace old") (simp_all add: ns_def)
    show ?thesis
      using fresh_not_stored [OF wf fresh, of 0] svc replacing_service [OF wf svc(1)] by (simp add: replacement_slot)
  qed
  show thesis
    by (rule that [OF view wanted mem changes(1) changes(3), of index now "map (stamp_task index) ns"])
      (use mem changes(2) new in \<open>auto simp: ns_def split: option.split\<close>)
qed

lemma restart_pass_slots:
  assumes "store_wf s" "loop_pass (restart_actions tid replace tr) s s'"
  shows "task_slots (service_tasks s' sid) = task_slots (service_tasks s sid)"
proof -
  obtain old new v now where old: "task_desired_state old \<le> desired_state.Running" "old \<in> set (view_tasks s)"
    and tasks: "set (view_tasks s') =
      insert (stamp_task v (mark_shutdown now old)) (set (view_tasks s) - {old}) \<union> set new"
    and new: "\<And>t. t \<in> set new \<Longrightarrow> task_service_id t = task_service_id old \<and>
       task_slot t = task_slot old \<and> task_desired_state t = task_desired_state old"
    by (rule restart_pass_tasks [OF assms]) blast
  define live where "live T = {t \<in> T. task_service_id t = Some sid \<and> \<not> is_removing t}" for T
  have slots: "task_slots (service_tasks u sid) = task_slot ` live (set (view_tasks u))"
    for u :: "('a, 'b) store_inner"
    by (auto simp: task_slots_def service_tasks_def live_def)
  show ?thesis
  proof (cases "task_service_id old = Some sid")
    case True
    then have "live (set (view_tasks s')) =
        insert (stamp_task v (mark_shutdown now old)) (live (set (view_tasks s)) - {old}) \<union> set new"
      using new wanted_simps(2) [OF old(1)] unfolding live_def tasks by (auto simp: is_removing_def)
    moreover have "insert (task_slot old) (task_slot ` (live (set (view_tasks s)) - {old})) =
        task_slot ` live (set (view_tasks s))"
      using True old wanted_simps(2) [OF old(1)] by (auto simp: live_def)
    ultimately show ?thesis
      unfolding slots using new by auto
  next
    case False
    then have "live (set (view_tasks s')) = live (set (view_tasks s))"
      using new unfolding live_def tasks by auto
    then show ?thesis
      by (simp add: slots)
  qed
qed

lemma restart_pass_wanted:
  assumes wf: "store_wf s" and pass: "loop_pass (restart_actions tid replace tr) s s'"
  shows "\<exists>old. view_task s tid = Some old \<and> (\<forall>sl. card (wanted_in s' sl) = card (wanted_in s sl) -
    (if slot_tuple_of old = Some sl \<and> replacing s replace old = None then 1 else 0))"
proof -
  obtain old new v now where old: "view_task s tid = Some old" "task_desired_state old \<le> desired_state.Running"
      "old \<in> set (view_tasks s)"
    and tasks: "set (view_tasks s') =
      insert (stamp_task v (mark_shutdown now old)) (set (view_tasks s) - {old}) \<union> set new"
    and new: "\<And>t. t \<in> set new \<Longrightarrow> task_id t \<notin> task_id ` set (view_tasks s) \<and>
       slot_tuple_of t = slot_tuple_of old \<and> task_desired_state t = task_desired_state old"
    and len: "length new = (if replacing s replace old = None then 0 else 1)"
    by (rule restart_pass_tasks [OF assms]) blast
  have "card (wanted_in s' sl) = card (wanted_in s sl) -
      (if slot_tuple_of old = Some sl \<and> replacing s replace old = None then 1 else 0)" for sl
  proof (cases "slot_tuple_of old = Some sl")
    case True
    define st where "st = stamp_task v (mark_shutdown now old)"
    have st: "\<not> task_desired_state st \<le> desired_state.Running"
      using wanted_simps(3) by (simp add: st_def)
    have "t \<in> wanted_in s' sl \<longleftrightarrow> t \<in> (wanted_in s sl - {old}) \<union> set new" for t
    proof (cases "t = st \<or> t \<in> set new")
      case True
      then show ?thesis
        using \<open>slot_tuple_of old = Some sl\<close> st new [of t] old(2)
        unfolding wanted_in_def tasks st_def [symmetric] by auto
    next
      case False
      then show ?thesis
        unfolding wanted_in_def tasks st_def [symmetric] by auto
    qed
    then have "wanted_in s' sl = (wanted_in s sl - {old}) \<union> set new"
      by blast
    moreover have "old \<in> wanted_in s sl" "finite (wanted_in s sl)"
      using True old by (simp_all add: wanted_in_def)
    moreover have "(wanted_in s sl - {old}) \<inter> set new = {}"
      using new by (auto simp: wanted_in_def)
    moreover have "card (set new) = length new"
      using len by (cases new; cases "replacing s replace old") simp_all
    ultimately have "card (wanted_in s' sl) = card (wanted_in s sl) - 1 + length new"
      by (simp add: card_Un_disjoint)
    moreover have "0 < card (wanted_in s sl)"
      using \<open>old \<in> wanted_in s sl\<close> \<open>finite (wanted_in s sl)\<close> by (auto simp: card_gt_0_iff)
    ultimately show ?thesis
      using True len by simp
  next
    case False
    then have "wanted_in s' sl = wanted_in s sl"
      using new unfolding wanted_in_def tasks by auto
    with False show ?thesis by simp
  qed
  with old(1) show ?thesis by blast
qed

text \<open>
  C23. A restart replaces a task within its replica and disturbs nothing else. The one transaction
  leaves every replica (slot, or node of a global service) with as many tasks the cluster wants as
  before; the replica of the stopped task loses one only when nothing replaces it, because the
  policy refused or the service is gone. No slot of any service is freed or taken, so a replicated
  service that was reconciled needs no reconciliation afterwards, and one that was not still does.
\<close>

theorem restart_replaces_in_place:
  assumes "store_wf s" "loop_pass (restart_actions tid replace tr) s s'"
  shows "(\<exists>old. view_task s tid = Some old \<and> (\<forall>sl. card (wanted_in s' sl) = card (wanted_in s sl) -
      (if slot_tuple_of old = Some sl \<and> replacing s replace old = None then 1 else 0))) \<and>
    (runs s sid n \<longrightarrow> runs s' sid n \<and>
      (reconcile_actions sid fresh now s' = [] \<longleftrightarrow> reconcile_actions sid fresh now s = []))"
proof -
  have "store_wf s'" "\<And>i. view_service s' i = view_service s i"
    by (rule restart_pass_tasks [OF assms], blast)+
  then have "runs s' sid n" if "runs s sid n"
    using that by (simp add: runs_def)
  moreover have "reconcile_actions sid fresh now s' = [] \<longleftrightarrow> reconcile_actions sid fresh now s = []"
    if "runs s sid n" "runs s' sid n"
    using that by (simp add: replicated.idle reconciled_def restart_pass_slots [OF assms])
  ultimately show ?thesis
    using restart_pass_wanted [OF assms] by blast
qed

definition w_failed :: "(nat, nat list) store_inner" where
  "w_failed = sample_store
     [Create (store_object.Service (sample_service ''svc'' (Replicated 1))),
      Create (store_object.Task (sample_task ''t1'' ''svc'' 1 task_state.Failed desired_state.Running))]"

theorem restart_replaces_in_place_witness:
  "\<exists>s'. loop_pass (restart_actions ''t1'' True Terminated) w_failed s' \<and>
     card (wanted_in s' \<lparr>st_service_id = ''svc'', st_slot = 1, st_node_id = None\<rparr>) = 1 \<and>
     reconcile_actions ''svc'' show_nat 0 s' = []"
proof -
  define sl where "sl = \<lparr>st_service_id = ''svc'', st_slot = 1, st_node_id = None\<rparr>"
  have wf: "store_wf w_failed"
    unfolding w_failed_def by (rule sample_store_wf)
  have old: "map_option (\<lambda>t. (still_applicable t Terminated w_failed, slot_tuple_of t,
      map_option service_id (replacing w_failed True t))) (view_task w_failed ''t1'') =
      Some (True, Some \<lparr>st_service_id = ''svc'', st_slot = 1, st_node_id = None\<rparr>, Some ''svc'')"
    by code_simp
  then have "restart_actions ''t1'' True Terminated fresh 0 w_failed \<noteq> []" for fresh
    by (auto simp: restart_actions_eq restart_target_def)
  then obtain s' where pass: "loop_pass (restart_actions ''t1'' True Terminated) w_failed s'"
    using restart.pass_exists [OF wf] by blast
  have "map_option (sspec_mode \<circ> service_spec) (view_service w_failed ''svc'') = Some (Replicated 1)"
    by code_simp
  then have "runs w_failed ''svc'' 1"
    using wf by (auto simp: runs_def)
  moreover have "length (reconcile_actions ''svc'' show_nat 0 w_failed) = 0"
    by code_simp
  moreover have "card (wanted_in w_failed sl) = 1"
  proof -
    have "length (filter (\<lambda>t. slot_tuple_of t = Some sl \<and> task_desired_state t \<le> desired_state.Running)
        (view_tasks w_failed)) = 1"
      unfolding sl_def by code_simp
    then obtain y where "filter (\<lambda>t. slot_tuple_of t = Some sl \<and> task_desired_state t \<le> desired_state.Running)
        (view_tasks w_failed) = [y]"
      by (auto simp: length_Suc_conv)
    then have "wanted_in w_failed sl = {y}"
      unfolding wanted_in_def set_filter [symmetric] by simp
    then show ?thesis by simp
  qed
  moreover obtain z where "view_task w_failed ''t1'' = Some z" "replacing w_failed True z \<noteq> None"
    using old by (cases "view_task w_failed ''t1''") auto
  ultimately have "card (wanted_in s' sl) = 1" "reconcile_actions ''svc'' show_nat 0 s' = []"
    using restart_replaces_in_place [OF wf pass, of "''svc''" 1 show_nat 0] by simp_all
  with pass show ?thesis
    unfolding sl_def by blast
qed

section \<open>The budget\<close>

text \<open>
  The tasks a replica has had at its spec version, in the order they were created, and those among
  them that count against a failure: all but the first, within the window if there is one.
\<close>

definition born :: "task \<Rightarrow> system_time \<times> id" where
  "born t = (created_at (task_meta t), task_id t)"

definition budgeted :: "('lid, 'mem) store_inner \<Rightarrow> restart_key \<Rightarrow> task set" where
  "budgeted s key = {t \<in> set (view_tasks s). restart_key_of t = Some key \<and>
     max_attempts (tspec_restart (task_spec t)) \<noteq> 0}"

definition spent ::
  "('lid, 'mem) store_inner \<Rightarrow> restart_key \<Rightarrow> restart_policy \<Rightarrow> system_time \<Rightarrow> task set" where
  "spent s key policy failed_at = {t \<in> budgeted s key. (\<exists>e \<in> budgeted s key. born e < born t) \<and>
     (restart_window policy = 0 \<or>
      created_at (task_meta t) \<le> failed_at \<and> nat (failed_at - created_at (task_meta t)) \<le> restart_window policy)}"

lemma set_drop_first:
  assumes "sorted xs" "distinct xs"
  shows "set (drop 1 xs) = {x \<in> set xs. \<exists>e \<in> set xs. e < x}"
  using assms by (cases xs) (auto simp: order.strict_iff_order)

lemma image_above: "{x \<in> f ` A. \<exists>e \<in> f ` A. e < x} = f ` {t \<in> A. \<exists>e \<in> A. f e < f t}"
  by auto

lemma born_inj: "store_wf s \<Longrightarrow> inj_on born (set (view_tasks s))"
  by (auto simp: inj_on_def born_def dest: view_tasks_unique)

definition births :: "('lid, 'mem) store_inner \<Rightarrow> restart_key \<Rightarrow> (system_time \<times> id) list" where
  "births s key = drop 1 (sort (map born (filter (\<lambda>t. max_attempts (tspec_restart (task_spec t)) \<noteq> 0 \<and>
     restart_key_of t = Some key) (view_tasks s))))"

lemma replay_list:
  assumes wf: "store_wf s"
  shows "history_from_view s key = map fst (births s key)" "distinct (births s key)"
    "set (births s key) = born ` {t \<in> budgeted s key. \<exists>e \<in> budgeted s key. born e < born t}"
proof -
  define B where "B = filter (\<lambda>t. max_attempts (tspec_restart (task_spec t)) \<noteq> 0 \<and>
     restart_key_of t = Some key) (view_tasks s)"
  have B: "set B = budgeted s key"
    by (auto simp: B_def budgeted_def)
  have "inj_on born (set B)"
    using born_inj [OF wf] by (rule inj_on_subset) (auto simp: B_def)
  then have dist: "distinct (map born B)"
    using view_tasks_distinct(2) [OF wf] by (simp add: distinct_map B_def)
  show "history_from_view s key = map fst (births s key)"
    by (simp add: history_from_view_def replay_def births_def born_def [abs_def])
  show "distinct (births s key)"
    using dist by (simp add: births_def B_def)
  have "set (births s key) = {x \<in> set (map born B). \<exists>e \<in> set (map born B). e < x}"
    using set_drop_first [of "sort (map born B)"] dist by (simp add: births_def B_def)
  then show "set (births s key) = born ` {t \<in> budgeted s key. \<exists>e \<in> budgeted s key. born e < born t}"
    by (simp only: set_map B image_above)
qed

lemma history_counts:
  assumes wf: "store_wf s" and max: "max_attempts policy \<noteq> 0"
  shows "history_attempts (history_from_view s) key policy failed_at = card (spent s key policy failed_at)"
proof -
  note xs = replay_list [OF wf, of key]
  define counts where "counts x \<longleftrightarrow> restart_window policy = 0 \<or>
     x \<le> failed_at \<and> nat (failed_at - x) \<le> restart_window policy" for x
  have "history_attempts (history_from_view s) key policy failed_at = length (filter (counts \<circ> fst) (births s key))"
    using max by (simp add: history_attempts_def attempts_in_window_def xs(1) counts_def [abs_def] filter_map comp_def)
  also have "\<dots> = card (set (filter (counts \<circ> fst) (births s key)))"
    using xs(2) by (metis distinct_card distinct_filter)
  also have "set (filter (counts \<circ> fst) (births s key)) = born ` spent s key policy failed_at"
    by (auto simp: xs(3) spent_def counts_def born_def)
  also have "card (born ` spent s key policy failed_at) = card (spent s key policy failed_at)"
    by (rule card_image, rule inj_on_subset [OF born_inj [OF wf]]) (auto simp: spent_def budgeted_def)
  finally show ?thesis .
qed

definition covered_by :: "restart_policy \<Rightarrow> task_state \<Rightarrow> bool" where
  "covered_by policy st \<longleftrightarrow> restart_condition policy = Any \<or>
     restart_condition policy = OnFailure \<and> st \<noteq> task_state.Complete"

lemma decide_restart_iff:
  "decide_restart policy st k = Restart \<longleftrightarrow>
     covered_by policy st \<and> (max_attempts policy = 0 \<or> k < max_attempts policy)"
  by (auto simp: decide_restart_def covered_by_def Let_def split: restart_condition.splits)


text \<open>A replica on its second task with a budget of one restart.\<close>

definition w_crashed :: "id \<Rightarrow> system_time \<Rightarrow> task" where
  "w_crashed i at_time = (sample_task i ''svc'' 1 task_state.Failed desired_state.Running)
     \<lparr>task_meta := \<lparr>meta_version = 1, created_at = at_time, updated_at = at_time\<rparr>,
      task_spec := sample_tspec\<lparr>tspec_restart := sample_restart\<lparr>max_attempts := 1\<rparr>\<rparr>\<rparr>"

definition w_crashes :: "(nat, nat list) store_inner" where
  "w_crashes = sample_store [Create (store_object.Task (w_crashed ''t1'' 0)),
     Create (store_object.Task (w_crashed ''t2'' 7))]"


end
