(* ===== verification/Orch_Reaper.thy ===== *)
theory Orch_Reaper
  imports Orch_Task Orch_Propose
begin

text \<open>
  \<open>satl-orchestrator/src/reaper.rs\<close>: the task reaper deletes the tasks whose removal has been carried
  out and prunes the history of each slot. The queues are \<open>BTreeSet\<close>s: sets here, read in
  ascending order. \<open>Instant\<close> is a number of nanoseconds.
\<close>

section \<open>The order of replicas\<close>

instantiation slot_tuple_ext :: (linorder) linorder
begin

definition less_eq_slot_tuple_ext :: "'a slot_tuple_ext \<Rightarrow> 'a slot_tuple_ext \<Rightarrow> bool" where
  "a \<le> b \<longleftrightarrow> (st_service_id a, st_slot a, st_node_id a, slot_tuple.more a) \<le>
     (st_service_id b, st_slot b, st_node_id b, slot_tuple.more b)"

definition less_slot_tuple_ext :: "'a slot_tuple_ext \<Rightarrow> 'a slot_tuple_ext \<Rightarrow> bool" where
  "a < b \<longleftrightarrow> (st_service_id a, st_slot a, st_node_id a, slot_tuple.more a) <
     (st_service_id b, st_slot b, st_node_id b, slot_tuple.more b)"

instance
proof
  fix a b c :: "'a slot_tuple_ext"
  show "a < b \<longleftrightarrow> a \<le> b \<and> \<not> b \<le> a"
    unfolding less_eq_slot_tuple_ext_def less_slot_tuple_ext_def by (rule less_le_not_le)
  show "a \<le> a"
    unfolding less_eq_slot_tuple_ext_def by (rule order_refl)
  show "a \<le> b \<Longrightarrow> b \<le> c \<Longrightarrow> a \<le> c"
    unfolding less_eq_slot_tuple_ext_def by (rule order_trans)
  show "a \<le> b \<or> b \<le> a"
    unfolding less_eq_slot_tuple_ext_def by (rule linear)
  show "a \<le> b \<Longrightarrow> b \<le> a \<Longrightarrow> a = b"
    unfolding less_eq_slot_tuple_ext_def by (drule (1) antisym) (simp add: slot_tuple.equality)
qed

end

section \<open>What may go\<close>

definition TASK_HISTORY_LIMIT :: int where
  "TASK_HISTORY_LIMIT = 5"

definition is_deletable :: "task \<Rightarrow> bool" where
  "is_deletable t \<longleftrightarrow> task_desired_state t = desired_state.Remove \<and>
     (task_state.Complete \<le> status_state (task_status t) \<or> status_state (task_status t) < task_state.Assigned)"

definition is_prunable :: "task \<Rightarrow> bool" where
  "is_prunable t \<longleftrightarrow> task_state.Running < status_state (task_status t) \<or>
     status_state (task_status t) < task_state.Assigned \<and> desired_state.Running < task_desired_state t"

text \<open>\<open>saturating_add\<close> on \<open>u64\<close>, and \<open>usize\<close> of 64 bits.\<close>

definition history_limit :: "service option \<Rightarrow> nat option" where
  "history_limit svc =
     (let m = (case svc of None \<Rightarrow> 0 | Some s \<Rightarrow> max_attempts (tspec_restart (sspec_task (service_spec s))))
      in if m > 0 then Some (min (m + 1) (2 ^ 64 - 1))
         else if TASK_HISTORY_LIMIT < 0 then None else Some (nat TASK_HISTORY_LIMIT))"

section \<open>The deletions of a batch\<close>

definition deletions :: "('lid, 'mem) store_inner \<Rightarrow> id list \<Rightarrow> id list" where
  "deletions view candidates = map task_id (filter is_deletable (List.map_filter (view_task view) candidates))"

definition group_by_tuple :: "task list \<Rightarrow> (slot_tuple, task list) btree_map" where
  "group_by_tuple ts = fold (\<lambda>t m. case slot_tuple_of t of None \<Rightarrow> m | Some k \<Rightarrow> bt_push k t m) ts []"

definition compare_age :: "task \<Rightarrow> task \<Rightarrow> ordering" where
  "compare_age a b = then_with (cmp (task_timestamp a) (task_timestamp b)) (cmp (task_id a) (task_id b))"

definition excess_history :: "nat \<Rightarrow> task list \<Rightarrow> task list" where
  "excess_history limit ts =
     (let history = filter is_prunable ts
      in if length history \<le> limit then []
         else take (length history - limit) (sort_by compare_age history))"

definition prunings :: "('lid, 'mem) store_inner \<Rightarrow> id list \<Rightarrow> slot_tuple list \<Rightarrow> id list" where
  "prunings view doomed slots = concat (map (\<lambda>(key, ts).
     case history_limit (view_service view (st_service_id key)) of
       None \<Rightarrow> []
     | Some limit \<Rightarrow> map task_id (excess_history limit ts))
     (group_by_tuple (filter (\<lambda>t. (case slot_tuple_of t of None \<Rightarrow> False | Some k \<Rightarrow> k \<in> set slots) \<and>
        task_id t \<notin> set doomed) (view_tasks view))))"

definition reap_actions ::
  "('lid, 'mem) store_inner \<Rightarrow> id list \<Rightarrow> slot_tuple list \<Rightarrow> store_action list" where
  "reap_actions view candidates slots =
     (let doomed = deletions view candidates
      in map (store_action.Remove object_kind.Task) (doomed @ prunings view doomed slots))"

section \<open>The loop\<close>

record task_reaper =
  rp_batch :: duration
  rp_force_at :: nat
  rp_dirty_slots :: "slot_tuple set"
  rp_candidates :: "id set"
  rp_deadline :: "nat option"

definition new_reaper :: "duration \<Rightarrow> nat \<Rightarrow> task_reaper" where
  "new_reaper batch force_at = \<lparr>rp_batch = batch, rp_force_at = force_at, rp_dirty_slots = {},
     rp_candidates = {}, rp_deadline = None\<rparr>"

definition mark :: "task \<Rightarrow> task_reaper \<Rightarrow> task_reaper" where
  "mark t r =
     (let r1 = (if task_desired_state t = desired_state.Remove
                then r\<lparr>rp_candidates := insert (task_id t) (rp_candidates r)\<rparr> else r)
      in case slot_tuple_of t of
           Some key \<Rightarrow> r1\<lparr>rp_dirty_slots := insert key (rp_dirty_slots r1)\<rparr>
         | None \<Rightarrow> r1)"

fun reaper_note :: "store_event \<Rightarrow> task_reaper \<Rightarrow> task_reaper" where
  "reaper_note (Created (store_object.Task t)) r = mark t r"
| "reaper_note (Updated _ (store_object.Task t)) r = mark t r"
| "reaper_note (store_event.Removed object_kind.Task i) r = r\<lparr>rp_candidates := rp_candidates r - {i}\<rparr>"
| "reaper_note _ r = r"

definition reaper_observe :: "nat \<Rightarrow> store_event \<Rightarrow> task_reaper \<Rightarrow> task_reaper" where
  "reaper_observe now ev r =
     (let r1 = reaper_note ev r; queued = card (rp_dirty_slots r1) + card (rp_candidates r1)
      in if queued = 0 then r1
         else if rp_force_at r1 \<le> queued then r1\<lparr>rp_deadline := Some now\<rparr>
         else if rp_deadline r1 = None then r1\<lparr>rp_deadline := Some (now + rp_batch r1)\<rparr>
         else r1)"

definition full_scan :: "nat \<Rightarrow> ('lid, 'mem) store_inner \<Rightarrow> task_reaper \<Rightarrow> task_reaper" where
  "full_scan now view r =
     (let r1 = fold mark (view_tasks view) r
      in if rp_dirty_slots r1 \<noteq> {} \<or> rp_candidates r1 \<noteq> {} then r1\<lparr>rp_deadline := Some now\<rparr> else r1)"

text \<open>
  \<open>flush\<close>: what it takes from the queues (nothing, if they are empty), the transaction it derives
  from a view, and what it does with the outcome; \<open>truncated\<close> says whether the transaction of the
  last attempt was cut off.
\<close>

definition flush_begin :: "task_reaper \<Rightarrow> (id list \<times> slot_tuple list) option \<times> task_reaper" where
  "flush_begin r =
     (let r1 = r\<lparr>rp_deadline := None\<rparr>
      in if rp_dirty_slots r1 = {} \<and> rp_candidates r1 = {} then (None, r1)
         else (Some (sorted_list_of_set (rp_candidates r1), sorted_list_of_set (rp_dirty_slots r1)),
               r1\<lparr>rp_dirty_slots := {}\<rparr>))"

definition flush_actions ::
  "id list \<Rightarrow> slot_tuple list \<Rightarrow> ('lid, 'mem) store_inner \<Rightarrow> store_action list" where
  "flush_actions candidates slots view = take MAX_TX_ACTIONS (reap_actions view candidates slots)"

definition flush_end ::
  "nat \<Rightarrow> ('lid, 'mem) store_inner \<Rightarrow> slot_tuple list \<Rightarrow> bool \<Rightarrow> ('e, 'v) result \<Rightarrow> task_reaper \<Rightarrow> task_reaper" where
  "flush_end now view slots truncated outcome r =
     (let r1 = (case outcome of
            Inr _ \<Rightarrow> r\<lparr>rp_candidates := {i \<in> rp_candidates r. view_task view i \<noteq> None}\<rparr>
          | Inl _ \<Rightarrow> r\<lparr>rp_dirty_slots := rp_dirty_slots r \<union> set slots\<rparr>)
      in if truncated
         then r1\<lparr>rp_dirty_slots := rp_dirty_slots r1 \<union> set slots, rp_deadline := Some now\<rparr>
         else r1)"

end
