(* ===== verification/Orch_Reaper_Proofs.thy ===== *)
theory Orch_Reaper_Proofs
  imports Orch_Reaper Orch_Loops
begin

text \<open>
  The task reaper: exactly which tasks a batch deletes, that none of them may still run, and that
  repeated batches come to rest with every history within its limit.
\<close>

section \<open>The excess of a history\<close>

definition age :: "task \<Rightarrow> system_time \<times> id" where
  "age t = (task_timestamp t, task_id t)"

lemma compare_age_key: "compare_age = (\<lambda>a b. cmp (age a) (age b))"
  by (intro ext) (auto simp: compare_age_def age_def cmp_def less_prod_def')

interpretation age_order: total_cmp compare_age
  unfolding compare_age_key by (rule total_cmp_key)

lemma sorted_by_age:
  assumes "inj_on age (set ts)" "distinct ts"
  shows "sorted_wrt (\<lambda>t u. age t < age u) (sort_by compare_age ts)"
proof -
  have "sorted_wrt (\<lambda>t u. age t \<le> age u) (sort_by compare_age ts)"
    using age_order.sorted_sort_by [of ts]
    by (rule sorted_wrt_mono_rel [rotated]) (simp add: compare_age_key cmp_def split: if_splits)
  moreover have "distinct (map age (sort_by compare_age ts))"
    using assms by (simp add: distinct_map distinct_sort_by)
  ultimately show ?thesis
    by (simp add: sorted_wrt_iff_nth_less distinct_conv_nth less_le)
qed

lemma card_after:
  fixes key :: "'a \<Rightarrow> 'b::linorder"
  assumes "sorted_wrt (\<lambda>t u. key t < key u) xs" "i < length xs"
  shows "card {u \<in> set xs. key (xs ! i) < key u} = length xs - Suc i"
  using assms
proof (induction xs arbitrary: i)
  case (Cons x xs)
  have fin: "distinct xs"
    using Cons.prems(1) by (induction xs) auto
  show ?case
  proof (cases i)
    case 0
    then have "{u \<in> set (x # xs). key ((x # xs) ! i) < key u} = set xs"
      using Cons.prems(1) by auto
    then show ?thesis
      using fin 0 by (simp add: distinct_card)
  next
    case (Suc j)
    then have "\<not> key (xs ! j) < key x"
      using Cons.prems by (simp add: less_imp_le leD)
    with Suc have "{u \<in> set (x # xs). key ((x # xs) ! i) < key u} = {u \<in> set xs. key (xs ! j) < key u}"
      by auto
    with Suc Cons show ?thesis
      by simp
  qed
qed simp

lemma excess_history_iff:
  assumes "inj_on age (set ts)" "distinct ts"
  shows "t \<in> set (excess_history limit ts) \<longleftrightarrow>
    t \<in> set ts \<and> is_prunable t \<and> limit \<le> card {u \<in> set ts. is_prunable u \<and> age t < age u}"
proof -
  define xs where "xs = sort_by compare_age (filter is_prunable ts)"
  have sorted: "sorted_wrt (\<lambda>t u. age t < age u) xs"
    unfolding xs_def using assms by (intro sorted_by_age) (auto intro: inj_on_subset)
  have xs: "set xs = {t \<in> set ts. is_prunable t}" "length xs = length (filter is_prunable ts)"
    by (simp_all add: xs_def)
  have "excess_history limit ts = take (length xs - limit) xs"
    by (simp add: excess_history_def Let_def xs_def)
  then have "t \<in> set (excess_history limit ts) \<longleftrightarrow> (\<exists>i < length xs. t = xs ! i \<and> i < length xs - limit)"
    unfolding in_set_conv_nth by (intro ex_cong1) auto
  also have "\<dots> \<longleftrightarrow> (\<exists>i < length xs. t = xs ! i \<and> limit \<le> length xs - Suc i)"
    by (intro ex_cong1 conj_cong refl) auto
  also have "\<dots> \<longleftrightarrow> t \<in> set xs \<and> limit \<le> card {u \<in> set xs. age t < age u}"
    using card_after [OF sorted] by (auto simp: in_set_conv_nth)
  finally show ?thesis
    by (simp add: xs(1) conj_assoc)
qed

section \<open>What a batch deletes\<close>

lemma age_inj: "store_wf s \<Longrightarrow> inj_on age (set (view_tasks s))"
  by (auto simp: inj_on_def age_def dest: view_tasks_unique)

definition slot_history :: "('lid, 'mem) store_inner \<Rightarrow> slot_tuple \<Rightarrow> task set" where
  "slot_history s sl = {t \<in> set (view_tasks s). slot_tuple_of t = Some sl \<and> is_prunable t}"

lemma set_deletions:
  assumes "store_wf s"
  shows "set (deletions s cands) = {task_id t | t. t \<in> set (view_tasks s) \<and> task_id t \<in> set cands \<and> is_deletable t}"
proof -
  have "i \<in> set (deletions s cands) \<longleftrightarrow>
      (\<exists>t. view_task s i = Some t \<and> i \<in> set cands \<and> is_deletable t)" for i
    using view_task_id [OF assms] by (auto simp: deletions_def set_map_filter image_iff)
  then show ?thesis
    using view_task_id [OF assms] unfolding set_eq_iff mem_Collect_eq view_tasks_iff [OF assms] by metis
qed

lemma distinct_deletions:
  assumes "store_wf s" "distinct cands"
  shows "distinct (deletions s cands)"
  using assms(2) unfolding deletions_def
proof (induction cands)
  case (Cons c cands)
  then show ?case
    using view_task_id [OF assms(1)]
    by (cases "view_task s c") (auto simp: map_filter_simps set_map_filter)
qed (simp add: map_filter_simps)

text \<open>The tasks pruned, before their ids are read off.\<close>

definition pruned :: "('lid, 'mem) store_inner \<Rightarrow> id list \<Rightarrow> slot_tuple list \<Rightarrow> task list" where
  "pruned s doomed slots = concat (map (\<lambda>(key, ts).
     case history_limit (view_service s (st_service_id key)) of None \<Rightarrow> [] | Some l \<Rightarrow> excess_history l ts)
     (group_by_tuple (filter (\<lambda>t. (case slot_tuple_of t of None \<Rightarrow> False | Some k \<Rightarrow> k \<in> set slots) \<and>
        task_id t \<notin> set doomed) (view_tasks s))))"

lemma prunings_pruned: "prunings s doomed slots = map task_id (pruned s doomed slots)"
  unfolding prunings_def pruned_def map_concat map_map
  by (intro arg_cong [of _ _ concat] map_cong refl) (auto split: option.split)

lemma tuple_group_entry:
  "(k, g) \<in> set (group_by_tuple ts) \<longleftrightarrow> g = filter (\<lambda>t. slot_tuple_of t = Some k) ts \<and> g \<noteq> []"
  using bt.mem_iff [OF group_some_invar, of k g slot_tuple_of ts]
  by (auto simp: group_by_tuple_def group_some_lookup grouped_def split: if_splits)

lemma excess_history_subset:
  "set (excess_history l ts) \<subseteq> set ts" "distinct ts \<Longrightarrow> distinct (excess_history l ts)"
  by (auto simp: excess_history_def Let_def distinct_sort_by dest: in_set_takeD)

lemma distinct_pruned:
  assumes "store_wf s"
  shows "distinct (pruned s doomed slots)"
  unfolding pruned_def
proof (rule distinct_groups [where key = slot_tuple_of])
  show "distinct (keys_of (group_by_tuple ts))" for ts
    unfolding group_by_tuple_def using bt.invar_distinct [OF group_some_invar] .
qed (use excess_history_subset view_tasks_distinct(2) [OF assms] in
  \<open>auto simp: tuple_group_entry split: option.split\<close>)

text \<open>
  A task is pruned when its slot is due and holds at least the limit of younger tasks that could be
  pruned as well.
\<close>

definition outlived :: "('lid, 'mem) store_inner \<Rightarrow> id set \<Rightarrow> task \<Rightarrow> slot_tuple \<Rightarrow> nat \<Rightarrow> bool" where
  "outlived s doomed t sl l \<longleftrightarrow> history_limit (view_service s (st_service_id sl)) = Some l \<and>
     t \<in> slot_history s sl \<and> l \<le> card {u \<in> slot_history s sl. task_id u \<notin> doomed \<and> age t < age u}"

lemma pruned_iff:
  assumes wf: "store_wf s"
  shows "t \<in> set (pruned s doomed slots) \<longleftrightarrow>
    task_id t \<notin> set doomed \<and> (\<exists>sl \<in> set slots. \<exists>l. outlived s (set doomed) t sl l)"
proof -
  define due where "due = filter (\<lambda>t. (case slot_tuple_of t of None \<Rightarrow> False | Some k \<Rightarrow> k \<in> set slots) \<and>
      task_id t \<notin> set doomed) (view_tasks s)"
  define grp where "grp sl = filter (\<lambda>t. slot_tuple_of t = Some sl) due" for sl
  have grp: "set (grp sl) = (if sl \<in> set slots
      then {t \<in> set (view_tasks s). slot_tuple_of t = Some sl \<and> task_id t \<notin> set doomed} else {})" for sl
    by (auto simp: grp_def due_def split: option.splits)
  have excess: "t \<in> set (excess_history l (grp sl)) \<longleftrightarrow> t \<in> set (grp sl) \<and> is_prunable t \<and>
      l \<le> card {u \<in> set (grp sl). is_prunable u \<and> age t < age u}" for sl l
    using view_tasks_distinct(2) [OF wf]
    by (intro excess_history_iff inj_on_subset [OF age_inj [OF wf]]) (auto simp: grp_def due_def)
  have "t \<in> set (pruned s doomed slots) \<longleftrightarrow> (\<exists>sl l. history_limit (view_service s (st_service_id sl)) = Some l \<and>
      t \<in> set (excess_history l (grp sl)))"
  proof -
    have "t \<in> set (pruned s doomed slots) \<longleftrightarrow> (\<exists>(sl, g) \<in> set (group_by_tuple due).
        t \<in> set (case history_limit (view_service s (st_service_id sl)) of None \<Rightarrow> [] | Some l \<Rightarrow> excess_history l g))"
      by (simp add: pruned_def due_def [symmetric] case_prod_beta)
    also have "\<dots> \<longleftrightarrow> (\<exists>sl. grp sl \<noteq> [] \<and>
        t \<in> set (case history_limit (view_service s (st_service_id sl)) of None \<Rightarrow> [] | Some l \<Rightarrow> excess_history l (grp sl)))"
      unfolding Bex_def split_paired_Ex prod.case tuple_group_entry grp_def by blast
    also have "\<dots> \<longleftrightarrow> (\<exists>sl l. history_limit (view_service s (st_service_id sl)) = Some l \<and>
        t \<in> set (excess_history l (grp sl)))"
    proof (intro ex_cong1)
      show "(grp sl \<noteq> [] \<and> t \<in> set (case history_limit (view_service s (st_service_id sl)) of
            None \<Rightarrow> [] | Some l \<Rightarrow> excess_history l (grp sl))) \<longleftrightarrow>
          (\<exists>l. history_limit (view_service s (st_service_id sl)) = Some l \<and> t \<in> set (excess_history l (grp sl)))" for sl
        by (cases "history_limit (view_service s (st_service_id sl))") (auto simp: excess)
    qed
    finally show ?thesis .
  qed
  moreover have "t \<in> set (excess_history l (grp sl)) \<and> history_limit (view_service s (st_service_id sl)) = Some l \<longleftrightarrow>
      sl \<in> set slots \<and> task_id t \<notin> set doomed \<and> outlived s (set doomed) t sl l" for sl l
  proof (cases "sl \<in> set slots")
    case True
    then have "{u \<in> set (grp sl). is_prunable u \<and> age t < age u} =
        {u \<in> slot_history s sl. task_id u \<notin> set doomed \<and> age t < age u}"
      by (auto simp: grp slot_history_def)
    then show ?thesis
      unfolding excess outlived_def by (auto simp: True grp slot_history_def)
  qed (simp add: excess grp)
  ultimately show ?thesis
    by blast
qed

definition reaped :: "('lid, 'mem) store_inner \<Rightarrow> id list \<Rightarrow> slot_tuple list \<Rightarrow> id list" where
  "reaped s cands slots = deletions s cands @ prunings s (deletions s cands) slots"

lemma reap_actions_reaped: "reap_actions s cands slots = map (store_action.Remove object_kind.Task) (reaped s cands slots)"
  by (simp add: reap_actions_def reaped_def Let_def)

lemma pruned_stored: "store_wf s \<Longrightarrow> set (pruned s doomed slots) \<subseteq> set (view_tasks s)"
  by (auto simp: pruned_iff outlived_def slot_history_def)

lemma reaped_iff:
  assumes wf: "store_wf s" and t: "t \<in> set (view_tasks s)"
  shows "task_id t \<in> set (reaped s cands slots) \<longleftrightarrow> task_id t \<in> set cands \<and> is_deletable t \<or>
    (\<exists>sl \<in> set slots. \<exists>l. outlived s (set (deletions s cands)) t sl l)"
proof -
  have "task_id t \<in> set (deletions s cands) \<longleftrightarrow> task_id t \<in> set cands \<and> is_deletable t"
    using t view_tasks_unique [OF wf] by (auto simp: set_deletions [OF wf])
  moreover have "task_id t \<in> set (prunings s d slots) \<longleftrightarrow> t \<in> set (pruned s d slots)" for d
    using t view_tasks_unique [OF wf] pruned_stored [OF wf, of d slots] by (auto simp: prunings_pruned)
  ultimately show ?thesis
    by (auto simp: reaped_def pruned_iff [OF wf])
qed

lemma reaped_stored:
  assumes "store_wf s"
  shows "set (reaped s cands slots) \<subseteq> task_id ` set (view_tasks s)"
  using pruned_stored [OF assms] by (auto simp: reaped_def set_deletions [OF assms] prunings_pruned)

lemma distinct_reaped:
  assumes wf: "store_wf s" and "distinct cands"
  shows "distinct (reaped s cands slots)"
proof -
  have "distinct (prunings s d slots)" for d
    using distinct_pruned [OF wf, of d slots] pruned_stored [OF wf, of d slots] view_tasks_unique [OF wf]
    by (auto simp: prunings_pruned distinct_map inj_on_def)
  moreover have "set d \<inter> set (prunings s d slots) = {}" for d
    by (auto simp: prunings_pruned pruned_iff [OF wf])
  ultimately show ?thesis
    using distinct_deletions [OF assms] by (simp add: reaped_def)
qed

text \<open>A task that runs, or may come to run.\<close>

definition may_run :: "task \<Rightarrow> bool" where
  "may_run t \<longleftrightarrow> status_state (task_status t) \<le> task_state.Running \<and>
     (task_state.Assigned \<le> status_state (task_status t) \<or> task_desired_state t \<le> desired_state.Running)"

lemma may_run_kept:
  assumes "may_run t"
  shows "\<not> is_deletable t" "\<not> is_prunable t"
proof -
  have st: "status_state (task_status t) \<le> task_state.Running"
    using assms by (simp add: may_run_def)
  moreover have "task_state.Running < task_state.Complete" "\<not> desired_state.Remove \<le> desired_state.Running"
    by (simp_all add: order_defs)
  ultimately show "\<not> is_deletable t" "\<not> is_prunable t"
    using assms by (auto simp: may_run_def is_deletable_def is_prunable_def)
qed

text \<open>
  C26. A batch of the reaper deletes exactly two kinds of tasks: the candidates whose removal has been
  carried out, and, in the slots that are due, the tasks of the history that are followed by at
  least as many younger ones as the limit keeps. So it keeps the youngest, and it never deletes a
  task that runs or may come to run: neither one from \<open>ASSIGNED\<close> to \<open>RUNNING\<close>, whose jail may exist,
  nor one the cluster still wants started.
\<close>

theorem reaper_deletes_exactly:
  assumes "store_wf s" "t \<in> set (view_tasks s)"
  shows "(store_action.Remove object_kind.Task (task_id t) \<in> set (reap_actions s cands slots) \<longleftrightarrow>
      task_id t \<in> set cands \<and> is_deletable t \<or>
      (\<exists>sl \<in> set slots. \<exists>l. outlived s (set (deletions s cands)) t sl l)) \<and>
    (may_run t \<longrightarrow> store_action.Remove object_kind.Task (task_id t) \<notin> set (reap_actions s cands slots))"
proof -
  have "store_action.Remove object_kind.Task (task_id t) \<in> set (reap_actions s cands slots) \<longleftrightarrow>
      task_id t \<in> set (reaped s cands slots)"
    by (auto simp: reap_actions_reaped)
  moreover have "\<not> outlived s d t sl l" if "may_run t" for d sl l
    using may_run_kept(2) [OF that] by (simp add: outlived_def slot_history_def)
  ultimately show ?thesis
    using reaped_iff [OF assms] may_run_kept(1) [of t] by blast
qed

section \<open>The loop\<close>

lemma marks:
  "rp_candidates (fold mark ts r) = rp_candidates r \<union> {task_id t | t. t \<in> set ts \<and> is_removing t}"
  "rp_dirty_slots (fold mark ts r) = rp_dirty_slots r \<union> {sl. \<exists>t \<in> set ts. slot_tuple_of t = Some sl}"
  by (induction ts arbitrary: r)
     (auto simp: mark_def Let_def is_removing_def split: option.split)

text \<open>The transaction of a full scan by a reaper with empty queues.\<close>

definition scan_batch :: "(nat \<Rightarrow> id) \<Rightarrow> system_time \<Rightarrow> ('lid, 'mem) store_inner \<Rightarrow> store_action list" where
  "scan_batch fresh now s = (case fst (flush_begin (full_scan 0 s (new_reaper 0 0))) of
       None \<Rightarrow> [] | Some (cands, slots) \<Rightarrow> flush_actions cands slots s)"

definition scan_candidates :: "('lid, 'mem) store_inner \<Rightarrow> id list" where
  "scan_candidates s = sorted_list_of_set {task_id t | t. t \<in> set (view_tasks s) \<and> is_removing t}"

definition scan_slots :: "('lid, 'mem) store_inner \<Rightarrow> slot_tuple list" where
  "scan_slots s = sorted_list_of_set {sl. \<exists>t \<in> set (view_tasks s). slot_tuple_of t = Some sl}"

lemma finite_tuples: "finite {sl. \<exists>t \<in> set ts. slot_tuple_of t = Some sl}"
proof -
  have "{sl. \<exists>t \<in> set ts. slot_tuple_of t = Some sl} \<subseteq> the ` slot_tuple_of ` set ts"
    by force
  then show ?thesis
    using finite_subset by blast
qed

lemma scan_sets:
  "set (scan_candidates s) = {task_id t | t. t \<in> set (view_tasks s) \<and> is_removing t}"
  "set (scan_slots s) = {sl. \<exists>t \<in> set (view_tasks s). slot_tuple_of t = Some sl}"
  "distinct (scan_candidates s)"
  by (simp_all add: scan_candidates_def scan_slots_def finite_tuples)

lemma scan_batch_eq:
  assumes "store_wf s"
  shows "scan_batch fresh now s = map (store_action.Remove object_kind.Task)
    (take MAX_TX_ACTIONS (reaped s (scan_candidates s) (scan_slots s)))"
proof -
  define r where "r = full_scan 0 s (new_reaper 0 0)"
  have q: "rp_candidates r = {task_id t | t. t \<in> set (view_tasks s) \<and> is_removing t}"
    "rp_dirty_slots r = {sl. \<exists>t \<in> set (view_tasks s). slot_tuple_of t = Some sl}"
    by (simp_all add: r_def full_scan_def Let_def marks new_reaper_def)
  show ?thesis
  proof (cases "rp_dirty_slots r = {} \<and> rp_candidates r = {}")
    case True
    then have "scan_candidates s = []" "scan_slots s = []"
      unfolding scan_candidates_def scan_slots_def q [symmetric] by simp_all
    moreover have "reaped s [] [] = []"
      by (simp add: reaped_def deletions_def map_filter_simps prunings_def group_by_tuple_def option.case_eq_if)
    ultimately show ?thesis
      using True by (simp add: scan_batch_def r_def [symmetric] flush_begin_def Let_def)
  next
    case False
    then have "fst (flush_begin r) = Some (scan_candidates s, scan_slots s)"
      by (auto simp: flush_begin_def Let_def scan_candidates_def scan_slots_def q)
    then show ?thesis
      by (simp add: scan_batch_def r_def [symmetric] flush_actions_def reap_actions_reaped take_map)
  qed
qed

text \<open>Transactions that only delete tasks.\<close>

lemma removes_independent:
  assumes "distinct is" "set is \<subseteq> task_id ` set (view_tasks s)" "store_wf s"
  shows "independent_tx (store_map s) (map (store_action.Remove object_kind.Task) is)"
proof -
  have "store_map s (object_kind.Task, i) \<noteq> None" if "i \<in> set is" for i
    using that assms(2) by (auto simp: view_tasks_iff [OF assms(3)] store_map_task)
  then show ?thesis
    using assms(1) by (auto simp: independent_tx_def list_all_iff distinct_map inj_on_def)
qed

lemma tasks_after_removes:
  assumes wf: "store_wf s"
    and tx: "apply_transaction s \<lparr>proposal_actions = map (store_action.Remove object_kind.Task) is\<rparr> index len =
      (proposal_response.Applied index, evs, s')"
    and indep: "independent_tx (store_map s) (map (store_action.Remove object_kind.Task) is)"
  shows "store_wf s'" "set (view_tasks s') = {t \<in> set (view_tasks s). task_id t \<notin> set is}"
    "view_service s' j = view_service s j"
proof -
  show wf': "store_wf s'"
    using apply_transaction_wf [OF wf tx] .
  note eff = applied_effect [OF tx indep]
  have acts: "task_actions (map (store_action.Remove object_kind.Task) is)"
    by (simp add: task_actions_def)
  show "set (view_tasks s') = {t \<in> set (view_tasks s). task_id t \<notin> set is}"
    using tasks_after [OF wf wf' indep eff acts] by auto
  show "view_service s' j = view_service s j"
    using services_after [OF eff acts] .
qed

lemma scan_independent:
  assumes "store_wf s"
  shows "independent_tx (store_map s) (scan_batch fresh now s)"
proof -
  have "distinct (reaped s (scan_candidates s) (scan_slots s))"
    by (rule distinct_reaped [OF assms scan_sets(3)])
  then show ?thesis
    unfolding scan_batch_eq [OF assms]
    by (intro removes_independent [OF _ _ assms] order_trans [OF set_take_subset reaped_stored [OF assms]]) simp_all
qed

interpretation reaper: control_loop scan_batch
proof
  show "length (scan_batch fresh now s) \<le> MAX_TX_ACTIONS" for fresh now and s :: "('a, 'b) store_inner"
    by (simp add: scan_batch_def flush_actions_def split: option.split)
qed (rule scan_independent)

text \<open>Nothing left to delete and no history over its limit.\<close>

definition tidy :: "('lid, 'mem) store_inner \<Rightarrow> bool" where
  "tidy s \<longleftrightarrow> (\<forall>t \<in> set (view_tasks s). \<not> is_deletable t) \<and>
     (\<forall>sl l. history_limit (view_service s (st_service_id sl)) = Some l \<longrightarrow> card (slot_history s sl) \<le> l)"

lemma few_iff:
  fixes key :: "'a \<Rightarrow> 'b::linorder"
  assumes "finite H" "inj_on key H"
  shows "(\<forall>t \<in> H. card {u \<in> H. key t < key u} < l) \<longleftrightarrow> card H \<le> l"
proof (cases "H = {}")
  case False
  then obtain m where m: "m \<in> H" "\<forall>u \<in> H. key m \<le> key u"
    using assms(1) by (metis arg_min_if_finite(1,2) linorder_not_le)
  have "{u \<in> H. key m < key u} = H - {m}"
    using m assms(2) by (auto simp: inj_on_def less_le)
  then have low: "card {u \<in> H. key m < key u} = card H - 1"
    using m(1) assms(1) by simp
  have high: "card {u \<in> H. key t < key u} \<le> card H - 1" if "t \<in> H" for t
  proof -
    have "card {u \<in> H. key t < key u} \<le> card (H - {t})"
      using assms(1) by (intro card_mono) auto
    then show ?thesis
      using that assms(1) by simp
  qed
  have "0 < card H"
    using m(1) assms(1) by (auto simp: card_gt_0_iff)
  show ?thesis
  proof
    assume "\<forall>t \<in> H. card {u \<in> H. key t < key u} < l"
    with m(1) low show "card H \<le> l" by auto
  next
    assume "card H \<le> l"
    with high \<open>0 < card H\<close> show "\<forall>t \<in> H. card {u \<in> H. key t < key u} < l"
      by fastforce
  qed
qed simp

lemma few_outlived:
  assumes "store_wf s" "history_limit (view_service s (st_service_id sl)) = Some l"
  shows "(\<forall>t. \<not> outlived s {} t sl l) \<longleftrightarrow> card (slot_history s sl) \<le> l"
proof -
  have "inj_on age (slot_history s sl)"
    by (rule inj_on_subset [OF age_inj [OF assms(1)]]) (auto simp: slot_history_def)
  moreover have "finite (slot_history s sl)"
    by (simp add: slot_history_def)
  ultimately have "(\<forall>t \<in> slot_history s sl. card {u \<in> slot_history s sl. age t < age u} < l) \<longleftrightarrow>
      card (slot_history s sl) \<le> l"
    by (rule few_iff [rotated])
  then show ?thesis
    using assms(2) by (auto simp: outlived_def not_le)
qed

lemma scan_idle:
  assumes wf: "store_wf s"
  shows "scan_batch fresh now s = [] \<longleftrightarrow> tidy s"
proof -
  define cands where "cands = scan_candidates s"
  define slots where "slots = scan_slots s"
  have "scan_batch fresh now s = [] \<longleftrightarrow> deletions s cands = [] \<and> pruned s [] slots = []"
    by (auto simp: scan_batch_eq [OF wf] reaped_def prunings_pruned cands_def slots_def MAX_TX_ACTIONS_def)
  moreover have "deletions s cands = [] \<longleftrightarrow> (\<forall>t \<in> set (view_tasks s). \<not> is_deletable t)"
  proof -
    have "is_removing t" if "is_deletable t" for t
      using that by (simp add: is_deletable_def is_removing_def)
    then have eq: "set (deletions s cands) = {task_id t | t. t \<in> set (view_tasks s) \<and> is_deletable t}"
      by (auto simp: set_deletions [OF wf] cands_def scan_sets)
    show ?thesis
      unfolding no_members eq by blast
  qed
  moreover have "pruned s [] slots = [] \<longleftrightarrow>
      (\<forall>sl l. history_limit (view_service s (st_service_id sl)) = Some l \<longrightarrow> card (slot_history s sl) \<le> l)"
  proof -
    have "pruned s [] slots = [] \<longleftrightarrow> (\<forall>sl \<in> set slots. \<forall>l t. \<not> outlived s {} t sl l)"
      unfolding no_members pruned_iff [OF wf] by auto
    also have "\<dots> \<longleftrightarrow> (\<forall>sl l t. \<not> outlived s {} t sl l)"
      by (auto simp: slots_def scan_sets outlived_def slot_history_def)
    also have "\<dots> \<longleftrightarrow> (\<forall>sl l. history_limit (view_service s (st_service_id sl)) = Some l \<longrightarrow>
        (\<forall>t. \<not> outlived s {} t sl l))"
      by (auto simp: outlived_def)
    finally show ?thesis
      using few_outlived [OF wf] by auto
  qed
  ultimately show ?thesis
    by (simp add: tidy_def)
qed

lemma scan_progress:
  assumes wf: "store_wf s" and some: "scan_batch fresh now s \<noteq> []"
    and tx: "apply_transaction s \<lparr>proposal_actions = scan_batch fresh now s\<rparr> index len =
      (proposal_response.Applied index, evs, s')"
  shows "store_wf s' \<and> card (set (view_tasks s')) < card (set (view_tasks s))"
proof -
  define ids where "ids = take MAX_TX_ACTIONS (reaped s (scan_candidates s) (scan_slots s))"
  have acts: "scan_batch fresh now s = map (store_action.Remove object_kind.Task) ids"
    by (simp add: scan_batch_eq [OF wf] ids_def)
  note changes = tasks_after_removes [OF wf tx [unfolded acts] scan_independent [OF wf, of fresh now, unfolded acts]]
  have "set ids \<subseteq> task_id ` set (view_tasks s)"
    unfolding ids_def by (rule order_trans [OF set_take_subset reaped_stored [OF wf]])
  moreover have "ids \<noteq> []"
    using some by (simp add: acts)
  ultimately obtain t where "t \<in> set (view_tasks s)" "task_id t \<in> set ids"
    by (cases ids) auto
  then have "set (view_tasks s') \<subset> set (view_tasks s)"
    unfolding changes(2) by blast
  with changes(1) show ?thesis
    by (simp add: psubset_card_mono)
qed

interpretation reaper: converging_loop scan_batch store_wf tidy "\<lambda>s. card (set (view_tasks s))"
proof
  show "store_wf s \<Longrightarrow> scan_batch fresh now s = [] \<longleftrightarrow> tidy s" for fresh now and s :: "('a, 'b) store_inner"
    by (rule scan_idle)
  show "store_wf s \<Longrightarrow> scan_batch fresh now s \<noteq> [] \<Longrightarrow>
      apply_transaction s \<lparr>proposal_actions = scan_batch fresh now s\<rparr> index len =
        (proposal_response.Applied index, evs, s') \<Longrightarrow>
      store_wf s' \<and> card (set (view_tasks s')) < card (set (view_tasks s))"
    for fresh now index len evs and s s' :: "('a, 'b) store_inner"
    by (rule scan_progress)
qed

text \<open>
  C27. Reaping terminates: from any well-formed store, batches that follow a full scan cannot go on for
  ever (also where a batch is cut off at the transaction limit), and they lead to a store without
  a deletable task in which the history of every slot is within its limit; there, and only there,
  a batch is empty.
\<close>

theorem reaper_converges:
  assumes "store_wf s"
  shows "(\<nexists>f. f 0 = s \<and> (\<forall>i. loop_pass scan_batch (f i) (f (Suc i)))) \<and>
    (\<exists>s'. (loop_pass scan_batch)\<^sup>*\<^sup>* s s' \<and> store_wf s' \<and> tidy s') \<and>
    (scan_batch fresh now s = [] \<longleftrightarrow> tidy s)"
  using reaper.terminates [OF assms] reaper.reaches [OF assms] scan_idle [OF assms] by blast

definition w_removed :: "(nat, nat list) store_inner" where
  "w_removed = sample_store
     [Create (store_object.Service (sample_service ''svc'' (Replicated 1))),
      Create (store_object.Task (sample_task ''t1'' ''svc'' 1 task_state.Shutdown desired_state.Remove)),
      Create (store_object.Task (sample_task ''t2'' ''svc'' 1 task_state.Running desired_state.Remove))]"

lemma w_removed_tasks:
  obtains t1 t2 where "t1 \<in> set (view_tasks w_removed)" "t2 \<in> set (view_tasks w_removed)"
    "task_id t1 = ''t1''" "task_id t2 = ''t2''" "is_deletable t1" "may_run t2"
proof -
  have wf: "store_wf w_removed"
    unfolding w_removed_def by (rule sample_store_wf)
  have "map_option is_deletable (view_task w_removed ''t1'') = Some True"
    "map_option (\<lambda>t. (task_state.Assigned \<le> status_state (task_status t), status_state (task_status t) \<le> task_state.Running))
       (view_task w_removed ''t2'') = Some (True, True)"
    by code_simp+
  then obtain t1 t2 where t: "view_task w_removed ''t1'' = Some t1" "is_deletable t1"
      "view_task w_removed ''t2'' = Some t2" "may_run t2"
    by (auto simp: may_run_def)
  then have ids: "task_id t1 = ''t1''" "task_id t2 = ''t2''"
    using view_task_id [OF wf] by blast+
  with t have "t1 \<in> set (view_tasks w_removed)" "t2 \<in> set (view_tasks w_removed)"
    by (simp_all add: view_tasks_iff [OF wf])
  with t ids show thesis
    using that by blast
qed

theorem reaper_converges_witness:
  "\<not> tidy w_removed \<and> (\<exists>s'. (loop_pass scan_batch)\<^sup>*\<^sup>* w_removed s' \<and> tidy s')"
proof -
  have "store_wf w_removed"
    unfolding w_removed_def by (rule sample_store_wf)
  moreover have "\<not> tidy w_removed"
    by (rule w_removed_tasks) (auto simp: tidy_def)
  ultimately show ?thesis
    using reaper_converges [of w_removed] by blast
qed

theorem reaper_deletes_exactly_witness:
  "store_action.Remove object_kind.Task ''t1'' \<in> set (reap_actions w_removed [''t1'', ''t2''] []) \<and>
   store_action.Remove object_kind.Task ''t2'' \<notin> set (reap_actions w_removed [''t1'', ''t2''] [])"
proof (rule w_removed_tasks)
  have wf: "store_wf w_removed"
    unfolding w_removed_def by (rule sample_store_wf)
  fix t1 t2
  assume t1: "t1 \<in> set (view_tasks w_removed)" "task_id t1 = ''t1''" "is_deletable t1"
    and t2: "t2 \<in> set (view_tasks w_removed)" "task_id t2 = ''t2''" "may_run t2"
  show ?thesis
    using reaper_deletes_exactly [OF wf t1(1), of "[''t1'', ''t2'']" "[]"]
      reaper_deletes_exactly [OF wf t2(1), of "[''t1'', ''t2'']" "[]"] t1 t2 by auto
qed

end
