(* ===== verification/Orch_Budget.thy ===== *)
theory Orch_Budget
  imports Orch_Restart_Proofs Orch_Reaper_Proofs
begin

text \<open>
  Reaper and restart supervisor share the tasks of a slot: the one prunes them, the other counts them.
  What pruning leaves of a history is enough for the count.
\<close>

lemma card_youngest:
  fixes key :: "'a \<Rightarrow> 'b::linorder"
  assumes "finite Y" "inj_on key Y"
  shows "card {u \<in> Y. card {v \<in> Y. key u < key v} < l} = min l (card Y)"
proof -
  obtain ys where ys: "set ys = key ` Y" "sorted_wrt (<) ys" "length ys = card Y"
    using finite_sorted_distinct_unique [of "key ` Y"] assms
    by (metis card_image distinct_card finite_imageI strict_sorted_iff)
  define xs where "xs = map (the_inv_into Y key) ys"
  have inverse: "key (the_inv_into Y key y) = y" "the_inv_into Y key y \<in> Y" if "y \<in> set ys" for y
    using that assms(2) by (auto simp: ys(1) f_the_inv_into_f the_inv_into_f_f)
  then have "map key xs = ys"
    by (simp add: xs_def map_idI)
  then have sorted: "sorted_wrt (\<lambda>t u. key t < key u) xs"
    using ys(2) by (metis sorted_wrt_map)
  have len: "length xs = card Y"
    by (simp add: xs_def ys(3))
  have set: "set xs = Y"
    using assms(2) by (auto simp: xs_def ys(1) the_inv_into_f_f)
  have "u \<in> set (drop (length xs - l) xs) \<longleftrightarrow> u \<in> Y \<and> card {v \<in> Y. key u < key v} < l" for u
  proof -
    have "u \<in> set (drop (length xs - l) xs) \<longleftrightarrow> (\<exists>i < length xs. u = xs ! i \<and> length xs - Suc i < l)"
    proof
      assume "u \<in> set (drop (length xs - l) xs)"
      then obtain i where "i < length xs - (length xs - l)" "u = xs ! (length xs - l + i)"
        by (auto simp: in_set_conv_nth)
      then show "\<exists>i < length xs. u = xs ! i \<and> length xs - Suc i < l"
        by (intro exI [of _ "length xs - l + i"]) auto
    next
      assume "\<exists>i < length xs. u = xs ! i \<and> length xs - Suc i < l"
      then obtain i where i: "i < length xs" "u = xs ! i" "length xs - Suc i < l"
        by blast
      then have "drop (length xs - l) xs ! (i - (length xs - l)) = u" "i - (length xs - l) < length xs - (length xs - l)"
        by auto
      then show "u \<in> set (drop (length xs - l) xs)"
        by (metis length_drop nth_mem)
    qed
    then show ?thesis
      using card_after [OF sorted] unfolding set [symmetric] by (auto simp: in_set_conv_nth)
  qed
  then have "{u \<in> Y. card {v \<in> Y. key u < key v} < l} = set (drop (length xs - l) xs)"
    by auto
  moreover have "distinct (drop (length xs - l) xs)"
    using card_distinct [of xs] by (simp add: set len)
  ultimately show ?thesis
    using distinct_card by (fastforce simp: len)
qed

lemma card_not_first:
  fixes key :: "'a \<Rightarrow> 'b::linorder"
  assumes "finite B" "inj_on key B"
  shows "card {t \<in> B. \<exists>e \<in> B. key e < key t} = card B - 1"
proof (cases "B = {}")
  case False
  then obtain m where m: "m \<in> B" "\<forall>u \<in> B. key m \<le> key u"
    using assms(1) by (metis arg_min_if_finite(1,2) linorder_not_le)
  have "{t \<in> B. \<exists>e \<in> B. key e < key t} = B - {m}"
    using m assms(2) by (auto simp: inj_on_def less_le intro!: bexI [of _ m] dest: leD)
  then show ?thesis
    using m(1) assms(1) by simp
qed simp

text \<open>Without a window every task of the replica but the first counts.\<close>

lemma attempts_without_window:
  assumes "store_wf s" "max_attempts policy \<noteq> 0" "restart_window policy = 0"
  shows "history_attempts (history_from_view s) key policy failed_at = card (budgeted s key) - 1"
proof -
  have "spent s key policy failed_at = {t \<in> budgeted s key. \<exists>e \<in> budgeted s key. born e < born t}"
    by (simp add: spent_def assms(3))
  moreover have "inj_on born (budgeted s key)" "finite (budgeted s key)"
    using born_inj [OF assms(1)] by (auto simp: budgeted_def intro: inj_on_subset)
  ultimately show ?thesis
    using history_counts [OF assms(1,2)] card_not_first by simp
qed

text \<open>
  The replica of a service with bounded restarts: its tasks carry the bound of the service, none of
  them is being removed, and no task of another spec version in the slot is younger.
\<close>

definition current_replica :: "('lid, 'mem) store_inner \<Rightarrow> restart_key \<Rightarrow> nat \<Rightarrow> bool" where
  "current_replica s key m \<longleftrightarrow>
     (\<exists>svc. view_service s (st_service_id (rk_slot key)) = Some svc \<and>
        max_attempts (tspec_restart (sspec_task (service_spec svc))) = m) \<and>
     (\<forall>t \<in> set (view_tasks s). restart_key_of t = Some key \<longrightarrow>
        max_attempts (tspec_restart (task_spec t)) = m \<and> \<not> is_removing t \<and>
        (\<forall>u \<in> set (view_tasks s). slot_tuple_of u = Some (rk_slot key) \<and> age t < age u \<longrightarrow>
           restart_key_of u = Some key))"

lemma pruning_leaves_enough:
  assumes wf: "store_wf s" and current: "current_replica s key m" and m: "0 < m" "m + 1 < 2 ^ 64"
    and ids: "set ids \<subseteq> set (reaped s cands slots)"
    and t: "t \<in> budgeted s key" "task_id t \<in> set ids"
  shows "m + 1 \<le> card {u \<in> budgeted s key. task_id u \<notin> set ids}"
proof -
  define sl where "sl = rk_slot key"
  define D where "D = set (deletions s cands)"
  define Y where "Y = {u \<in> slot_history s sl. task_id u \<notin> D \<and> age t < age u}"
  have stored: "t \<in> set (view_tasks s)" and key: "restart_key_of t = Some key" "slot_tuple_of t = Some sl"
    using t(1) by (auto simp: budgeted_def sl_def restart_key_of_def)
  have "\<not> is_deletable t"
    using current stored key(1) by (auto simp: current_replica_def is_deletable_def is_removing_def)
  then obtain sl' l where out: "outlived s D t sl' l"
    using reaped_iff [OF wf stored, of cands slots] t(2) ids by (auto simp: D_def)
  have "sl' = sl"
    using out key(2) by (simp add: outlived_def slot_history_def)
  moreover have limit: "history_limit (view_service s (st_service_id sl)) = Some (m + 1)"
    using current m by (auto simp: current_replica_def history_limit_def Let_def sl_def)
  ultimately have many: "m + 1 \<le> card Y"
    using out by (simp add: outlived_def Y_def)
  have fin: "finite Y" "inj_on age Y"
    using age_inj [OF wf] by (auto simp: Y_def slot_history_def intro: inj_on_subset)
  have "{u \<in> Y. card {v \<in> Y. age u < age v} < m + 1} \<subseteq> {u \<in> budgeted s key. task_id u \<notin> set ids}"
  proof (intro subsetI CollectI conjI)
    fix u
    assume "u \<in> {u \<in> Y. card {v \<in> Y. age u < age v} < m + 1}"
    then have u: "u \<in> Y" "card {v \<in> Y. age u < age v} < m + 1" by auto
    then have mem: "u \<in> set (view_tasks s)" "slot_tuple_of u = Some sl" "age t < age u" "task_id u \<notin> D"
      by (auto simp: Y_def slot_history_def)
    then have "restart_key_of u = Some key"
      using current stored key(1) unfolding current_replica_def sl_def by blast
    then show "u \<in> budgeted s key"
      using mem(1) current m(1) by (auto simp: budgeted_def current_replica_def)
    have "{v \<in> Y. age u < age v} = {v \<in> slot_history s sl. task_id v \<notin> D \<and> age u < age v}"
      using mem(3) by (auto simp: Y_def)
    with u(2) have few: "card {v \<in> slot_history s sl. task_id v \<notin> D \<and> age u < age v} < m + 1"
      by simp
    have "\<not> outlived s D u sl'' l''" for sl'' l''
      by (cases "sl'' = sl") (use few mem(2) limit in \<open>auto simp: outlived_def slot_history_def\<close>)
    moreover have "\<not> is_deletable u"
      using current mem(1) \<open>restart_key_of u = Some key\<close>
      by (auto simp: current_replica_def is_deletable_def is_removing_def)
    ultimately show "task_id u \<notin> set ids"
      using reaped_iff [OF wf mem(1), of cands slots] ids by (auto simp: D_def)
  qed
  then have "card {u \<in> Y. card {v \<in> Y. age u < age v} < m + 1} \<le> card {u \<in> budgeted s key. task_id u \<notin> set ids}"
    by (rule card_mono [rotated]) (simp add: budgeted_def)
  then show ?thesis
    using card_youngest [OF fin, of "m + 1"] many by simp
qed

lemma budget_after_flush:
  assumes wf: "store_wf s" and current: "current_replica s key m" and m: "0 < m" "m + 1 < 2 ^ 64"
    and cands: "distinct cands"
    and tx: "apply_transaction s \<lparr>proposal_actions = flush_actions cands slots s\<rparr> index len =
      (proposal_response.Applied index, evs, s')"
  shows "store_wf s'" "budgeted s' key = budgeted s key \<or>
    m + 1 \<le> card (budgeted s' key) \<and> card (budgeted s' key) \<le> card (budgeted s key)"
proof -
  define ids where "ids = take MAX_TX_ACTIONS (reaped s cands slots)"
  have acts: "flush_actions cands slots s = map (store_action.Remove object_kind.Task) ids"
    by (simp add: flush_actions_def reap_actions_reaped take_map ids_def)
  have sub: "set ids \<subseteq> set (reaped s cands slots)"
    unfolding ids_def by (rule set_take_subset)
  have "independent_tx (store_map s) (map (store_action.Remove object_kind.Task) ids)"
    using distinct_reaped [OF wf cands, of slots] order_trans [OF sub reaped_stored [OF wf]]
    by (intro removes_independent [OF _ _ wf]) (simp_all add: ids_def)
  note changes = tasks_after_removes [OF wf tx [unfolded acts] this]
  show "store_wf s'"
    by (rule changes(1))
  have after: "budgeted s' key = {u \<in> budgeted s key. task_id u \<notin> set ids}"
    unfolding budgeted_def changes(2) by blast
  moreover have "card {u \<in> budgeted s key. task_id u \<notin> set ids} \<le> card (budgeted s key)"
    by (intro card_mono) (auto simp: budgeted_def)
  ultimately show "budgeted s' key = budgeted s key \<or>
      m + 1 \<le> card (budgeted s' key) \<and> card (budgeted s' key) \<le> card (budgeted s key)"
    using pruning_leaves_enough [OF wf current m sub] by fastforce
qed

text \<open>A replica on its fourth task, of a service that allows one restart.\<close>

definition w_looping :: "(nat, nat list) store_inner" where
  "w_looping = sample_store
     [Create (store_object.Service ((sample_service ''svc'' (Replicated 1))
        \<lparr>service_spec := (service_spec (sample_service ''svc'' (Replicated 1)))
           \<lparr>sspec_task := sample_tspec\<lparr>tspec_restart := sample_restart\<lparr>max_attempts := 1\<rparr>\<rparr>\<rparr>\<rparr>)),
      Create (store_object.Task (w_crashed ''t1'' 0)), Create (store_object.Task (w_crashed ''t2'' 7)),
      Create (store_object.Task (w_crashed ''t3'' 8)), Create (store_object.Task (w_crashed ''t4'' 9))]"

definition w_replica :: restart_key where
  "w_replica = \<lparr>rk_slot = \<lparr>st_service_id = ''svc'', st_slot = 1, st_node_id = None\<rparr>,
     rk_spec_version = Some 1\<rparr>"

lemma w_looping_current: "current_replica w_looping w_replica 1"
proof -
  have "map_option (\<lambda>svc. max_attempts (tspec_restart (sspec_task (service_spec svc))))
      (view_service w_looping (st_service_id (rk_slot w_replica))) = Some 1"
    by code_simp
  moreover have "list_all (\<lambda>t. restart_key_of t = Some w_replica \<and> \<not> is_removing t \<and>
      max_attempts (tspec_restart (task_spec t)) = 1) (view_tasks w_looping)"
    by code_simp
  ultimately show ?thesis
    by (auto simp: current_replica_def list_all_iff)
qed

end
