(* ===== verification/Orch_Jobs.thy ===== *)
theory Orch_Jobs
  imports Orch_Restart Orch_Global
begin

text \<open>
  \<open>satl-orchestrator/src/jobs.rs\<close>: the loop that runs services to completion. A unit of a job is a
  slot (replicated) or a node (global); one pass buckets the tasks by unit, reads a verdict per
  unit and starts as many units as the concurrency limit leaves room for.
\<close>

section \<open>Units\<close>

type_synonym unit_key = "nat \<times> id option"

definition unit_of :: "task \<Rightarrow> unit_key option" where
  "unit_of t = (if is_global_task t then map_option (\<lambda>n. (task_slot t, Some n)) (task_node_id t)
     else Some (task_slot t, None))"

record unit_view =
  uv_live :: "task list"
  uv_stale :: "task list"
  uv_stopping :: "task list"
  uv_terminal :: "task list"

definition empty_unit_view :: unit_view where
  "empty_unit_view = \<lparr>uv_live = [], uv_stale = [], uv_stopping = [], uv_terminal = []\<rparr>"

datatype unit_state = Done | Busy | Retry | Exhausted | Fresh

definition unit_state_of :: "restart_policy \<Rightarrow> unit_view \<Rightarrow> unit_state" where
  "unit_state_of policy view =
     (if uv_live view \<noteq> [] \<or> uv_stale view \<noteq> [] \<or> uv_stopping view \<noteq> [] then Busy
      else if uv_terminal view = [] then Fresh
      else let newest = last (uv_terminal view) in
        if status_state (task_status newest) = task_state.Complete then Done
        else case decide_restart policy (status_state (task_status newest)) (length (uv_terminal view) - 1) of
            Restart \<Rightarrow> unit_state.Retry
          | _ \<Rightarrow> Exhausted)"

record decision =
  dec_actions :: "store_action list"
  dec_spec_version :: version
  dec_exhausted :: "unit_key list"
  dec_completed :: "nat option"

definition no_decision :: decision where
  "no_decision = \<lparr>dec_actions = [], dec_spec_version = 0, dec_exhausted = [], dec_completed = None\<rparr>"

record shape =
  shape_wanted :: "unit_key list"
  shape_max_live :: nat

section \<open>Bucketing\<close>

definition bucket :: "version \<Rightarrow> task \<Rightarrow> unit_view \<Rightarrow> unit_view" where
  "bucket v t view =
     (let current = (task_spec_version t = Some v)
      in if \<not> is_terminal (status_state (task_status t)) then
           (if task_desired_state t \<ge> desired_state.Shutdown then view\<lparr>uv_stopping := uv_stopping view @ [t]\<rparr>
            else if current then view\<lparr>uv_live := uv_live view @ [t]\<rparr>
            else view\<lparr>uv_stale := uv_stale view @ [t]\<rparr>)
         else if current then view\<lparr>uv_terminal := uv_terminal view @ [t]\<rparr>
         else view)"

definition by_creation :: "task \<Rightarrow> task \<Rightarrow> ordering" where
  "by_creation a b = then_with (cmp (created_at (task_meta a)) (created_at (task_meta b))) (cmp (task_id a) (task_id b))"

definition bucketize :: "task list \<Rightarrow> version \<Rightarrow> id set \<Rightarrow> (unit_key, unit_view) btree_map" where
  "bucketize ts v skip =
     map (\<lambda>(u, view). (u, view\<lparr>uv_terminal := sort_by by_creation (uv_terminal view)\<rparr>))
       (fold (\<lambda>t units. case unit_of t of
            None \<Rightarrow> units
          | Some u \<Rightarrow> bt_insert u (bucket v t (case map_of units u of None \<Rightarrow> empty_unit_view | Some view \<Rightarrow> view)) units)
         (filter (\<lambda>t. \<not> is_removing t \<and> task_id t \<notin> skip) ts) [])"

section \<open>Planning\<close>

definition start_unit :: "id \<Rightarrow> system_time \<Rightarrow> service \<Rightarrow> unit_key \<Rightarrow> store_action" where
  "start_unit tid now svc u = Create (store_object.Task (case snd u of
       Some nid \<Rightarrow> new_global_task tid now svc nid
     | None \<Rightarrow> new_task tid now svc (fst u)))"

definition stop_stale :: "system_time \<Rightarrow> (unit_key, unit_view) btree_map \<Rightarrow> store_action list" where
  "stop_stale now units = concat (map (\<lambda>view. List.map_filter
     (\<lambda>t. raise_desired_state now t desired_state.Shutdown) (uv_stale view)) (values_of units))"

definition unit_states ::
  "restart_policy \<Rightarrow> shape \<Rightarrow> (unit_key, unit_view) btree_map \<Rightarrow> (unit_key, unit_state) btree_map" where
  "unit_states policy sh units = fold (\<lambda>u. bt_insert u
     (case map_of units u of None \<Rightarrow> Fresh | Some view \<Rightarrow> unit_state_of policy view)) (shape_wanted sh) []"

text \<open>
  One of the two passes over the units: those in the wanted state are started while the budget
  lasts. The new task's id is drawn for the position of its action.
\<close>

definition start_units ::
  "(nat \<Rightarrow> id) \<Rightarrow> system_time \<Rightarrow> service \<Rightarrow> unit_state \<Rightarrow> (unit_key, unit_state) btree_map \<Rightarrow>
   nat \<times> store_action list \<Rightarrow> nat \<times> store_action list" where
  "start_units fresh now svc state states acc = fold (\<lambda>(u, st) (budget, acts).
     if st \<noteq> state \<or> budget = 0 then (budget, acts)
     else (budget - 1, acts @ [start_unit (fresh (length acts)) now svc u])) states acc"

definition plan_units ::
  "(nat \<Rightarrow> id) \<Rightarrow> system_time \<Rightarrow> service \<Rightarrow> shape \<Rightarrow> (unit_key, unit_view) btree_map \<Rightarrow> decision" where
  "plan_units fresh now svc sh units =
     (let live = sum_list (map (\<lambda>view. length (uv_live view) + length (uv_stale view)) (values_of units));
          states = unit_states (tspec_restart (sspec_task (service_spec svc))) sh units;
          budget = min (shape_max_live sh - live) MAX_TX_ACTIONS;
          (_, acts) = start_units fresh now svc Fresh states
            (start_units fresh now svc unit_state.Retry states (budget, stop_stale now units))
      in \<lparr>dec_actions = take MAX_TX_ACTIONS acts, dec_spec_version = service_spec_version svc,
          dec_exhausted = map fst (filter (\<lambda>(_, st). st = Exhausted) states),
          dec_completed = (if states \<noteq> [] \<and> list_all (\<lambda>(_, st). st = Done) states
             then Some (length states) else None)\<rparr>)"

definition doomed_tasks :: "('lid, 'mem) store_inner \<Rightarrow> task list \<Rightarrow> task list" where
  "doomed_tasks view ts =
     filter (\<lambda>t. evict_reason t (Option.bind (task_node_id t) (view_node view)) \<noteq> None) ts"

definition plan_replicated ::
  "(nat \<Rightarrow> id) \<Rightarrow> system_time \<Rightarrow> ('lid, 'mem) store_inner \<Rightarrow> service \<Rightarrow> task list \<Rightarrow> nat option \<Rightarrow> nat option \<Rightarrow>
   decision" where
  "plan_replicated fresh now view svc ts mc tc =
     (let total = max (case tc of None \<Rightarrow> 1 | Some n \<Rightarrow> n) 1;
          limit = max (case mc of None \<Rightarrow> 1 | Some n \<Rightarrow> n) 1;
          doomed = doomed_tasks view ts;
          units = bucketize ts (service_spec_version svc) (set (map task_id doomed));
          d = plan_units fresh now svc
            \<lparr>shape_wanted = map (\<lambda>slot. (slot, None)) [1..<Suc total], shape_max_live = limit\<rparr> units
      in d\<lparr>dec_actions :=
           List.map_filter (\<lambda>t. raise_desired_state now t desired_state.Shutdown) doomed @ dec_actions d\<rparr>)"

definition job_verdict :: "('lid, 'mem) store_inner \<Rightarrow> placement_requirements \<Rightarrow> id \<Rightarrow> verdict" where
  "job_verdict view req nid = (case view_node view nid of None \<Rightarrow> Reject | Some n \<Rightarrow> node_verdict n req)"

definition plan_global ::
  "(nat \<Rightarrow> id) \<Rightarrow> system_time \<Rightarrow> ('lid, 'mem) store_inner \<Rightarrow> service \<Rightarrow> task list \<Rightarrow> decision" where
  "plan_global fresh now view svc ts =
     (let req = requirements_of (sspec_task (service_spec svc));
          verdict_on = (\<lambda>t. map_option (job_verdict view req) (task_node_id t));
          skip = set (map task_id (filter (\<lambda>t. verdict_on t = Some Reject \<or> verdict_on t = Some Hold) ts));
          stops = List.map_filter (\<lambda>t. if verdict_on t = Some Reject \<and> \<not> is_terminal (status_state (task_status t))
             then raise_desired_state now t desired_state.Shutdown else None) ts;
          units = bucketize ts (service_spec_version svc) skip;
          d = plan_units fresh now svc
            \<lparr>shape_wanted = map (\<lambda>n. (0, Some (node_id n))) (filter (\<lambda>n. node_verdict n req = Run) (view_nodes view)),
             shape_max_live = 2 ^ 64 - 1\<rparr> units
      in d\<lparr>dec_actions := stops @ dec_actions d\<rparr>)"

definition job_plan ::
  "id \<Rightarrow> (nat \<Rightarrow> id) \<Rightarrow> system_time \<Rightarrow> ('lid, 'mem) store_inner \<Rightarrow> decision" where
  "job_plan sid fresh now view = (case view_service view sid of
       None \<Rightarrow> no_decision
     | Some svc \<Rightarrow>
         (let ts = filter (\<lambda>t. task_service_id t = Some sid) (view_tasks view)
          in case sspec_mode (service_spec svc) of
               ReplicatedJob mc tc \<Rightarrow>
                 plan_replicated fresh now view svc ts mc tc
             | GlobalJob \<Rightarrow> plan_global fresh now view svc ts
             | _ \<Rightarrow> no_decision))"

section \<open>The loop\<close>

record jobs_orchestrator =
  jo_dirty :: "id set"
  jo_task_owner :: "(id, id) hash_map"
  jo_nodes_changed :: bool
  jo_completion_logged :: "(id \<times> version) set"
  jo_exhausted_logged :: "(id \<times> version \<times> unit_key) set"

definition new_jobs_orchestrator :: jobs_orchestrator where
  "new_jobs_orchestrator = \<lparr>jo_dirty = {}, jo_task_owner = [], jo_nodes_changed = False,
     jo_completion_logged = {}, jo_exhausted_logged = {}\<rparr>"

definition job_services :: "('lid, 'mem) store_inner \<Rightarrow> id list" where
  "job_services view =
     map service_id (filter (\<lambda>svc. is_job (sspec_mode (service_spec svc))) (view_services view))"

definition jobs_observe_object :: "store_object \<Rightarrow> jobs_orchestrator \<Rightarrow> jobs_orchestrator" where
  "jobs_observe_object obj jo = (case obj of
       store_object.Service svc \<Rightarrow> jo\<lparr>jo_dirty := insert (service_id svc) (jo_dirty jo)\<rparr>
     | store_object.Task t \<Rightarrow> (case task_service_id t of
         Some sid \<Rightarrow> jo\<lparr>jo_task_owner := hm_insert (task_id t) sid (jo_task_owner jo),
                       jo_dirty := insert sid (jo_dirty jo)\<rparr>
       | None \<Rightarrow> jo)
     | store_object.Node _ \<Rightarrow> jo\<lparr>jo_nodes_changed := True\<rparr>
     | _ \<Rightarrow> jo)"

text \<open>The second component: the services reconciled on this event.\<close>

fun jobs_observe ::
  "('lid, 'mem) store_inner \<Rightarrow> store_event \<Rightarrow> jobs_orchestrator \<Rightarrow> jobs_orchestrator \<times> id set" where
  "jobs_observe view (Created obj) jo = (jobs_observe_object obj jo, {})"
| "jobs_observe view (Updated _ obj) jo = (jobs_observe_object obj jo, {})"
| "jobs_observe view (store_event.Removed k i) jo = (case k of
       object_kind.Service \<Rightarrow> (jo\<lparr>jo_dirty := jo_dirty jo - {i}\<rparr>, {})
     | object_kind.Task \<Rightarrow> (case map_of (jo_task_owner jo) i of
         Some sid \<Rightarrow> (jo\<lparr>jo_task_owner := hm_remove i (jo_task_owner jo), jo_dirty := insert sid (jo_dirty jo)\<rparr>, {})
       | None \<Rightarrow> (jo, {}))
     | object_kind.Node \<Rightarrow> (jo\<lparr>jo_nodes_changed := True\<rparr>, {})
     | _ \<Rightarrow> (jo, {}))"
| "jobs_observe view (Commit _) jo =
     (let dirty = jo_dirty jo \<union> (if jo_nodes_changed jo then set (job_services view) else {})
      in (jo\<lparr>jo_nodes_changed := False, jo_dirty := {}\<rparr>, dirty))"

definition jobs_full_pass ::
  "('lid, 'mem) store_inner \<Rightarrow> jobs_orchestrator \<Rightarrow> jobs_orchestrator \<times> id list" where
  "jobs_full_pass view jo =
     (let targets = job_services view
      in (jo\<lparr>jo_completion_logged := {(i, v) \<in> jo_completion_logged jo. i \<in> set targets},
            jo_exhausted_logged := {(i, v, u) \<in> jo_exhausted_logged jo. i \<in> set targets}\<rparr>, targets))"

definition job_actions ::
  "id \<Rightarrow> (nat \<Rightarrow> id) \<Rightarrow> system_time \<Rightarrow> ('lid, 'mem) store_inner \<Rightarrow> store_action list" where
  "job_actions sid fresh now view = dec_actions (job_plan sid fresh now view)"

definition log_notes :: "id \<Rightarrow> decision \<Rightarrow> jobs_orchestrator \<Rightarrow> jobs_orchestrator" where
  "log_notes sid d jo = jo\<lparr>
     jo_exhausted_logged := jo_exhausted_logged jo \<union> {(sid, dec_spec_version d, u) | u. u \<in> set (dec_exhausted d)},
     jo_completion_logged := (if dec_completed d \<noteq> None
        then insert (sid, dec_spec_version d) (jo_completion_logged jo) else jo_completion_logged jo)\<rparr>"

end
