(* ===== verification/Orch_Jobs_Proofs.thy ===== *)
theory Orch_Jobs_Proofs
  imports Orch_Jobs Orch_Loops
begin

text \<open>
  One pass over a job keeps to its limits: it fills the concurrency limit but does not exceed it, and
  starts a unit only when nothing of it is running, its newest run failed, and its restart budget is
  not spent.
\<close>

section \<open>The buckets\<close>

text \<open>The tasks a unit's view is made of.\<close>

definition members :: "task list \<Rightarrow> id set \<Rightarrow> unit_key \<Rightarrow> task list" where
  "members ts skip u = filter (\<lambda>t. \<not> is_removing t \<and> task_id t \<notin> skip \<and> unit_of t = Some u) ts"

definition running :: "task \<Rightarrow> bool" where
  "running t \<longleftrightarrow> \<not> is_terminal (status_state (task_status t))"

definition unit_bucket :: "version \<Rightarrow> task list \<Rightarrow> unit_view" where
  "unit_bucket v ts = \<lparr>
     uv_live = filter (\<lambda>t. running t \<and> task_desired_state t < desired_state.Shutdown \<and> task_spec_version t = Some v) ts,
     uv_stale = filter (\<lambda>t. running t \<and> task_desired_state t < desired_state.Shutdown \<and> task_spec_version t \<noteq> Some v) ts,
     uv_stopping = filter (\<lambda>t. running t \<and> desired_state.Shutdown \<le> task_desired_state t) ts,
     uv_terminal = filter (\<lambda>t. \<not> running t \<and> task_spec_version t = Some v) ts\<rparr>"

lemma unit_bucket_Nil [simp]: "unit_bucket v [] = empty_unit_view"
  by (simp add: unit_bucket_def empty_unit_view_def)

lemma unit_bucket_snoc: "unit_bucket v (ts @ [t]) = bucket v t (unit_bucket v ts)"
  by (auto simp: unit_bucket_def bucket_def running_def Let_def)

definition file_task :: "version \<Rightarrow> task \<Rightarrow> (unit_key, unit_view) btree_map \<Rightarrow> (unit_key, unit_view) btree_map" where
  "file_task v t units = (case unit_of t of
       None \<Rightarrow> units
     | Some u \<Rightarrow> bt_insert u (bucket v t (case map_of units u of None \<Rightarrow> empty_unit_view | Some view \<Rightarrow> view)) units)"

definition considered :: "task list \<Rightarrow> id set \<Rightarrow> task list" where
  "considered ts skip = filter (\<lambda>t. \<not> is_removing t \<and> task_id t \<notin> skip) ts"

lemma bucketize_file:
  "bucketize ts v skip = map (\<lambda>(u, view). (u, view\<lparr>uv_terminal := sort_by by_creation (uv_terminal view)\<rparr>))
     (fold (file_task v) (considered ts skip) [])"
  by (simp add: bucketize_def file_task_def [abs_def] considered_def)

lemma filed:
  "bt_invar (fold (file_task v) ts []) \<and>
   map_of (fold (file_task v) ts []) u =
     (let ms = filter (\<lambda>t. unit_of t = Some u) ts in if ms = [] then None else Some (unit_bucket v ms))"
proof (induction ts rule: rev_induct)
  case Nil
  then show ?case
    by (simp add: bt_invar_def)
next
  case (snoc t ts)
  show ?case
  proof (cases "unit_of t")
    case None
    with snoc show ?thesis
      by (simp add: file_task_def)
  next
    case (Some w)
    with snoc show ?thesis
      by (auto simp: file_task_def bt_insert_invar bt_lookup_insert Let_def unit_bucket_snoc unit_bucket_snoc [of v "[]", simplified])
  qed
qed

lemma bucketize_lookup:
  "map_of (bucketize ts v skip) u = (if members ts skip u = [] then None
     else Some ((unit_bucket v (members ts skip u))\<lparr>uv_terminal :=
       sort_by by_creation (uv_terminal (unit_bucket v (members ts skip u)))\<rparr>))"
proof -
  have "filter (\<lambda>t. unit_of t = Some u) (considered ts skip) = members ts skip u"
    unfolding members_def considered_def filter_filter by (rule filter_cong) auto
  with filed [of v "considered ts skip" u] show ?thesis
    by (simp add: bucketize_file map_of_map Let_def)
qed

section \<open>How many tasks are live\<close>

lemma bt_insert_sum:
  fixes f :: "'v \<Rightarrow> nat"
  assumes "bt_invar m"
  shows "sum_list (map f (values_of (bt_insert k v m))) + (case map_of m k of None \<Rightarrow> 0 | Some old \<Rightarrow> f old) =
    sum_list (map f (values_of m)) + f v"
  using assms
proof (induction k v m rule: bt_insert.induct)
  case (2 k v k' v' m)
  have "k < k' \<Longrightarrow> map_of m k = None"
    using 2(2) by (auto simp: bt_invar_def map_of_eq_None_iff dest: order.strict_trans)
  with 2 show ?case
    by (auto simp: bt_invar_def split: option.splits)
qed simp

definition occupies :: "task \<Rightarrow> bool" where
  "occupies t \<longleftrightarrow> running t \<and> task_desired_state t < desired_state.Shutdown \<and> unit_of t \<noteq> None"

definition live_count :: "(unit_key, unit_view) btree_map \<Rightarrow> nat" where
  "live_count units = sum_list (map (\<lambda>view. length (uv_live view) + length (uv_stale view)) (values_of units))"

lemma live_count_filed: "live_count (fold (file_task v) ts []) = length (filter occupies ts)"
proof (induction ts rule: rev_induct)
  case (snoc t ts)
  let ?units = "fold (file_task v) ts []"
  have inv: "bt_invar ?units"
    using filed by blast
  show ?case
  proof (cases "unit_of t")
    case None
    with snoc show ?thesis
      by (simp add: file_task_def occupies_def)
  next
    case (Some u)
    let ?f = "\<lambda>view. length (uv_live view) + length (uv_stale view)"
    let ?old = "case map_of ?units u of None \<Rightarrow> empty_unit_view | Some view \<Rightarrow> view"
    have "?f (bucket v t ?old) = ?f ?old + (if occupies t then 1 else 0)"
      using Some by (auto simp: bucket_def occupies_def running_def Let_def not_le)
    moreover have "?f ?old = (case map_of ?units u of None \<Rightarrow> 0 | Some old \<Rightarrow> ?f old)"
      by (simp add: empty_unit_view_def split: option.split)
    moreover have "file_task v t ?units = bt_insert u (bucket v t ?old) ?units"
      by (simp only: file_task_def Some option.case)
    ultimately show ?thesis
      using bt_insert_sum [OF inv, of ?f u "bucket v t ?old"] snoc
      by (simp add: live_count_def)
  qed
qed (simp add: live_count_def)

lemma live_count_bucketize: "live_count (bucketize ts v skip) = length (filter occupies (considered ts skip))"
proof -
  have "live_count (map (\<lambda>(u, view). (u, view\<lparr>uv_terminal := g view\<rparr>)) units) = live_count units" for g units
    unfolding live_count_def by (intro arg_cong [where f = sum_list]) (auto simp: case_prod_beta)
  then show ?thesis
    by (simp add: bucketize_file live_count_filed)
qed

section \<open>The units started\<close>

definition in_state :: "unit_state \<Rightarrow> (unit_key, unit_state) btree_map \<Rightarrow> unit_key list" where
  "in_state st states = map fst (filter (\<lambda>(_, s). s = st) states)"

definition start_all :: "(nat \<Rightarrow> id) \<Rightarrow> system_time \<Rightarrow> service \<Rightarrow> nat \<Rightarrow> unit_key list \<Rightarrow> store_action list" where
  "start_all fresh now svc n us = map (\<lambda>(k, u). start_unit (fresh k) now svc u) (enumerate n us)"

lemma start_units_spec:
  "start_units fresh now svc st states (budget, acts) =
     (budget - length (in_state st states),
      acts @ start_all fresh now svc (length acts) (take budget (in_state st states)))"
proof (induction states arbitrary: budget acts)
  case Nil
  then show ?case
    by (simp add: start_units_def in_state_def start_all_def)
next
  case (Cons e states)
  obtain u s where e: "e = (u, s)"
    by (cases e)
  show ?case
  proof (cases "s = st \<and> budget > 0")
    case True
    then obtain b where b: "budget = Suc b"
      using gr0_conv_Suc by auto
    with Cons.IH [of b "acts @ [start_unit (fresh (length acts)) now svc u]"] True e show ?thesis
      by (simp add: start_units_def in_state_def start_all_def)
  next
    case False
    with Cons.IH [of budget acts] e show ?thesis
      by (auto simp: start_units_def in_state_def start_all_def)
  qed
qed

definition started :: "shape \<Rightarrow> restart_policy \<Rightarrow> (unit_key, unit_view) btree_map \<Rightarrow> unit_key list" where
  "started sh policy units =
     (let states = unit_states policy sh units
      in take (min (shape_max_live sh - live_count units) MAX_TX_ACTIONS)
           (in_state unit_state.Retry states @ in_state Fresh states))"

lemma plan_units_actions:
  "dec_actions (plan_units fresh now svc sh units) = take MAX_TX_ACTIONS (stop_stale now units @
     start_all fresh now svc (length (stop_stale now units))
       (started sh (tspec_restart (sspec_task (service_spec svc))) units))"
  by (simp add: plan_units_def Let_def start_units_spec started_def live_count_def start_all_def
      enumerate_append_eq)

lemma unit_states_lookup:
  "bt_invar (unit_states policy sh units) \<and>
   map_of (unit_states policy sh units) u = (if u \<in> set (shape_wanted sh)
     then Some (case map_of units u of None \<Rightarrow> Fresh | Some view \<Rightarrow> unit_state_of policy view) else None)"
proof -
  have "bt_invar (fold (\<lambda>u. bt_insert u (f u)) us m) \<and> map_of (fold (\<lambda>u. bt_insert u (f u)) us m) u =
      (if u \<in> set us then Some (f u) else map_of m u)" if "bt_invar m"
    for us m and f :: "unit_key \<Rightarrow> unit_state"
    using that by (induction us arbitrary: m) (auto simp: bt_insert_invar bt_lookup_insert)
  from this [of "[]"] show ?thesis
    by (simp add: unit_states_def bt_invar_def)
qed

section \<open>A pass over a replicated job\<close>

definition evicted :: "('lid, 'mem) store_inner \<Rightarrow> task \<Rightarrow> bool" where
  "evicted view t \<longleftrightarrow> evict_reason t (Option.bind (task_node_id t) (view_node view)) \<noteq> None"

lemma created_stale: "created_tasks (take n (stop_stale now units)) = []"
  by (rule created_none) (auto simp: stop_stale_def dest!: in_set_takeD intro: raise_creates_nothing)

text \<open>The tasks a list of slots is started with.\<close>

lemma created_starts:
  "created_tasks (take n (start_all fresh now svc m (map (\<lambda>sl. (sl, None)) sls))) =
     map (\<lambda>(k, sl). new_task (fresh k) now svc sl) (enumerate m (take n sls))"
proof (induction sls arbitrary: n m)
  case (Cons sl sls)
  then show ?case
    by (cases n) (simp_all add: start_all_def start_unit_def created_tasks_def map_filter_def created_task_def)
qed (simp add: start_all_def created_tasks_def map_filter_def)

lemma enumerate_member: "e \<in> set (enumerate m xs) \<Longrightarrow> snd e \<in> set xs"
  by (induction xs arbitrary: m) auto

lemma new_task_slots:
  "map task_slot (map (\<lambda>(k, sl). new_task (fresh k) now svc sl) (enumerate m sls)) = sls"
  by (induction sls arbitrary: m) (simp_all add: new_task_def build_task_def Let_def)

definition replicated_shape :: "nat \<Rightarrow> nat \<Rightarrow> shape" where
  "replicated_shape n cap = \<lparr>shape_wanted = map (\<lambda>slot. (slot, None)) [1..<Suc n], shape_max_live = cap\<rparr>"

lemma in_state_mem:
  "u \<in> set (in_state st (unit_states policy sh units)) \<longleftrightarrow> u \<in> set (shape_wanted sh) \<and>
     (case map_of units u of None \<Rightarrow> Fresh | Some view \<Rightarrow> unit_state_of policy view) = st"
proof -
  have inv: "bt_invar (unit_states policy sh units)"
    using unit_states_lookup by blast
  have "u \<in> set (in_state st (unit_states policy sh units)) \<longleftrightarrow> (u, st) \<in> set (unit_states policy sh units)"
    by (force simp: in_state_def)
  with bt.mem_iff [OF inv] unit_states_lookup [of policy sh units u] show ?thesis
    by auto
qed

lemma in_state_distinct: "distinct (in_state st (unit_states policy sh units))"
proof -
  have "distinct (keys_of (unit_states policy sh units))"
    using unit_states_lookup by (intro bt.invar_distinct) blast
  then show ?thesis
    unfolding in_state_def by (rule distinct_map_filter)
qed

lemma started_distinct: "distinct (started sh policy units)"
proof -
  let ?r = "in_state unit_state.Retry (unit_states policy sh units)" and ?f = "in_state Fresh (unit_states policy sh units)"
  have "set ?r \<inter> set ?f = {}"
    by (auto simp: in_state_mem)
  then have "distinct (?r @ ?f)"
    by (simp add: in_state_distinct)
  then show ?thesis
    unfolding started_def Let_def by (rule distinct_take)
qed

lemma started_slots:
  assumes "u \<in> set (started (replicated_shape n cap) policy units)"
  shows "snd u = None \<and> 1 \<le> fst u \<and> fst u \<le> n \<and>
    (case map_of units u of None \<Rightarrow> True | Some view \<Rightarrow> unit_state_of policy view \<in> {unit_state.Retry, Fresh})"
proof -
  have "u \<in> set (in_state unit_state.Retry (unit_states policy (replicated_shape n cap) units)) \<or>
      u \<in> set (in_state Fresh (unit_states policy (replicated_shape n cap) units))"
    using assms unfolding started_def Let_def by (auto dest!: in_set_takeD)
  then show ?thesis
    unfolding in_state_mem by (auto simp: replicated_shape_def split: option.splits)
qed

lemma startable:
  assumes "unit_state_of policy view \<in> {unit_state.Retry, Fresh}"
  shows "uv_live view = [] \<and> uv_stale view = [] \<and> uv_stopping view = [] \<and>
    (uv_terminal view = [] \<or> status_state (task_status (last (uv_terminal view))) \<noteq> task_state.Complete \<and>
       restart_condition policy \<noteq> None_rc \<and>
       (max_attempts policy > 0 \<longrightarrow> length (uv_terminal view) \<le> max_attempts policy))"
  using assms
  by (auto simp: unit_state_of_def decide_restart_def Let_def split: if_splits restart_condition.splits)

lemma bucket_idle:
  assumes "uv_live (unit_bucket v ts) = []" "uv_stale (unit_bucket v ts) = []" "uv_stopping (unit_bucket v ts) = []"
  shows "\<forall>u \<in> set ts. \<not> running u"
  using assms unfolding unit_bucket_def unit_view.select_convs filter_empty_conv by (meson not_le)

definition finished_runs :: "service \<Rightarrow> task list \<Rightarrow> task list" where
  "finished_runs svc ts = sort_by by_creation
     (filter (\<lambda>u. \<not> running u \<and> task_spec_version u = Some (service_spec_version svc)) ts)"

definition slot_members :: "('lid, 'mem) store_inner \<Rightarrow> id \<Rightarrow> nat \<Rightarrow> task list" where
  "slot_members view sid sl = filter (\<lambda>u. task_service_id u = Some sid \<and> task_slot u = sl \<and>
     \<not> is_removing u \<and> \<not> evicted view u) (view_tasks view)"

lemma doomed_ids:
  assumes "store_wf view" "t \<in> set (view_tasks view)"
  shows "task_id t \<in> set (map task_id (doomed_tasks view (filter P (view_tasks view)))) \<longleftrightarrow> P t \<and> evicted view t"
proof
  assume "task_id t \<in> set (map task_id (doomed_tasks view (filter P (view_tasks view))))"
  then obtain u where u: "u \<in> set (view_tasks view)" "P u" "evicted view u" "task_id u = task_id t"
    by (auto simp: doomed_tasks_def evicted_def)
  then have "u = t"
    using view_tasks_unique [OF assms(1) _ assms(2)] by blast
  with u show "P t \<and> evicted view t"
    by blast
qed (use assms(2) in \<open>auto simp: doomed_tasks_def evicted_def\<close>)

lemma members_slot:
  assumes "store_wf view" "sl > 0"
  shows "members (filter (\<lambda>t. task_service_id t = Some sid) (view_tasks view))
      (set (map task_id (doomed_tasks view (filter (\<lambda>t. task_service_id t = Some sid) (view_tasks view))))) (sl, None) =
    slot_members view sid sl"
  unfolding members_def slot_members_def filter_filter
proof (rule filter_cong [OF refl])
  fix t
  assume t: "t \<in> set (view_tasks view)"
  have "unit_of t = Some (sl, None) \<longleftrightarrow> task_slot t = sl"
    using assms(2) by (auto simp: unit_of_def is_global_task_def GLOBAL_SLOT_def)
  with doomed_ids [OF assms(1) t] show "(task_service_id t = Some sid \<and> \<not> is_removing t \<and>
      task_id t \<notin> set (map task_id (doomed_tasks view (filter (\<lambda>t. task_service_id t = Some sid) (view_tasks view)))) \<and>
      unit_of t = Some (sl, None)) =
    (task_service_id t = Some sid \<and> task_slot t = sl \<and> \<not> is_removing t \<and> \<not> evicted view t)"
    by blast
qed

lemma occupies_considered:
  assumes "store_wf view"
  shows "length (filter occupies (considered (filter (\<lambda>t. task_service_id t = Some sid) (view_tasks view))
      (set (map task_id (doomed_tasks view (filter (\<lambda>t. task_service_id t = Some sid) (view_tasks view))))))) =
    length (filter (\<lambda>t. task_service_id t = Some sid \<and> occupies t \<and> \<not> evicted view t) (view_tasks view))"
  unfolding considered_def filter_filter
proof (intro arg_cong [where f = length] filter_cong [OF refl])
  fix t
  assume t: "t \<in> set (view_tasks view)"
  have "occupies t \<Longrightarrow> \<not> is_removing t"
    by (auto simp: occupies_def is_removing_def less_desired_state_def)
  with doomed_ids [OF assms t] show "((task_service_id t = Some sid \<and> \<not> is_removing t \<and>
      task_id t \<notin> set (map task_id (doomed_tasks view (filter (\<lambda>t. task_service_id t = Some sid) (view_tasks view))))) \<and>
      occupies t) = (task_service_id t = Some sid \<and> occupies t \<and> \<not> evicted view t)"
    by blast
qed


definition w_job :: service where
  "w_job = sample_service ''j1'' (ReplicatedJob (Some 1) (Some 2))"

definition w_job_store :: "(nat, nat list) store_inner" where
  "w_job_store = sample_store [Create (store_object.Service w_job),
     Create (store_object.Task (sample_task ''t1'' ''j1'' 1 task_state.Complete desired_state.Running))]"


section \<open>Too many evictions\<close>

lemma eviction_orders:
  assumes "\<forall>t \<in> set ts. evicted view t"
  shows "length (List.map_filter (\<lambda>t. raise_desired_state now t desired_state.Shutdown) ts) = length ts"
  using assms
proof (induction ts)
  case (Cons t ts)
  then have "task_desired_state t \<le> desired_state.Running"
    by (auto simp: evicted_def evict_reason_def evictable_def split: if_splits)
  then have "\<not> desired_state.Shutdown \<le> task_desired_state t"
    by (auto simp: less_eq_desired_state_def)
  with Cons show ?case
    by (simp add: map_filter_simps raise_desired_state_def)
qed (simp add: map_filter_simps)

text \<open>
  C29. The shutdowns of evicted tasks are not cut to the size of a transaction. When more tasks of a
  replicated job sit on nodes that can no longer run them than a transaction may have actions,
  the pass proposes more actions than the store accepts; the proposal is rejected as malformed on
  the first attempt, and nothing is stopped or started, however often the pass is repeated.
\<close>

theorem job_evictions_overflow:
  assumes svc: "view_service view sid = Some svc" and mode: "sspec_mode (service_spec svc) = ReplicatedJob mc tc"
    and many: "MAX_TX_ACTIONS < length (filter (\<lambda>t. task_service_id t = Some sid \<and> evicted view t) (view_tasks view))"
  shows "propose_with_retry (\<lambda>_. view)
      (\<lambda>_ acts. Inr (fst (apply_transaction view \<lparr>proposal_actions = acts\<rparr> index len)) :: ('e client_write_error, proposal_response) result)
      (job_actions sid fresh now) =
    Inl (Malformed (TooManyActions (length (job_actions sid fresh now view))))"
proof -
  let ?ts = "filter (\<lambda>t. task_service_id t = Some sid) (view_tasks view)"
  let ?acts = "job_actions sid fresh now view"
  have doomed: "doomed_tasks view ?ts = filter (\<lambda>t. task_service_id t = Some sid \<and> evicted view t) (view_tasks view)"
    by (simp add: doomed_tasks_def evicted_def conj_commute)
  then have "\<forall>t \<in> set (doomed_tasks view ?ts). evicted view t"
    by simp
  from eviction_orders [OF this] many doomed have
    "MAX_TX_ACTIONS < length (List.map_filter (\<lambda>t. raise_desired_state now t desired_state.Shutdown) (doomed_tasks view ?ts))"
    by simp
  then have long: "MAX_TX_ACTIONS < length ?acts"
    unfolding job_actions_def job_plan_def by (simp add: svc mode plan_replicated_def Let_def)
  then have "fst (apply_transaction view \<lparr>proposal_actions = ?acts\<rparr> index len) =
      proposal_response.Rejected (TooManyActions (length ?acts))"
    by (simp add: apply_transaction_def validate_transaction_def)
  moreover have "?acts \<noteq> []"
    using long by auto
  moreover have "is_malformed (TooManyActions (length ?acts))"
    unfolding is_malformed_def by simp
  ultimately show ?thesis
    unfolding propose_with_retry_def by (subst retry_loop_step(4) [where r = "TooManyActions (length ?acts)"]) simp_all
qed

text \<open>Two hundred and one tasks on a node that is gone.\<close>

definition w_lost_task :: "nat \<Rightarrow> task" where
  "w_lost_task k = (sample_task (replicate k CHR ''t'') ''j1'' (Suc k) task_state.Running desired_state.Running)
     \<lparr>task_node_id := Some ''gone''\<rparr>"

definition w_lost_store :: "(nat, nat list) store_inner" where
  "w_lost_store = fold insert_object (store_object.Service w_job # map (store_object.Task \<circ> w_lost_task) [0..<201])
     (store_default nat_raft)"

lemma w_lost_objects:
  "get_object w_lost_store k i = Some x \<longleftrightarrow>
     x \<in> set (store_object.Service w_job # map (store_object.Task \<circ> w_lost_task) [0..<201]) \<and> obj_key x = (k, i)"
  unfolding w_lost_store_def
proof (rule fold_insert_map)
  fix x y
  assume "x \<in> set (store_object.Service w_job # map (store_object.Task \<circ> w_lost_task) [0..<201])"
    "y \<in> set (store_object.Service w_job # map (store_object.Task \<circ> w_lost_task) [0..<201])" "obj_key x = obj_key y"
  then show "x = y"
    by (auto simp: obj_kind_def obj_id_def w_lost_task_def sample_task_def)
qed simp

theorem job_evictions_overflow_witness:
  "propose_with_retry (\<lambda>_. w_lost_store)
      (\<lambda>_ acts. Inr (fst (apply_transaction w_lost_store \<lparr>proposal_actions = acts\<rparr> 2 0)) :: (nat client_write_error, proposal_response) result)
      (job_actions ''j1'' show_nat 0) =
    Inl (Malformed (TooManyActions (length (job_actions ''j1'' show_nat 0 w_lost_store))))"
proof (rule job_evictions_overflow)
  show "view_service w_lost_store ''j1'' = Some w_job"
    using w_lost_objects [of object_kind.Service "''j1''" "store_object.Service w_job"]
    by (simp add: view_service_def get_object_def obj_kind_def obj_id_def) (simp add: w_job_def sample_service_def)
  show "sspec_mode (service_spec w_job) = ReplicatedJob (Some 1) (Some 2)"
    by (simp add: w_job_def sample_service_def)
  have wf: "store_wf w_lost_store"
    unfolding w_lost_store_def by (intro fold_insert_wf store_default_wf)
  let ?P = "\<lambda>t. task_service_id t = Some ''j1'' \<and> evicted w_lost_store t"
  have gone: "view_node w_lost_store ''gone'' = None"
    using w_lost_objects [of object_kind.Node "''gone''"]
    by (cases "view_node w_lost_store ''gone''") (auto simp: view_node_def get_object_def obj_kind_def)
  have "w_lost_task ` {..<201} \<subseteq> set (filter ?P (view_tasks w_lost_store))"
  proof
    fix t
    assume "t \<in> w_lost_task ` {..<201}"
    then obtain k where k: "k < 201" "t = w_lost_task k"
      by auto
    have "view_task w_lost_store (task_id t) = Some t"
      using w_lost_objects [of object_kind.Task "task_id t" "store_object.Task t"] k
      by (auto simp: view_task_def get_object_def obj_kind_def obj_id_def image_iff)
    then have "t \<in> set (view_tasks w_lost_store)"
      by (simp add: view_tasks_iff [OF wf])
    moreover have "?P t"
      using gone by (simp add: k(2) w_lost_task_def sample_task_def evicted_def evict_reason_def evictable_def
          node_invalidity_def new_task_status_def is_terminal_def)
    ultimately show "t \<in> set (filter ?P (view_tasks w_lost_store))"
      by simp
  qed
  then have "card (w_lost_task ` {..<201}) \<le> card (set (filter ?P (view_tasks w_lost_store)))"
    by (intro card_mono) simp_all
  moreover have "inj_on w_lost_task {..<201}"
    by (auto simp: inj_on_def w_lost_task_def sample_task_def)
  ultimately show "MAX_TX_ACTIONS < length (filter ?P (view_tasks w_lost_store))"
    using card_length [of "filter ?P (view_tasks w_lost_store)"] by (simp add: card_image MAX_TX_ACTIONS_def)
qed

end
