(* ===== verification/Orch_Update.thy ===== *)
theory Orch_Update
  imports Orch_Restart Orch_Global "HOL-Library.Product_Lexorder"
begin

text \<open>
  \<open>satl-orchestrator/src/update.rs\<close>: the rolling updater. Every pass derives its decision from the
  store alone: it sorts the tasks of a service into units (slots, or nodes for a global service),
  judges the failures of the tasks stamped with the current spec, and advances as many units as
  the configuration allows. \<open>fresh\<close> supplies the generated ids; \<open>now\<close> is the clock reading the
  pass is given and \<open>clock\<close> the one its new and changed tasks are stamped with. Logging is left
  out.
\<close>

definition OLD_TASK_TIMEOUT :: duration where
  "OLD_TASK_TIMEOUT = 60000000000"

definition MIN_WAKE :: duration where
  "MIN_WAKE = 50000000"

definition UPDATE_MONITOR :: duration where
  "UPDATE_MONITOR = 5000000000"

definition default_update_config :: update_config where
  "default_update_config = \<lparr>parallelism = 1, update_delay = 0, failure_action = failure_action.Pause,
     update_monitor = UPDATE_MONITOR, max_failure_ratio = 0, update_order = StopFirst\<rparr>"

section \<open>Single precision\<close>

text \<open>
  The one division of \<open>f32\<close> values: to nearest, ties to even, with a significand of 24 bits. The
  quotients of two counts stay clear of the ends of the exponent range.
\<close>

fun bit_length :: "nat \<Rightarrow> nat" where
  "bit_length n = (if n = 0 then 0 else Suc (bit_length (n div 2)))"

declare bit_length.simps [simp del]

definition round_half_even :: "nat \<Rightarrow> nat \<Rightarrow> nat" where
  "round_half_even n d =
     (let q = n div d; r = n mod d
      in if 2 * r < d \<or> 2 * r = d \<and> even q then q else q + 1)"

definition scaled :: "nat \<Rightarrow> nat \<Rightarrow> int \<Rightarrow> nat \<times> nat" where
  "scaled n d s = (if s \<ge> 0 then (n * 2 ^ nat s, d) else (n, d * 2 ^ nat (- s)))"

definition f32_round :: "rat \<Rightarrow> rat" where
  "f32_round x =
     (let (p, q) = quotient_of x; n = nat p; d = nat q
      in if n = 0 then 0
         else let s = 24 + int (bit_length d) - int (bit_length n);
                  (a, b) = scaled n d s;
                  s' = (if a div b \<ge> 2 ^ 24 then s - 1 else s);
                  (a', b') = scaled n d s';
                  m = of_nat (round_half_even a' b') :: rat
              in if s' \<ge> 0 then m / 2 ^ nat s' else m * 2 ^ nat (- s'))"

definition failure_ratio :: "nat \<Rightarrow> nat \<Rightarrow> rat" where
  "failure_ratio failures slots = f32_round (f32_round (of_nat failures) / f32_round (of_nat slots))"

section \<open>Units\<close>

type_synonym update_unit = "nat \<times> id option"

definition update_unit_of :: "task \<Rightarrow> update_unit option" where
  "update_unit_of t =
     (if is_global_task t
      then (case task_node_id t of None \<Rightarrow> None | Some n \<Rightarrow> Some (task_slot t, Some n))
      else Some (task_slot t, None))"

datatype update_shape = ReplicatedShape (shape_replicas: nat) | GlobalShape (shape_nodes: "id set")

text \<open>None is the arm marked unreachable.\<close>

definition shape_of :: "('lid, 'mem) store_inner \<Rightarrow> service \<Rightarrow> update_shape option" where
  "shape_of view svc = (case sspec_mode (service_spec svc) of
       Replicated n \<Rightarrow> Some (ReplicatedShape n)
     | Global \<Rightarrow> Some (GlobalShape (eligible_nodes view svc))
     | _ \<Rightarrow> None)"

fun shape_owns :: "update_shape \<Rightarrow> update_unit \<Rightarrow> bool" where
  "shape_owns (ReplicatedShape n) (slot, None) \<longleftrightarrow> slot \<ge> 1 \<and> slot \<le> n"
| "shape_owns (GlobalShape nodes) (_, Some n) \<longleftrightarrow> n \<in> nodes"
| "shape_owns _ _ \<longleftrightarrow> False"

fun shape_count :: "update_shape \<Rightarrow> nat" where
  "shape_count (ReplicatedShape n) = n"
| "shape_count (GlobalShape nodes) = card nodes"

fun shape_noun :: "update_shape \<Rightarrow> string" where
  "shape_noun (ReplicatedShape _) = ''slots''"
| "shape_noun (GlobalShape _) = ''nodes''"

record update_plan =
  plan_actions :: "store_action list"
  plan_wake :: "duration option"

definition idle_plan :: update_plan where
  "idle_plan = \<lparr>plan_actions = [], plan_wake = None\<rparr>"

definition act_plan :: "store_action list \<Rightarrow> update_plan" where
  "act_plan actions = \<lparr>plan_actions = actions, plan_wake = None\<rparr>"

record slot_view =
  sv_clean :: "task list"
  sv_stale :: "task list"
  sv_stopping :: "task list"
  sv_touched :: bool
  sv_abandoned :: bool

definition empty_slot_view :: slot_view where
  "empty_slot_view = \<lparr>sv_clean = [], sv_stale = [], sv_stopping = [], sv_touched = False,
     sv_abandoned = False\<rparr>"

datatype update_phase = Absent | Settled | Watching | Pending (phase_started: bool)

type_synonym update_phases = "(update_unit, update_phase) btree_map"

definition monitoring_period :: "update_config \<Rightarrow> duration" where
  "monitoring_period config =
     (if update_delay config \<ge> update_monitor config then update_delay config + 1000000000
      else update_monitor config)"

definition since :: "system_time \<Rightarrow> system_time \<Rightarrow> duration" where
  "since now earlier = duration_since now earlier"

definition sooner :: "duration option \<Rightarrow> duration \<Rightarrow> duration option" where
  "sooner current candidate =
     Some (case current of Some planned \<Rightarrow> min planned candidate | None \<Rightarrow> candidate)"

section \<open>Where a unit stands\<close>

definition update_abandoned :: "task \<Rightarrow> desired_state \<Rightarrow> bool" where
  "update_abandoned t target =
     (if task_desired_state t \<ge> desired_state.Shutdown then False
      else if task_desired_state t < target then True
      else decide_restart (tspec_restart (task_spec t)) (status_state (task_status t)) 0 \<noteq> Restart)"

definition task_node :: "('lid, 'mem) store_inner \<Rightarrow> task \<Rightarrow> node option" where
  "task_node view t = (case task_node_id t of None \<Rightarrow> None | Some i \<Rightarrow> view_node view i)"

definition add_to_slot ::
  "('lid, 'mem) store_inner \<Rightarrow> service \<Rightarrow> desired_state \<Rightarrow> task \<Rightarrow> slot_view \<Rightarrow> slot_view" where
  "add_to_slot view svc target t entry =
     (let current = task_spec_version t = Some (service_spec_version svc);
          entry = entry\<lparr>sv_touched := sv_touched entry \<or> current\<rparr>;
          terminal = is_terminal (status_state (task_status t));
          dirty = is_task_dirty svc t (task_node view t)
      in if task_desired_state t \<le> desired_state.Running \<and> \<not> terminal
         then if dirty then entry\<lparr>sv_stale := sv_stale entry @ [t]\<rparr>
              else entry\<lparr>sv_clean := sv_clean entry @ [t]\<rparr>
         else if task_desired_state t \<ge> desired_state.Shutdown \<and> \<not> terminal
         then entry\<lparr>sv_stopping := sv_stopping entry @ [t]\<rparr>
         else if terminal \<and> update_abandoned t target
         then entry\<lparr>sv_abandoned := sv_abandoned entry \<or> dirty\<rparr>
         else entry)"

text \<open>The unit a task is looked at under, if any.\<close>

definition owned_unit :: "update_shape \<Rightarrow> task \<Rightarrow> update_unit option" where
  "owned_unit shape t =
     (if task_desired_state t = desired_state.Remove then None
      else case update_unit_of t of
          None \<Rightarrow> None
        | Some u \<Rightarrow> if shape_owns shape u then Some u else None)"

definition slot_views ::
  "('lid, 'mem) store_inner \<Rightarrow> service \<Rightarrow> task list \<Rightarrow> update_shape \<Rightarrow> desired_state \<Rightarrow>
   (update_unit, slot_view) btree_map" where
  "slot_views view svc tasks shape target = fold (\<lambda>t slots.
     case owned_unit shape t of
       None \<Rightarrow> slots
     | Some u \<Rightarrow> bt_insert u (add_to_slot view svc target t
         (case map_of slots u of None \<Rightarrow> empty_slot_view | Some entry \<Rightarrow> entry)) slots) tasks []"

definition slot_phase ::
  "slot_view \<Rightarrow> desired_state \<Rightarrow> duration \<Rightarrow> system_time \<Rightarrow> bool \<Rightarrow> update_phase" where
  "slot_phase slot target monitor now updating =
     (if sv_stale slot \<noteq> [] then Pending (sv_touched slot)
      else case sv_clean slot of
          [] \<Rightarrow> if sv_touched slot then Watching
                else if sv_abandoned slot then Pending False
                else if updating then Watching else Absent
        | _ # _ # _ \<Rightarrow> Pending True
        | [t] \<Rightarrow>
            if task_desired_state t < target then Pending True
            else if \<not> sv_touched slot then Settled
            else if status_state (task_status t) < as_task_state target then Watching
            else if since now (task_timestamp t) \<ge> monitor then Settled else Watching)"

definition work_left :: "update_phases \<Rightarrow> bool" where
  "work_left phases \<longleftrightarrow> list_ex (\<lambda>(_, p). case p of Pending _ \<Rightarrow> True | Watching \<Rightarrow> True | _ \<Rightarrow> False) phases"

section \<open>The status of an update\<close>

definition progress_message :: "update_state_kind \<Rightarrow> update_phases \<Rightarrow> update_shape \<Rightarrow> string" where
  "progress_message state phases shape =
     (let done = show_nat (length (filter (\<lambda>(_, p). p = Settled) phases));
          units = show_nat (shape_count shape);
          what = shape_noun shape
      in case state of
          Updating \<Rightarrow> ''updating: '' @ done @ '' of '' @ units @ '' '' @ what @ '' updated''
        | Completed \<Rightarrow> ''update completed: '' @ units @ '' '' @ what @ '' updated''
        | RollbackStarted \<Rightarrow> ''rolling back: '' @ done @ '' of '' @ units @ '' '' @ what @ '' rolled back''
        | RollbackCompleted \<Rightarrow> ''rollback completed: '' @ units @ '' '' @ what @ '' rolled back''
        | Paused \<Rightarrow> ''update paused''
        | RollbackPaused \<Rightarrow> ''rollback paused'')"

definition engaged_state :: "update_state_kind option \<Rightarrow> bool" where
  "engaged_state state \<longleftrightarrow> state = Some Updating \<or> state = Some RollbackStarted"

definition status_action ::
  "service \<Rightarrow> update_state_kind \<Rightarrow> string \<Rightarrow> system_time \<Rightarrow> store_action" where
  "status_action svc state message now =
     (let final_state = \<not> (state = Updating \<or> state = RollbackStarted);
          started_at = (case service_update_status svc of
              Some previous \<Rightarrow>
                if update_state previous = state \<or> final_state then update_started_at previous
                else Some now
            | None \<Rightarrow> Some now)
      in Update (store_object.Service (svc
           \<lparr>service_update_status := Some \<lparr>update_state = state, update_started_at = started_at,
              update_completed_at = (if final_state then Some now else None),
              update_message = message\<rparr>,
            service_meta := (service_meta svc)\<lparr>updated_at := now\<rparr>\<rparr>)))"

definition finished ::
  "service \<Rightarrow> update_state_kind option \<Rightarrow> update_phases \<Rightarrow> update_shape \<Rightarrow> system_time \<Rightarrow> update_plan" where
  "finished svc state phases shape now = (case state of
       Some Updating \<Rightarrow> act_plan [status_action svc Completed (progress_message Completed phases shape) now]
     | Some RollbackStarted \<Rightarrow> act_plan [status_action svc RollbackCompleted
         (progress_message RollbackCompleted phases shape) now]
     | _ \<Rightarrow> idle_plan)"

definition publish_progress ::
  "update_plan \<Rightarrow> service \<Rightarrow> update_state_kind option \<Rightarrow> update_phases \<Rightarrow> update_shape \<Rightarrow>
   system_time \<Rightarrow> update_plan" where
  "publish_progress plan svc state phases shape now =
     (if \<not> engaged_state state
      then if plan_actions plan = [] then plan
           else plan\<lparr>plan_actions := status_action svc Updating
                  (progress_message Updating phases shape) now # plan_actions plan\<rparr>
      else let state = (case state of Some st \<Rightarrow> st | None \<Rightarrow> Updating);
               message = progress_message state phases shape
           in if (case service_update_status svc of
                    None \<Rightarrow> True | Some status \<Rightarrow> update_message status \<noteq> message)
              then plan\<lparr>plan_actions := status_action svc state message now # plan_actions plan\<rparr>
              else plan)"

section \<open>Failures\<close>

definition failed_under_this_spec :: "service \<Rightarrow> task \<Rightarrow> bool" where
  "failed_under_this_spec svc t \<longleftrightarrow> task_spec_version t = Some (service_spec_version svc) \<and>
     is_terminal (status_state (task_status t)) \<and> status_state (task_status t) \<noteq> task_state.Shutdown"

definition rollback_action :: "service \<Rightarrow> nat \<Rightarrow> nat \<Rightarrow> system_time \<Rightarrow> store_action" where
  "rollback_action svc failures slots now = (case previous_spec svc of
       None \<Rightarrow> status_action svc Paused (''update paused: '' @ show_nat failures @ '' of '' @
         show_nat slots @ '' tasks failed and there is no previous spec to roll back to'') now
     | Some previous \<Rightarrow> Update (store_object.Service (svc
         \<lparr>service_spec := previous, previous_spec := None,
          service_update_status := Some \<lparr>update_state = RollbackStarted, update_started_at = Some now,
            update_completed_at = None,
            update_message = ''rolling back: '' @ show_nat failures @ '' of '' @ show_nat slots @
              '' tasks failed''\<rparr>,
          service_meta := (service_meta svc)\<lparr>updated_at := now\<rparr>\<rparr>)))"

definition failure_verdict ::
  "service \<Rightarrow> task list \<Rightarrow> update_phases \<Rightarrow> update_config \<Rightarrow> system_time \<Rightarrow> store_action option" where
  "failure_verdict svc tasks phases config now = (case service_update_status svc of
       None \<Rightarrow> None
     | Some status \<Rightarrow>
         let state = update_state status
         in if \<not> (state = Updating \<or> state = RollbackStarted) then None
            else if failure_action config = failure_action.Continue then None
            else let failures = length (filter (failed_under_this_spec svc) tasks);
                     slots = max (length (filter (\<lambda>(_, p). p \<noteq> Absent) phases)) 1
                 in if failures = 0 then None
                    else if failure_ratio failures slots \<le> max_failure_ratio config then None
                    else if state = RollbackStarted
                    then Some (status_action svc RollbackPaused (''rollback paused: '' @
                      show_nat failures @ '' of '' @ show_nat slots @ '' tasks failed'') now)
                    else case failure_action config of
                        failure_action.Continue \<Rightarrow> None
                      | failure_action.Pause \<Rightarrow> Some (status_action svc Paused (''update paused: '' @
                          show_nat failures @ '' of '' @ show_nat slots @ '' tasks failed'') now)
                      | failure_action.Rollback \<Rightarrow> Some (rollback_action svc failures slots now))"

section \<open>Advancing the units\<close>

definition resize_actions ::
  "system_time \<Rightarrow> ('lid, 'mem) store_inner \<Rightarrow> service \<Rightarrow> task list \<Rightarrow> store_action list" where
  "resize_actions clock view svc tasks = List.map_filter (\<lambda>t.
     if task_desired_state t > desired_state.Running \<or> is_terminal (status_state (task_status t)) \<or>
        tspec_resources (task_spec t) = tspec_resources (sspec_task (service_spec svc)) then None
     else if is_task_dirty svc t (task_node view t) then None
     else Some (update_task clock t (\<lambda>t. t
       \<lparr>task_spec := (task_spec t)\<lparr>tspec_resources := tspec_resources (sspec_task (service_spec svc))\<rparr>,
        task_spec_version := Some (service_spec_version svc)\<rparr>))) tasks"

definition compare_keepers :: "task \<Rightarrow> task \<Rightarrow> ordering" where
  "compare_keepers a b =
     then_with (cmp (status_state (task_status a)) (status_state (task_status b)))
       (then_with (cmp (created_at (task_meta b)) (created_at (task_meta a)))
         (cmp (task_id b) (task_id a)))"

text \<open>\<open>Iterator::max_by\<close>: of equal elements the last.\<close>

fun max_by :: "('a \<Rightarrow> 'a \<Rightarrow> ordering) \<Rightarrow> 'a list \<Rightarrow> 'a option" where
  "max_by c [] = None"
| "max_by c (x # xs) = Some (fold (\<lambda>y best. if c best y = Greater then best else y) xs x)"

definition keeper :: "task list \<Rightarrow> task option" where
  "keeper clean = max_by compare_keepers clean"

definition last_started :: "(update_unit, slot_view) btree_map \<Rightarrow> desired_state \<Rightarrow> system_time option" where
  "last_started slots target =
     (case map task_timestamp (filter (\<lambda>t. status_state (task_status t) \<ge> as_task_state target)
        (concat (map (\<lambda>(_, v). sv_clean v) slots))) of
        [] \<Rightarrow> None
      | t # ts \<Rightarrow> Some (fold max ts t))"

definition stop_pending :: "slot_view \<Rightarrow> system_time \<Rightarrow> duration option" where
  "stop_pending view now = fold (\<lambda>t remaining.
     let waited = since now (updated_at (task_meta t))
     in if waited \<ge> OLD_TASK_TIMEOUT then remaining
        else sooner remaining (OLD_TASK_TIMEOUT - waited)) (sv_stopping view) None"

definition shut_down :: "system_time \<Rightarrow> task list \<Rightarrow> store_action list" where
  "shut_down clock ts = List.map_filter (\<lambda>t. raise_desired_state clock t desired_state.Shutdown) ts"

definition promote :: "system_time \<Rightarrow> task \<Rightarrow> desired_state \<Rightarrow> store_action list" where
  "promote clock t target = (case raise_desired_state clock t target of None \<Rightarrow> [] | Some a \<Rightarrow> [a])"

definition finish_slot ::
  "system_time \<Rightarrow> slot_view \<Rightarrow> update_order \<Rightarrow> desired_state \<Rightarrow> system_time \<Rightarrow>
   store_action list \<times> duration option" where
  "finish_slot clock view order target now = (case keeper (sv_clean view) of
       None \<Rightarrow> ([], None)
     | Some kept \<Rightarrow>
         let extras = shut_down clock (filter (\<lambda>t. task_id t \<noteq> task_id kept) (sv_clean view))
         in case order of
             StopFirst \<Rightarrow>
               let stops = extras @ shut_down clock (sv_stale view)
               in if task_desired_state kept < target \<and> sv_stale view = []
                  then case stop_pending view now of
                      None \<Rightarrow> (stops @ promote clock kept target, None)
                    | Some remaining \<Rightarrow> (stops, Some remaining)
                  else (stops, None)
           | StartFirst \<Rightarrow>
               if status_state (task_status kept) \<ge> as_task_state target
               then (extras @ shut_down clock (sv_stale view), None)
               else (extras, None))"

definition start_slot ::
  "id \<Rightarrow> system_time \<Rightarrow> service \<Rightarrow> update_unit \<Rightarrow> slot_view \<Rightarrow> update_order \<Rightarrow> desired_state \<Rightarrow>
   store_action list" where
  "start_slot tid clock svc unit view order target =
     (let (slot, nid) = unit;
          replacement = (case nid of
              Some n \<Rightarrow> new_global_task tid clock svc n
            | None \<Rightarrow> new_task tid clock svc slot);
          waits = (order = StopFirst \<and> \<not> (sv_stale view = [] \<and> sv_stopping view = []));
          replacement = replacement\<lparr>task_desired_state :=
            (if waits then min desired_state.Ready target else target)\<rparr>
      in Create (store_object.Task replacement) #
         (if order = StopFirst then shut_down clock (sv_stale view) else []))"

text \<open>
  What a unit contributes: its actions (None when the loop goes on to the next unit), a wake-up, and
  whether it draws on the budget.
\<close>

definition unit_work ::
  "id \<Rightarrow> system_time \<Rightarrow> service \<Rightarrow> update_phases \<Rightarrow> update_config \<Rightarrow> desired_state \<Rightarrow> duration \<Rightarrow>
   system_time \<Rightarrow> update_unit \<Rightarrow> slot_view \<Rightarrow> nat \<Rightarrow>
   store_action list option \<times> duration option \<times> bool" where
  "unit_work tid clock svc phases config target monitor now unit view budget =
     (case map_of phases unit of
        Some (Pending _) \<Rightarrow>
          if sv_clean view = []
          then if sv_touched view then (None, None, False)
               else if budget = 0 then (None, None, False)
               else (Some (start_slot tid clock svc unit view (update_order config) target), None, True)
          else (case finish_slot clock view (update_order config) target now of
              (slot_actions, slot_wake) \<Rightarrow> (Some slot_actions, slot_wake, False))
      | Some Watching \<Rightarrow>
          (None,
           (case sv_clean view of
              [t] \<Rightarrow> if status_state (task_status t) \<ge> as_task_state target
                then Some (monitor - since now (task_timestamp t)) else None
            | _ \<Rightarrow> None),
           False)
      | _ \<Rightarrow> (None, None, False))"

text \<open>The loop over the units: the ids drawn and the budget, the actions and the wake-up so far.\<close>

fun work_slots ::
  "(nat \<Rightarrow> update_unit \<Rightarrow> slot_view \<Rightarrow> nat \<Rightarrow> store_action list option \<times> duration option \<times> bool) \<Rightarrow>
   (update_unit, slot_view) btree_map \<Rightarrow> nat \<Rightarrow> nat \<Rightarrow> store_action list \<Rightarrow> duration option \<Rightarrow> update_plan" where
  "work_slots work [] k budget actions wake = \<lparr>plan_actions = actions, plan_wake = wake\<rparr>"
| "work_slots work ((unit, view) # slots) k budget actions wake =
     (case work k unit view budget of (unit_actions, unit_wake, starts) \<Rightarrow>
        let wake = (case unit_wake of None \<Rightarrow> wake | Some w \<Rightarrow> sooner wake w);
            k = (if starts then Suc k else k);
            budget = (if starts then budget - 1 else budget)
        in case unit_actions of
            None \<Rightarrow> work_slots work slots k budget actions wake
          | Some slot_actions \<Rightarrow>
              if length actions + length slot_actions > MAX_TX_ACTIONS - 1
              then \<lparr>plan_actions = actions, plan_wake = wake\<rparr>
              else work_slots work slots k budget (actions @ slot_actions) wake)"

definition USIZE_MAX :: nat where
  "USIZE_MAX = 2 ^ 64 - 1"

definition units_in_flight :: "update_phases \<Rightarrow> nat" where
  "units_in_flight phases = length (filter (\<lambda>(_, p). p = Watching \<or> p = Pending True) phases)"

definition slot_work ::
  "(nat \<Rightarrow> id) \<Rightarrow> system_time \<Rightarrow> service \<Rightarrow> (update_unit, slot_view) btree_map \<Rightarrow> update_phases \<Rightarrow>
   update_config \<Rightarrow> duration \<Rightarrow> system_time \<Rightarrow> update_plan" where
  "slot_work fresh clock svc slots phases config monitor now =
     (let target = initial_desired_state (service_spec svc);
          budget = (if parallelism config = 0 then USIZE_MAX
                    else parallelism config - units_in_flight phases);
          (budget, wake) = (case last_started slots target of
              None \<Rightarrow> (budget, None)
            | Some started \<Rightarrow>
                if update_delay config = 0 then (budget, None)
                else let waited = since now started
                     in if waited < update_delay config
                        then (0, sooner None (update_delay config - waited)) else (budget, None))
      in work_slots (\<lambda>k. unit_work (fresh k) clock svc phases config target monitor now)
           slots 0 budget [] wake)"

section \<open>The plan\<close>

text \<open>The parts of a pass that the later ones read.\<close>

definition update_tasks :: "('lid, 'mem) store_inner \<Rightarrow> id \<Rightarrow> task list" where
  "update_tasks view sid = filter (\<lambda>t. task_service_id t = Some sid) (view_tasks view)"

definition current_state :: "service \<Rightarrow> update_state_kind option" where
  "current_state svc = map_option update_state (service_update_status svc)"

definition update_config_of :: "service \<Rightarrow> update_config" where
  "update_config_of svc =
     (case (if current_state svc = Some RollbackStarted then sspec_rollback (service_spec svc)
            else sspec_update (service_spec svc)) of
        Some config \<Rightarrow> config | None \<Rightarrow> default_update_config)"

definition update_phases_of ::
  "(update_unit, slot_view) btree_map \<Rightarrow> desired_state \<Rightarrow> duration \<Rightarrow> system_time \<Rightarrow> bool \<Rightarrow> update_phases" where
  "update_phases_of slots target monitor now updating =
     map (\<lambda>(unit, view). (unit, slot_phase view target monitor now updating)) slots"

definition update_plan_of ::
  "id \<Rightarrow> (nat \<Rightarrow> id) \<Rightarrow> system_time \<Rightarrow> system_time \<Rightarrow> ('lid, 'mem) store_inner \<Rightarrow> update_plan" where
  "update_plan_of sid fresh clock now view = (case view_service view sid of
       None \<Rightarrow> idle_plan
     | Some svc \<Rightarrow>
         if is_job (sspec_mode (service_spec svc)) then idle_plan
         else case shape_of view svc of
             None \<Rightarrow> idle_plan
           | Some shape \<Rightarrow>
               let state = current_state svc
               in if state = Some Paused \<or> state = Some RollbackPaused then idle_plan
                  else let config = update_config_of svc;
                           monitor = monitoring_period config;
                           tasks = update_tasks view sid;
                           resizes = resize_actions clock view svc tasks
                       in if resizes \<noteq> [] then act_plan resizes
                          else let target = initial_desired_state (service_spec svc);
                                   slots = slot_views view svc tasks shape target;
                                   phases = update_phases_of slots target monitor now (engaged_state state)
                               in case failure_verdict svc tasks phases config now of
                                   Some action \<Rightarrow> act_plan [action]
                                 | None \<Rightarrow>
                                     if \<not> work_left phases then finished svc state phases shape now
                                     else publish_progress
                                       (slot_work fresh clock svc slots phases config monitor now)
                                       svc state phases shape now)"

section \<open>The loop\<close>

text \<open>Instants are naturals, in nanoseconds.\<close>

record updater =
  up_dirty :: "id set"
  up_task_owner :: "(id, id) hash_map"
  up_wake :: "(id, nat) hash_map"

definition new_updater :: updater where
  "new_updater = \<lparr>up_dirty = {}, up_task_owner = [], up_wake = []\<rparr>"

definition updater_observe_object :: "store_object \<Rightarrow> updater \<Rightarrow> updater" where
  "updater_observe_object obj up = (case obj of
       store_object.Service svc \<Rightarrow> up\<lparr>up_dirty := insert (service_id svc) (up_dirty up)\<rparr>
     | store_object.Task t \<Rightarrow> (case task_service_id t of
         Some sid \<Rightarrow> up\<lparr>up_task_owner := hm_insert (task_id t) sid (up_task_owner up),
                       up_dirty := insert sid (up_dirty up)\<rparr>
       | None \<Rightarrow> up)
     | _ \<Rightarrow> up)"

text \<open>The second component is what is reconciled.\<close>

fun updater_observe :: "store_event \<Rightarrow> updater \<Rightarrow> updater \<times> id set" where
  "updater_observe (Created obj) up = (updater_observe_object obj up, {})"
| "updater_observe (Updated _ obj) up = (updater_observe_object obj up, {})"
| "updater_observe (store_event.Removed k i) up = (case k of
       object_kind.Service \<Rightarrow>
         (up\<lparr>up_dirty := up_dirty up - {i}, up_wake := hm_remove i (up_wake up)\<rparr>, {})
     | object_kind.Task \<Rightarrow> (case map_of (up_task_owner up) i of
         Some sid \<Rightarrow> (up\<lparr>up_task_owner := hm_remove i (up_task_owner up),
                        up_dirty := insert sid (up_dirty up)\<rparr>, {})
       | None \<Rightarrow> (up, {}))
     | _ \<Rightarrow> (up, {}))"
| "updater_observe (Commit _) up = (up\<lparr>up_dirty := {}\<rparr>, up_dirty up)"

definition updater_full_pass :: "('lid, 'mem) store_inner \<Rightarrow> updater \<Rightarrow> updater \<times> id list" where
  "updater_full_pass view up =
     (let services = map service_id (view_services view)
      in (up\<lparr>up_wake := filter (\<lambda>(i, _). i \<in> set services) (up_wake up)\<rparr>, services))"

definition updater_fire_due :: "nat \<Rightarrow> updater \<Rightarrow> updater \<times> id list" where
  "updater_fire_due instant up =
     (let due = map fst (filter (\<lambda>(_, t). t \<le> instant) (up_wake up))
      in (up\<lparr>up_wake := fold hm_remove due (up_wake up)\<rparr>, due))"

text \<open>What a reconciliation leaves of the timers: \<open>wake\<close> is that of the last plan derived.\<close>

definition updater_rearm :: "id \<Rightarrow> duration option \<Rightarrow> nat \<Rightarrow> updater \<Rightarrow> updater" where
  "updater_rearm sid wake instant up = up\<lparr>up_wake := (case wake of
       Some d \<Rightarrow> hm_insert sid (instant + max d MIN_WAKE) (up_wake up)
     | None \<Rightarrow> hm_remove sid (up_wake up))\<rparr>"

definition update_actions ::
  "id \<Rightarrow> (nat \<Rightarrow> id) \<Rightarrow> system_time \<Rightarrow> system_time \<Rightarrow> ('lid, 'mem) store_inner \<Rightarrow> store_action list" where
  "update_actions sid fresh clock now view = plan_actions (update_plan_of sid fresh clock now view)"

end
