(* ===== verification/Orch_Update_Plan.thy ===== *)
theory Orch_Update_Plan
  imports Orch_Update Orch_Loops "HOL-Library.Sublist"
begin

text \<open>
  What a pass of the rolling updater consists of: the view of a unit, the actions that advance one,
  and the abstract machine its writes of the service follow.
\<close>

section \<open>The view of a unit\<close>

definition is_live :: "task \<Rightarrow> bool" where
  "is_live t \<longleftrightarrow> task_desired_state t \<le> desired_state.Running \<and> \<not> is_terminal (status_state (task_status t))"

definition is_stale :: "('lid, 'mem) store_inner \<Rightarrow> service \<Rightarrow> task \<Rightarrow> bool" where
  "is_stale view svc t \<longleftrightarrow> is_task_dirty svc t (task_node view t)"

definition unit_members :: "update_shape \<Rightarrow> task list \<Rightarrow> update_unit \<Rightarrow> task list" where
  "unit_members shape ts u = filter (\<lambda>t. owned_unit shape t = Some u) ts"

definition view_of_unit :: "('lid, 'mem) store_inner \<Rightarrow> service \<Rightarrow> desired_state \<Rightarrow> task list \<Rightarrow> slot_view" where
  "view_of_unit view svc target ts = \<lparr>
     sv_clean = filter (\<lambda>t. is_live t \<and> \<not> is_stale view svc t) ts,
     sv_stale = filter (\<lambda>t. is_live t \<and> is_stale view svc t) ts,
     sv_stopping = filter (\<lambda>t. task_desired_state t \<ge> desired_state.Shutdown \<and>
       \<not> is_terminal (status_state (task_status t))) ts,
     sv_touched = list_ex (\<lambda>t. task_spec_version t = Some (service_spec_version svc)) ts,
     sv_abandoned = list_ex (\<lambda>t. is_terminal (status_state (task_status t)) \<and> update_abandoned t target \<and>
       is_stale view svc t) ts\<rparr>"

lemma view_of_unit_Nil [simp]: "view_of_unit view svc target [] = empty_slot_view"
  by (simp add: view_of_unit_def empty_slot_view_def)

lemma not_running_and_stopping: "d \<le> desired_state.Running \<Longrightarrow> \<not> desired_state.Shutdown \<le> d" for d
  by (cases d) (simp_all add: order_defs)

lemma view_of_unit_snoc:
  "view_of_unit view svc target (ts @ [t]) = add_to_slot view svc target t (view_of_unit view svc target ts)"
  by (cases "task_desired_state t \<le> desired_state.Running"; cases "is_terminal (status_state (task_status t))")
     (simp_all add: view_of_unit_def add_to_slot_def is_live_def is_stale_def Let_def not_running_and_stopping)

lemma slot_views_filed:
  "bt_invar (slot_views view svc ts shape target) \<and>
   map_of (slot_views view svc ts shape target) u =
     (if unit_members shape ts u = [] then None
      else Some (view_of_unit view svc target (unit_members shape ts u)))"
proof (induction ts rule: rev_induct)
  case Nil
  then show ?case
    by (simp add: slot_views_def bt_invar_def unit_members_def)
next
  case (snoc t ts)
  show ?case
  proof (cases "owned_unit shape t")
    case None
    with snoc show ?thesis
      by (simp add: slot_views_def unit_members_def)
  next
    case (Some w)
    let ?slots = "slot_views view svc ts shape target"
    let ?old = "case map_of ?slots w of None \<Rightarrow> empty_slot_view | Some entry \<Rightarrow> entry"
    have step: "slot_views view svc (ts @ [t]) shape target = bt_insert w (add_to_slot view svc target t ?old) ?slots"
      using Some by (simp add: slot_views_def)
    show ?thesis
    proof (cases "w = u")
      case True
      have "?old = view_of_unit view svc target (unit_members shape ts u)"
        using snoc True by simp
      moreover have "unit_members shape (ts @ [t]) u = unit_members shape ts u @ [t]"
        using Some True by (simp add: unit_members_def)
      ultimately show ?thesis
        using snoc True unfolding step by (simp add: bt_insert_invar bt_lookup_insert view_of_unit_snoc)
    next
      case False
      with Some have "unit_members shape (ts @ [t]) u = unit_members shape ts u"
        by (simp add: unit_members_def)
      with snoc False show ?thesis
        unfolding step by (simp add: bt_insert_invar bt_lookup_insert)
    qed
  qed
qed

lemma slot_views_invar: "bt_invar (slot_views view svc ts shape target)"
  by (rule conjunct1 [OF slot_views_filed])

lemmas slot_views_lookup = conjunct2 [OF slot_views_filed]

lemma slot_views_entry:
  assumes "(u, v) \<in> set (slot_views view svc ts shape target)"
  shows "v = view_of_unit view svc target (unit_members shape ts u)"
proof -
  have "map_of (slot_views view svc ts shape target) u = Some v"
    using assms by (simp only: bt.mem_iff [OF slot_views_invar])
  then show ?thesis
    by (simp add: slot_views_lookup split: if_splits)
qed

lemma slot_views_distinct: "distinct (map fst (slot_views view svc ts shape target))"
  by (rule bt.invar_distinct [OF slot_views_invar])

section \<open>The units a pass advances\<close>

text \<open>
  An advanced unit is one that is started, with the number of the id its replacement takes, or one
  that is finished.
\<close>

type_synonym advance = "nat option \<times> update_unit \<times> slot_view"

definition advance_actions ::
  "(nat \<Rightarrow> id) \<Rightarrow> system_time \<Rightarrow> service \<Rightarrow> update_order \<Rightarrow> desired_state \<Rightarrow> system_time \<Rightarrow> advance \<Rightarrow>
   store_action list" where
  "advance_actions fresh clock svc order target now = (\<lambda>(j, u, v). case j of
       Some i \<Rightarrow> start_slot (fresh i) clock svc u v order target
     | None \<Rightarrow> fst (finish_slot clock v order target now))"

fun may_advance :: "advance \<Rightarrow> bool" where
  "may_advance (Some _, _, v) \<longleftrightarrow> sv_clean v = [] \<and> \<not> sv_touched v"
| "may_advance (None, _, v) \<longleftrightarrow> sv_clean v \<noteq> []"

definition drawn :: "advance list \<Rightarrow> nat list" where
  "drawn adv = List.map_filter fst adv"

lemma drawn_simps [simp]:
  "drawn [] = []" "drawn ((Some i, e) # adv) = i # drawn adv" "drawn ((None, e) # adv) = drawn adv"
  by (simp_all add: drawn_def map_filter_simps)

lemma unit_work_cases:
  obtains (skip) w where "unit_work tid clock svc phases config target monitor now u v budget = (None, w, False)"
  | (start) "unit_work tid clock svc phases config target monitor now u v budget =
        (Some (start_slot tid clock svc u v (update_order config) target), None, True)"
      "sv_clean v = []" "\<not> sv_touched v" "budget > 0"
  | (finish) w where "unit_work tid clock svc phases config target monitor now u v budget =
        (Some (fst (finish_slot clock v (update_order config) target now)), w, False)"
      "sv_clean v \<noteq> []"
proof -
  consider b where "map_of phases u = Some (update_phase.Pending b)"
    | w where "unit_work tid clock svc phases config target monitor now u v budget = (None, w, False)"
  proof (cases "map_of phases u")
    case (Some p)
    with that show ?thesis
      by (cases p) (simp_all add: unit_work_def)
  qed (simp add: unit_work_def that)
  then show ?thesis
  proof cases
    case 1
    show ?thesis
    proof (cases "sv_clean v = []")
      case True
      with 1 show ?thesis
        using skip [of None] start by (cases "sv_touched v"; cases "budget = 0") (simp_all add: unit_work_def)
    next
      case False
      with 1 show ?thesis
        using finish [of "snd (finish_slot clock v (update_order config) target now)"]
        by (simp add: unit_work_def split: prod.split)
    qed
  qed (rule skip)
qed

lemma work_slots_advances:
  "\<exists>adv. plan_actions (work_slots (\<lambda>k. unit_work (fresh k) clock svc phases config target monitor now)
       slots k budget acts wake) =
       acts @ concat (map (advance_actions fresh clock svc (update_order config) target now) adv) \<and>
     subseq (map snd adv) slots \<and> list_all may_advance adv \<and>
     drawn adv = [k..<k + length (drawn adv)] \<and> length (drawn adv) \<le> budget"
proof (induction slots arbitrary: k budget acts wake)
  case Nil
  show ?case
    by (intro exI [of _ "[]"]) simp
next
  case (Cons e slots)
  let ?work = "\<lambda>k. unit_work (fresh k) clock svc phases config target monitor now"
  obtain u v where e: "e = (u, v)"
    by (cases e)
  show ?case
  proof (cases rule: unit_work_cases [of "fresh k" clock svc phases config target monitor now u v budget])
    case (skip w)
    then have "work_slots ?work (e # slots) k budget acts wake =
        work_slots ?work slots k budget acts (case w of None \<Rightarrow> wake | Some w \<Rightarrow> sooner wake w)"
      by (simp add: e)
    with Cons.IH [of k budget acts] show ?thesis
      by (simp only:) (meson list_emb_Cons)
  next
    case start
    let ?sa = "start_slot (fresh k) clock svc u v (update_order config) target"
    show ?thesis
    proof (cases "length acts + length ?sa > MAX_TX_ACTIONS - 1")
      case True
      then show ?thesis
        unfolding e by (intro exI [of _ "[]"]) (simp add: start)
    next
      case False
      obtain adv where adv: "plan_actions (work_slots (\<lambda>k. unit_work (fresh k) clock svc phases config target monitor now)
            slots (Suc k) (budget - 1) (acts @ ?sa) wake) =
          (acts @ ?sa) @ concat (map (advance_actions fresh clock svc (update_order config) target now) adv)"
        "subseq (map snd adv) slots" "list_all may_advance adv"
        "drawn adv = [Suc k..<Suc k + length (drawn adv)]" "length (drawn adv) \<le> budget - 1"
        using Cons.IH [of "Suc k" "budget - 1" "acts @ ?sa" wake] by blast
      have "k # drawn adv = [k..<k + Suc (length (drawn adv))]"
        using adv(4) by (simp add: upt_rec)
      then show ?thesis
        using adv False start unfolding e
        by (intro exI [of _ "(Some k, u, v) # adv"]) (simp add: advance_actions_def Let_def not_less)
    qed
  next
    case (finish w)
    let ?sa = "fst (finish_slot clock v (update_order config) target now)"
    let ?wake = "case w of None \<Rightarrow> wake | Some w \<Rightarrow> sooner wake w"
    show ?thesis
    proof (cases "length acts + length ?sa > MAX_TX_ACTIONS - 1")
      case True
      then show ?thesis
        unfolding e by (intro exI [of _ "[]"]) (simp add: finish)
    next
      case False
      obtain adv where adv: "plan_actions (work_slots (\<lambda>k. unit_work (fresh k) clock svc phases config target monitor now)
            slots k budget (acts @ ?sa) ?wake) =
          (acts @ ?sa) @ concat (map (advance_actions fresh clock svc (update_order config) target now) adv)"
        "subseq (map snd adv) slots" "list_all may_advance adv"
        "drawn adv = [k..<k + length (drawn adv)]" "length (drawn adv) \<le> budget"
        using Cons.IH [of k budget "acts @ ?sa" ?wake] by blast
      then show ?thesis
        using False finish unfolding e
        by (intro exI [of _ "(None, u, v) # adv"]) (simp add: advance_actions_def Let_def not_less)
    qed
  qed
qed

lemma work_slots_bounded:
  assumes "length acts \<le> MAX_TX_ACTIONS - 1"
  shows "length (plan_actions (work_slots work slots k budget acts wake)) \<le> MAX_TX_ACTIONS - 1"
  using assms
  by (induction work slots k budget acts wake rule: work_slots.induct)
     (auto simp: Let_def split: prod.split option.split)

section \<open>The actions of one unit\<close>

definition raise_to :: "system_time \<Rightarrow> desired_state \<Rightarrow> task \<Rightarrow> task" where
  "raise_to clock d t = touch_task clock (t\<lparr>task_desired_state := d\<rparr>)"

abbreviation raising :: "system_time \<Rightarrow> desired_state \<Rightarrow> task \<Rightarrow> store_action" where
  "raising clock d t \<equiv> Update (store_object.Task (raise_to clock d t))"

lemma raise_to_simps [simp]:
  "task_id (raise_to clock d t) = task_id t" "task_status (raise_to clock d t) = task_status t"
  "task_service_id (raise_to clock d t) = task_service_id t" "task_slot (raise_to clock d t) = task_slot t"
  "task_node_id (raise_to clock d t) = task_node_id t" "task_desired_state (raise_to clock d t) = d"
  "meta_version (task_meta (raise_to clock d t)) = meta_version (task_meta t)"
  by (simp_all add: raise_to_def touch_task_def)

lemma live_below_shutdown: "is_live t \<Longrightarrow> task_desired_state t < desired_state.Shutdown"
  by (cases "task_desired_state t") (simp_all add: is_live_def order_defs)

lemma shut_down_live:
  "(\<And>t. t \<in> set ts \<Longrightarrow> is_live t) \<Longrightarrow> shut_down clock ts = map (raising clock desired_state.Shutdown) ts"
proof (induction ts)
  case (Cons t ts)
  have "\<not> desired_state.Shutdown \<le> task_desired_state t"
    using live_below_shutdown [of t] Cons.prems [of t] by (simp add: not_le)
  then have "raise_desired_state clock t desired_state.Shutdown = Some (raising clock desired_state.Shutdown t)"
    by (simp add: raise_desired_state_def update_task_def raise_to_def)
  with Cons show ?case
    by (simp add: shut_down_def map_filter_simps)
qed (simp add: shut_down_def map_filter_simps)

lemma shut_down_Nil [simp]: "shut_down clock [] = []"
  by (simp add: shut_down_def)

lemma promote_raises:
  "task_desired_state t < d \<Longrightarrow> promote clock t d = [raising clock d t]"
  by (simp add: promote_def raise_desired_state_def update_task_def raise_to_def)

lemma keeper_order:
  "status_state (task_status a) < status_state (task_status b) \<Longrightarrow> compare_keepers a b = Less"
  "status_state (task_status b) < status_state (task_status a) \<Longrightarrow> compare_keepers a b = Greater"
proof -
  have "cmp x y = Less" "cmp y x = Greater" if "x < y" for x y :: task_state
    using that by (auto simp: cmp_def)
  then show "status_state (task_status a) < status_state (task_status b) \<Longrightarrow> compare_keepers a b = Less"
    and "status_state (task_status b) < status_state (task_status a) \<Longrightarrow> compare_keepers a b = Greater"
    by (simp_all add: compare_keepers_def)
qed

lemma keeper_furthest:
  assumes "keeper ts = Some kept"
  shows "kept \<in> set ts" and "\<And>t. t \<in> set ts \<Longrightarrow> status_state (task_status t) \<le> status_state (task_status kept)"
proof -
  let ?pick = "\<lambda>y best. if compare_keepers best y = Greater then best else y"
  have fold: "fold ?pick ys x \<in> insert x (set ys) \<and>
      (\<forall>t \<in> insert x (set ys). status_state (task_status t) \<le> status_state (task_status (fold ?pick ys x)))"
    for x ys
  proof (induction ys arbitrary: x)
    case (Cons y ys)
    have "status_state (task_status x) \<le> status_state (task_status (?pick y x))"
      "status_state (task_status y) \<le> status_state (task_status (?pick y x))"
      using keeper_order(1) [of x y] keeper_order(2) [where a = x and b = y] by (auto simp: not_less [symmetric])
    with Cons.IH [of "?pick y x"] show ?case
      by (auto intro: order_trans)
  qed simp
  obtain x ys where "ts = x # ys" "kept = fold ?pick ys x"
    using assms by (cases ts) (auto simp: keeper_def)
  with fold [of ys x] show "kept \<in> set ts"
    and "\<And>t. t \<in> set ts \<Longrightarrow> status_state (task_status t) \<le> status_state (task_status kept)"
    by auto
qed

lemma keeper_exists: "ts \<noteq> [] \<Longrightarrow> \<exists>kept. keeper ts = Some kept"
  by (cases ts) (simp_all add: keeper_def)

text \<open>
  Finishing a unit stops some of its live tasks but not the one it keeps, and may raise that one; a
  start-first unit gives up a stale task only for a kept one that has been observed at the target.
\<close>

definition finishing ::
  "system_time \<Rightarrow> desired_state \<Rightarrow> update_order \<Rightarrow> slot_view \<Rightarrow> task \<Rightarrow> task list \<Rightarrow> task list \<Rightarrow> bool" where
  "finishing clock target order v kept ds ps \<longleftrightarrow>
     kept \<in> set (sv_clean v) \<and> set ds \<subseteq> set (sv_clean v) \<union> set (sv_stale v) \<and> ps \<in> {[], [kept]} \<and>
     (\<forall>t \<in> set (sv_clean v). status_state (task_status t) \<le> status_state (task_status kept)) \<and>
     (distinct (map task_id (sv_clean v @ sv_stale v)) \<longrightarrow> distinct (map task_id (ds @ ps)) \<and> kept \<notin> set ds) \<and>
     (order = StartFirst \<and> set ds \<inter> set (sv_stale v) - set (sv_clean v) \<noteq> {} \<longrightarrow>
        as_task_state target \<le> status_state (task_status kept))"

lemma finish_slot_actions:
  assumes live: "\<And>t. t \<in> set (sv_clean v) \<union> set (sv_stale v) \<Longrightarrow> is_live t" and "sv_clean v \<noteq> []"
  shows "\<exists>kept ds ps. fst (finish_slot clock v order target now) =
      map (raising clock desired_state.Shutdown) ds @ map (raising clock target) ps \<and>
      finishing clock target order v kept ds ps"
proof -
  obtain kept where kept: "keeper (sv_clean v) = Some kept"
    using keeper_exists assms(2) by blast
  note furthest = keeper_furthest [OF kept]
  let ?extras = "filter (\<lambda>t. task_id t \<noteq> task_id kept) (sv_clean v)"
  have extras: "shut_down clock ?extras = map (raising clock desired_state.Shutdown) ?extras"
    using live by (intro shut_down_live) simp
  have stale: "shut_down clock (sv_stale v) = map (raising clock desired_state.Shutdown) (sv_stale v)"
    using live by (intro shut_down_live) simp
  have apart: "distinct (map task_id (?extras @ sv_stale v @ [kept]))" "kept \<notin> set (?extras @ sv_stale v)"
    if "distinct (map task_id (sv_clean v @ sv_stale v))"
    using that furthest(1) by (auto simp: distinct_map_filter)
  have fin: "finishing clock target order v kept (?extras @ ts) ps"
    if "ts = sv_stale v \<and> (order = StartFirst \<longrightarrow> as_task_state target \<le> status_state (task_status kept)) \<or> ts = []"
      "ps \<in> {[], [kept]}" for ts ps
    unfolding finishing_def
  proof (intro conjI impI)
    show "set (?extras @ ts) \<subseteq> set (sv_clean v) \<union> set (sv_stale v)" "ps \<in> {[], [kept]}"
      using that by auto
    show "distinct (map task_id ((?extras @ ts) @ ps))" "kept \<notin> set (?extras @ ts)"
      if "distinct (map task_id (sv_clean v @ sv_stale v))"
      using apart [OF that] \<open>ps \<in> {[], [kept]}\<close> \<open>_ \<or> ts = []\<close> by (auto simp: image_iff)
    show "as_task_state target \<le> status_state (task_status kept)"
      if "order = StartFirst \<and> set (?extras @ ts) \<inter> set (sv_stale v) - set (sv_clean v) \<noteq> {}"
      using that \<open>_ \<or> ts = []\<close> by auto
  qed (use furthest in auto)
  show ?thesis
  proof (cases order)
    case StopFirst
    show ?thesis
    proof (cases "task_desired_state kept < target \<and> sv_stale v = [] \<and> stop_pending v now = None")
      case True
      then have "fst (finish_slot clock v order target now) =
          map (raising clock desired_state.Shutdown) (?extras @ sv_stale v) @ map (raising clock target) [kept]"
        unfolding StopFirst by (simp add: finish_slot_def kept Let_def extras stale promote_raises)
      with fin [of "sv_stale v" "[kept]"] StopFirst show ?thesis
        by blast
    next
      case False
      then have "fst (finish_slot clock v order target now) =
          map (raising clock desired_state.Shutdown) (?extras @ sv_stale v) @ map (raising clock target) []"
        unfolding StopFirst by (auto simp: finish_slot_def kept Let_def extras stale split: option.split)
      with fin [of "sv_stale v" "[]"] StopFirst show ?thesis
        by blast
    qed
  next
    case StartFirst
    let ?ts = "if as_task_state target \<le> status_state (task_status kept) then sv_stale v else []"
    have "fst (finish_slot clock v order target now) =
        map (raising clock desired_state.Shutdown) (?extras @ ?ts) @ map (raising clock target) []"
      unfolding StartFirst by (simp add: finish_slot_def kept Let_def extras stale)
    moreover have "finishing clock target order v kept (?extras @ ?ts) []"
      by (rule fin) simp_all
    ultimately show ?thesis
      by blast
  qed
qed

section \<open>The transaction of a pass\<close>

definition changes :: "system_time \<Rightarrow> task list \<Rightarrow> (task \<times> desired_state) list \<Rightarrow> store_action list" where
  "changes clock new ch =
     map (\<lambda>t. Create (store_object.Task t)) new @ map (\<lambda>(t, d). raising clock d t) ch"

lemma changes_keys:
  "map action_key (changes clock new ch) = map (Pair object_kind.Task) (map task_id new @ map (task_id \<circ> fst) ch)"
  by (induction ch) (auto simp: changes_def comp_def)

lemma changes_independent:
  assumes "store_wf s" "fst ` set ch \<subseteq> set (view_tasks s)" "distinct (map (task_id \<circ> fst) ch)"
    and "distinct (map task_id new)" "\<And>t. t \<in> set new \<Longrightarrow> store_map s (object_kind.Task, task_id t) = None"
  shows "independent_tx (store_map s) (changes clock new ch)"
proof -
  have stored: "store_map s (object_kind.Task, task_id t) = Some (store_object.Task t)" if "t \<in> fst ` set ch" for t
    using assms(1,2) that view_tasks_iff [of s t] by (auto simp: store_map_task)
  have "task_id t \<noteq> task_id u" if "t \<in> set new" "u \<in> fst ` set ch" for t u
    using assms(5) [OF that(1)] stored [OF that(2)] by auto
  then have "distinct (map task_id new @ map (task_id \<circ> fst) ch)"
    using assms(3,4) by auto
  then have "distinct (map action_key (changes clock new ch))"
    unfolding changes_keys by (simp add: distinct_map inj_on_def del: map_append map_map)
  moreover have "action_fits (store_map s) a" if "a \<in> set (changes clock new ch)" for a
    using that assms(5) stored by (force simp: changes_def)
  ultimately show ?thesis
    by (simp add: independent_tx_def list_all_iff)
qed

definition new_ids :: "(nat \<Rightarrow> id) \<Rightarrow> advance \<Rightarrow> id list" where
  "new_ids fresh a = (case fst a of None \<Rightarrow> [] | Some i \<Rightarrow> [fresh i])"

lemma start_slot_changes:
  assumes "\<And>t. t \<in> set (sv_stale v) \<Longrightarrow> is_live t"
  shows "\<exists>t. start_slot tid clock svc u v order target =
      changes clock [t] (map (\<lambda>t. (t, desired_state.Shutdown)) (if order = StopFirst then sv_stale v else [])) \<and>
      task_id t = tid"
proof -
  have stale: "shut_down clock (sv_stale v) = map (raising clock desired_state.Shutdown) (sv_stale v)"
    using assms by (rule shut_down_live)
  obtain sl nid where u: "u = (sl, nid)"
    by (cases u)
  show ?thesis
    unfolding u start_slot_def changes_def
    by (cases nid) (simp_all add: stale Let_def new_task_def new_global_task_def build_task_def comp_def)
qed

text \<open>What a unit contributes, as changes of its own tasks and at most one new task.\<close>

lemma advance_changes:
  assumes v: "v = view_of_unit s svc target ms" and ms: "distinct (map task_id ms)"
    and may: "may_advance (j, u, v)"
  shows "\<exists>new ch. advance_actions fresh clock svc order target now (j, u, v) = changes clock new ch \<and>
    map task_id new = new_ids fresh (j, u, v) \<and> fst ` set ch \<subseteq> set ms \<and> distinct (map (task_id \<circ> fst) ch)"
proof -
  have live: "is_live t" if "t \<in> set (sv_clean v) \<union> set (sv_stale v)" for t
    using that by (auto simp: v view_of_unit_def)
  have mem: "set (sv_clean v) \<union> set (sv_stale v) \<subseteq> set ms"
    by (auto simp: v view_of_unit_def)
  have "distinct ms"
    using ms by (simp add: distinct_map)
  then have "distinct (sv_clean v @ sv_stale v)"
    by (auto simp: v view_of_unit_def)
  then have ids: "distinct (map task_id (sv_clean v @ sv_stale v))"
    using ms mem inj_on_subset [of task_id "set ms"] unfolding distinct_map set_append by blast
  show ?thesis
  proof (cases j)
    case (Some i)
    obtain t where "start_slot (fresh i) clock svc u v order target =
        changes clock [t] (map (\<lambda>t. (t, desired_state.Shutdown)) (if order = StopFirst then sv_stale v else []))"
      "task_id t = fresh i"
      using start_slot_changes live by blast
    with Some ids mem show ?thesis
      by (intro exI [of _ "[t]"]
            exI [of _ "map (\<lambda>t. (t, desired_state.Shutdown)) (if order = StopFirst then sv_stale v else [])"])
         (auto simp: advance_actions_def new_ids_def comp_def)
  next
    case None
    obtain kept ds ps where fin: "fst (finish_slot clock v order target now) =
        map (raising clock desired_state.Shutdown) ds @ map (raising clock target) ps"
      "finishing clock target order v kept ds ps"
      using finish_slot_actions [of v clock order target now, OF live] may unfolding None may_advance.simps by blast
    let ?ch = "map (\<lambda>t. (t, desired_state.Shutdown)) ds @ map (\<lambda>t. (t, target)) ps"
    have "distinct (map task_id (ds @ ps))" "set ds \<union> set ps \<subseteq> set ms"
      using fin(2) ids mem unfolding finishing_def by auto
    with None fin(1) show ?thesis
      by (intro exI [of _ "[]"] exI [of _ ?ch]) (auto simp: advance_actions_def new_ids_def changes_def comp_def)
  qed
qed

text \<open>The units and their views, as the store has them.\<close>

definition advances_of ::
  "('lid, 'mem) store_inner \<Rightarrow> service \<Rightarrow> update_shape \<Rightarrow> desired_state \<Rightarrow> task list \<Rightarrow> advance list \<Rightarrow> bool" where
  "advances_of s svc shape target ts adv \<longleftrightarrow> list_all may_advance adv \<and> distinct (drawn adv) \<and>
     distinct (map (fst \<circ> snd) adv) \<and>
     (\<forall>(j, u, v) \<in> set adv. v = view_of_unit s svc target (unit_members shape ts u))"

lemma drawn_mem: "(Some i, e) \<in> set adv \<Longrightarrow> i \<in> set (drawn adv)"
  by (force simp: drawn_def set_map_filter)

definition touched_ids :: "(nat \<Rightarrow> id) \<Rightarrow> update_shape \<Rightarrow> task list \<Rightarrow> advance list \<Rightarrow> id set" where
  "touched_ids fresh shape ts adv =
     fresh ` set (drawn adv) \<union> (\<Union>a \<in> set adv. task_id ` set (unit_members shape ts (fst (snd a))))"

lemma touched_ids_Cons:
  "touched_ids fresh shape ts (a # adv) =
     set (new_ids fresh a) \<union> task_id ` set (unit_members shape ts (fst (snd a))) \<union> touched_ids fresh shape ts adv"
  by (cases a; cases "fst a") (auto simp: touched_ids_def new_ids_def)

lemma advances_changes:
  assumes wf: "store_wf s" and fresh: "fresh_ids fresh (store_map s)" and ts: "set ts \<subseteq> set (view_tasks s)"
    "distinct (map task_id ts)" and adv: "advances_of s svc shape target ts adv"
  shows "independent_tx (store_map s) (concat (map (advance_actions fresh clock svc order target now) adv)) \<and>
    set (map action_key (concat (map (advance_actions fresh clock svc order target now) adv))) \<subseteq>
      Pair object_kind.Task ` touched_ids fresh shape ts adv"
  using adv
proof (induction adv)
  case Nil
  then show ?case
    by (simp add: independent_tx_def)
next
  case (Cons a adv)
  obtain j u v where a: "a = (j, u, v)"
    by (cases a) auto
  let ?acts = "advance_actions fresh clock svc order target now"
  let ?ms = "unit_members shape ts"
  have v: "v = view_of_unit s svc target (?ms u)" and may: "may_advance (j, u, v)"
    using Cons.prems by (auto simp: advances_of_def a)
  have rest: "advances_of s svc shape target ts adv"
    using Cons.prems by (cases j) (auto simp: advances_of_def a)
  have ms: "distinct (map task_id (?ms u))" "set (?ms u) \<subseteq> set (view_tasks s)" for u
    using ts by (auto simp: unit_members_def distinct_map_filter)
  obtain new ch where ch: "?acts a = changes clock new ch" "map task_id new = new_ids fresh a"
    "fst ` set ch \<subseteq> set (?ms u)" "distinct (map (task_id \<circ> fst) ch)"
    using advance_changes [OF v ms(1) may] unfolding a by blast
  have new: "store_map s (object_kind.Task, task_id t) = None" if "t \<in> set new" for t
  proof -
    have "task_id t \<in> set (new_ids fresh a)"
      using that ch(2) by (metis image_eqI list.set_map)
    then show ?thesis
      using fresh by (auto simp: new_ids_def fresh_ids_def split: option.splits)
  qed
  have first: "independent_tx (store_map s) (?acts a)"
    unfolding ch(1)
  proof (rule changes_independent [OF wf _ ch(4) _ new])
    show "distinct (map task_id new)"
      unfolding ch(2) by (simp add: new_ids_def split: option.split)
    show "fst ` set ch \<subseteq> set (view_tasks s)"
      using ch(3) ms(2) [of u] by (rule order_trans)
  qed
  have keys: "set (map action_key (?acts a)) \<subseteq>
      Pair object_kind.Task ` (set (new_ids fresh a) \<union> task_id ` set (?ms u))"
    using ch(3) unfolding ch(1) changes_keys ch(2) by auto
  note rest_keys = conjunct2 [OF Cons.IH [OF rest]]
  have apart: "set (map action_key (?acts a)) \<inter> set (map action_key (concat (map ?acts adv))) = {}"
  proof -
    have False if i: "i \<in> set (new_ids fresh a) \<union> task_id ` set (?ms u)" "i \<in> touched_ids fresh shape ts adv" for i
    proof -
      have stored: "i \<in> task_id ` set (view_tasks s)" if "i \<in> task_id ` set (?ms w)" for w
        using that ms(2) [of w] by blast
      have "k \<notin> set (drawn adv)" if "j = Some k" for k
        using Cons.prems that by (simp add: advances_of_def a)
      then have drawn: "i \<notin> fresh ` set (drawn adv)" if "i \<in> set (new_ids fresh a)"
        using that fresh by (auto simp: new_ids_def a fresh_ids_def inj_def split: option.splits)
      have new: "i \<notin> task_id ` set (view_tasks s)" if i': "i \<in> set (new_ids fresh a) \<union> fresh ` set (drawn adv)"
      proof -
        obtain k where "i = fresh k"
          using i' by (auto simp: new_ids_def split: option.splits)
        then show ?thesis
          using fresh_not_stored [OF wf fresh] by simp
      qed
      have other: "i \<notin> task_id ` set (?ms (fst (snd b)))" if "b \<in> set adv" "i \<in> task_id ` set (?ms u)" for b
      proof -
        have "fst (snd b) \<noteq> u"
          using Cons.prems that(1) by (force simp: advances_of_def a)
        then have "task_id t \<noteq> task_id t'" if "t \<in> set (?ms u)" "t' \<in> set (?ms (fst (snd b)))" for t t'
          using view_tasks_unique [OF wf subsetD [OF ms(2) that(1)] subsetD [OF ms(2) that(2)]] that
          by (auto simp: unit_members_def)
        then show ?thesis
          using that(2) by fastforce
      qed
      show False
      proof (cases "i \<in> task_id ` set (view_tasks s)")
        case True
        then show False
          using i new other unfolding touched_ids_def by blast
      next
        case False
        then show False
          using i stored drawn unfolding touched_ids_def by blast
      qed
    qed
    then have "(set (new_ids fresh a) \<union> task_id ` set (?ms u)) \<inter> touched_ids fresh shape ts adv = {}"
      by blast
    then have "Pair object_kind.Task ` (set (new_ids fresh a) \<union> task_id ` set (?ms u)) \<inter>
        Pair object_kind.Task ` touched_ids fresh shape ts adv = {}"
      by blast
    then show ?thesis
      using Int_mono [OF keys rest_keys] by (simp only: subset_empty)
  qed
  have "independent_tx (store_map s) (concat (map ?acts (a # adv)))"
    using first conjunct1 [OF Cons.IH [OF rest]] apart by (simp add: independent_append)
  moreover have "set (map action_key (concat (map ?acts (a # adv)))) \<subseteq>
      Pair object_kind.Task ` touched_ids fresh shape ts (a # adv)"
    using Un_mono [OF keys rest_keys] unfolding touched_ids_Cons image_Un by (simp only: a fst_conv snd_conv
        list.map concat.simps map_append set_append)
  ultimately show ?case ..
qed

section \<open>A pass, case by case\<close>

definition service_slots ::
  "('lid, 'mem) store_inner \<Rightarrow> id \<Rightarrow> service \<Rightarrow> update_shape \<Rightarrow> (update_unit, slot_view) btree_map" where
  "service_slots s sid svc shape =
     slot_views s svc (update_tasks s sid) shape (initial_desired_state (service_spec svc))"

definition service_phases ::
  "('lid, 'mem) store_inner \<Rightarrow> id \<Rightarrow> service \<Rightarrow> update_shape \<Rightarrow> system_time \<Rightarrow> update_phases" where
  "service_phases s sid svc shape now =
     update_phases_of (service_slots s sid svc shape) (initial_desired_state (service_spec svc))
       (monitoring_period (update_config_of svc)) now (engaged_state (current_state svc))"

definition is_paused :: "update_state_kind option \<Rightarrow> bool" where
  "is_paused st \<longleftrightarrow> st = Some Paused \<or> st = Some RollbackPaused"

lemma shape_not_job: "shape_of s svc = Some shape \<Longrightarrow> \<not> is_job (sspec_mode (service_spec svc))"
  by (cases "sspec_mode (service_spec svc)") (simp_all add: shape_of_def is_job_def)

lemma update_actions_eq:
  assumes "view_service s sid = Some svc" "shape_of s svc = Some shape"
  shows "update_actions sid fresh clock now s =
    (if is_paused (current_state svc) then []
     else if resize_actions clock s svc (update_tasks s sid) \<noteq> []
     then resize_actions clock s svc (update_tasks s sid)
     else case failure_verdict svc (update_tasks s sid) (service_phases s sid svc shape now)
            (update_config_of svc) now of
         Some a \<Rightarrow> [a]
       | None \<Rightarrow>
           if \<not> work_left (service_phases s sid svc shape now)
           then plan_actions (finished svc (current_state svc) (service_phases s sid svc shape now) shape now)
           else plan_actions (publish_progress
             (slot_work fresh clock svc (service_slots s sid svc shape) (service_phases s sid svc shape now)
               (update_config_of svc) (monitoring_period (update_config_of svc)) now)
             svc (current_state svc) (service_phases s sid svc shape now) shape now))"
  using assms shape_not_job [OF assms(2)]
  by (simp add: update_actions_def update_plan_of_def is_paused_def service_slots_def service_phases_def
      Let_def idle_plan_def act_plan_def split: option.split)

lemma jobs_have_no_shape: "shape_of s svc = None \<longleftrightarrow> is_job (sspec_mode (service_spec svc))"
  by (cases "sspec_mode (service_spec svc)") (simp_all add: shape_of_def is_job_def)

lemma no_shape_idle:
  "view_service s sid = Some svc \<Longrightarrow> shape_of s svc = None \<Longrightarrow> update_actions sid fresh clock now s = []"
  by (simp add: update_actions_def update_plan_of_def idle_plan_def)

text \<open>The hot resize, as changes of the tasks it concerns.\<close>

definition resized :: "system_time \<Rightarrow> service \<Rightarrow> task \<Rightarrow> task" where
  "resized clock svc t = touch_task clock (t
     \<lparr>task_spec := (task_spec t)\<lparr>tspec_resources := tspec_resources (sspec_task (service_spec svc))\<rparr>,
      task_spec_version := Some (service_spec_version svc)\<rparr>)"

definition needs_resize :: "('lid, 'mem) store_inner \<Rightarrow> service \<Rightarrow> task \<Rightarrow> bool" where
  "needs_resize s svc t \<longleftrightarrow> is_live t \<and> \<not> is_stale s svc t \<and>
     tspec_resources (task_spec t) \<noteq> tspec_resources (sspec_task (service_spec svc))"

lemma resize_actions_eq:
  "resize_actions clock s svc ts =
     map (\<lambda>t. Update (store_object.Task (resized clock svc t))) (filter (needs_resize s svc) ts)"
proof (induction ts)
  case (Cons t ts)
  then show ?case
    by (simp add: resize_actions_def needs_resize_def is_live_def is_stale_def resized_def update_task_def
        map_filter_simps not_le)
qed (simp add: resize_actions_def map_filter_simps)

lemma resized_simps [simp]:
  "task_id (resized clock svc t) = task_id t" "task_service_id (resized clock svc t) = task_service_id t"
  "task_slot (resized clock svc t) = task_slot t" "task_node_id (resized clock svc t) = task_node_id t"
  "task_desired_state (resized clock svc t) = task_desired_state t"
  "task_status (resized clock svc t) = task_status t" "keeps_identity (resized clock svc)"
  by (simp_all add: resized_def touch_task_def keeps_identity_def)

lemma update_tasks_stored:
  assumes "store_wf s"
  shows "set (update_tasks s sid) \<subseteq> set (view_tasks s)" "distinct (map task_id (update_tasks s sid))"
  using view_tasks_distinct(1) [OF assms] by (auto simp: update_tasks_def distinct_map_filter)

lemma resizes_independent:
  assumes "store_wf s"
  shows "independent_tx (store_map s) (resize_actions clock s svc (update_tasks s sid))"
  unfolding resize_actions_eq using update_tasks_stored [OF assms, of sid]
  by (intro updates_independent [OF assms]) (auto simp: distinct_map_filter)

text \<open>A write of the service.\<close>

definition service_write :: "service \<Rightarrow> service \<Rightarrow> bool" where
  "service_write svc svc' \<longleftrightarrow> service_id svc' = service_id svc \<and>
     meta_version (service_meta svc') = meta_version (service_meta svc) \<and>
     service_spec_version svc' = service_spec_version svc"

lemma service_write_independent:
  assumes "store_wf s" "view_service s sid = Some svc" "service_write svc svc'"
  shows "independent_tx (store_map s) [Update (store_object.Service svc')]"
    and "action_key (Update (store_object.Service svc')) = (object_kind.Service, sid)"
  using assms view_service_id [OF assms(1,2)]
  by (simp_all add: independent_tx_def service_write_def store_map_service obj_kind_def obj_id_def
      object_version_def)

text \<open>The work of a pass: possibly a write of the service, then the advances of some units.\<close>

lemma subseq_entries:
  assumes "subseq (map snd adv) slots" "distinct (map fst slots)"
  shows "distinct (map (fst \<circ> snd) adv)" "\<And>j u v. (j, u, v) \<in> set adv \<Longrightarrow> (u, v) \<in> set slots"
proof -
  have "subseq (map fst (map snd adv)) (map fst slots)"
    using assms(1) by (rule subseq_map)
  then show "distinct (map (fst \<circ> snd) adv)"
    using assms(2) by (auto simp: subseq_conv_nths)
  obtain N where "map snd adv = nths slots N"
    using assms(1) by (auto simp: subseq_conv_nths)
  then have "set (map snd adv) \<subseteq> set slots"
    by (simp only: set_nths_subset)
  then show "(u, v) \<in> set slots" if "(j, u, v) \<in> set adv" for j u v
    using that by force
qed

lemma slot_work_advances:
  obtains adv where
    "plan_actions (slot_work fresh clock svc (service_slots s sid svc shape) phases config monitor now) =
       concat (map (advance_actions fresh clock svc (update_order config)
         (initial_desired_state (service_spec svc)) now) adv)"
    "advances_of s svc shape (initial_desired_state (service_spec svc)) (update_tasks s sid) adv"
    "parallelism config > 0 \<longrightarrow> length (drawn adv) \<le> parallelism config - units_in_flight phases"
proof -
  let ?target = "initial_desired_state (service_spec svc)"
  let ?slots = "service_slots s sid svc shape"
  define budget where "budget = (if parallelism config = 0 then USIZE_MAX
      else parallelism config - units_in_flight phases)"
  define limited where "limited = (case last_started ?slots ?target of
      None \<Rightarrow> (budget, None)
    | Some started \<Rightarrow>
        if update_delay config = 0 then (budget, None)
        else let waited = since now started
             in if waited < update_delay config
                then (0, sooner None (update_delay config - waited)) else (budget, None))"
  have limited: "fst limited \<le> budget"
    by (simp add: limited_def Let_def split: option.split)
  have work: "slot_work fresh clock svc ?slots phases config monitor now =
      work_slots (\<lambda>k. unit_work (fresh k) clock svc phases config ?target monitor now) ?slots 0
        (fst limited) [] (snd limited)"
    unfolding slot_work_def Let_def limited_def budget_def case_prod_beta by (rule refl)
  obtain adv where adv: "plan_actions (slot_work fresh clock svc ?slots phases config monitor now) =
      concat (map (advance_actions fresh clock svc (update_order config) ?target now) adv)"
    "subseq (map snd adv) ?slots" "list_all may_advance adv"
    "drawn adv = [0..<length (drawn adv)]" "length (drawn adv) \<le> fst limited"
    using work_slots_advances [of fresh clock svc phases config ?target monitor now ?slots 0 "fst limited" "[]"
        "snd limited"]
    unfolding work by auto
  have "distinct (drawn adv)"
    by (subst adv(4)) simp
  note entries = subseq_entries [OF adv(2) [unfolded service_slots_def] slot_views_distinct]
  have "v = view_of_unit s svc ?target (unit_members shape (update_tasks s sid) u)" if "(j, u, v) \<in> set adv" for j u v
    using slot_views_entry [OF entries(2) [OF that]] .
  with \<open>distinct (drawn adv)\<close> entries(1) adv(3)
  have "advances_of s svc shape ?target (update_tasks s sid) adv"
    unfolding advances_of_def by auto
  moreover have "parallelism config > 0 \<longrightarrow> length (drawn adv) \<le> parallelism config - units_in_flight phases"
    using adv(5) limited by (auto simp: budget_def)
  ultimately show ?thesis
    by (rule that [OF adv(1)])
qed

text \<open>What a pass writes of the service itself.\<close>

definition over_budget ::
  "('lid, 'mem) store_inner \<Rightarrow> id \<Rightarrow> service \<Rightarrow> update_shape \<Rightarrow> system_time \<Rightarrow> bool" where
  "over_budget s sid svc shape now \<longleftrightarrow>
     (let failures = length (filter (failed_under_this_spec svc) (update_tasks s sid));
          units = max (length (filter (\<lambda>(_, p). p \<noteq> Absent) (service_phases s sid svc shape now))) 1
      in failures > 0 \<and> failure_ratio failures units > max_failure_ratio (update_config_of svc) \<and>
         failure_action (update_config_of svc) \<noteq> failure_action.Continue)"

text \<open>
  The update of a service as an abstract machine: its status, the spec and the spec to return to.
  \<open>failing\<close> says that the failures exceed what is tolerated, \<open>busy\<close> that the pass resizes tasks in
  place and leaves everything else for later.
\<close>

type_synonym rollout = "update_state_kind option \<times> service_spec \<times> service_spec option"

inductive rollout_step :: "bool \<Rightarrow> bool \<Rightarrow> failure_action \<Rightarrow> rollout \<Rightarrow> rollout \<Rightarrow> bool"
  for failing busy reaction where
  stay: "engaged_state st \<and> failing \<longrightarrow> busy \<Longrightarrow> rollout_step failing busy reaction (st, r) (st, r)"
| announce: "\<not> engaged_state st \<Longrightarrow> \<not> is_paused st \<Longrightarrow> rollout_step failing busy reaction (st, r) (Some Updating, r)"
| complete: "\<not> failing \<Longrightarrow> rollout_step failing busy reaction (Some Updating, r) (Some Completed, r)"
| pause: "failing \<Longrightarrow> reaction = failure_action.Pause \<or> reaction = failure_action.Rollback \<and> prev = None \<Longrightarrow>
    rollout_step failing busy reaction (Some Updating, spec, prev) (Some Paused, spec, prev)"
| roll_back: "failing \<Longrightarrow> reaction = failure_action.Rollback \<Longrightarrow>
    rollout_step failing busy reaction (Some Updating, spec, Some prev) (Some RollbackStarted, prev, None)"
| rolled_back: "\<not> failing \<Longrightarrow> rollout_step failing busy reaction (Some RollbackStarted, r) (Some RollbackCompleted, r)"
| pause_rollback: "failing \<Longrightarrow> rollout_step failing busy reaction (Some RollbackStarted, r) (Some RollbackPaused, r)"

definition rollout_of :: "service \<Rightarrow> rollout" where
  "rollout_of svc = (current_state svc, service_spec svc, previous_spec svc)"

lemma status_action_write:
  obtains svc' where "status_action svc st message now = Update (store_object.Service svc')" "service_write svc svc'"
    "rollout_of svc' = (Some st, service_spec svc, previous_spec svc)"
  by (simp add: status_action_def Let_def service_write_def rollout_of_def current_state_def)

lemma failure_verdict_None:
  "failure_verdict svc (update_tasks s sid) (service_phases s sid svc shape now) (update_config_of svc) now = None \<longleftrightarrow>
     \<not> (engaged_state (current_state svc) \<and> over_budget s sid svc shape now)"
  by (cases "service_update_status svc"; cases "failure_action (update_config_of svc)")
     (simp_all add: failure_verdict_def engaged_state_def current_state_def over_budget_def Let_def not_le
      split: failure_action.split)

lemma failure_verdict_step:
  assumes "failure_verdict svc (update_tasks s sid) (service_phases s sid svc shape now) (update_config_of svc) now = Some a"
  obtains svc' where "a = Update (store_object.Service svc')" "service_write svc svc'"
    "rollout_step (over_budget s sid svc shape now) busy (failure_action (update_config_of svc))
       (rollout_of svc) (rollout_of svc')"
proof -
  let ?step = "rollout_step (over_budget s sid svc shape now) busy (failure_action (update_config_of svc))"
  have engaged: "engaged_state (current_state svc)" and over: "over_budget s sid svc shape now"
    using assms failure_verdict_None [of svc s sid shape now] by auto
  show ?thesis
  proof (cases "current_state svc = Some RollbackStarted")
    case True
    then obtain m where "a = status_action svc RollbackPaused m now"
      using assms by (auto simp: failure_verdict_def current_state_def Let_def split: option.splits if_splits)
    then show ?thesis
      using True over status_action_write [of svc RollbackPaused m now thesis] that pause_rollback
      by (auto simp: rollout_of_def)
  next
    case False
    then have up: "current_state svc = Some Updating"
      using engaged by (simp add: engaged_state_def)
    show ?thesis
    proof (cases "failure_action (update_config_of svc) = failure_action.Rollback \<and> previous_spec svc \<noteq> None")
      case True
      then obtain prev where prev: "previous_spec svc = Some prev"
        by blast
      obtain f n where a: "a = rollback_action svc f n now"
        using assms up True by (auto simp: failure_verdict_def current_state_def Let_def split: option.splits if_splits)
      have "?step (rollout_of svc) (Some RollbackStarted, prev, None)"
        using True up over prev by (simp add: rollout_of_def roll_back)
      then show ?thesis
        by (intro that [OF a [unfolded rollback_action_def prev option.case]])
           (simp_all add: service_write_def rollout_of_def current_state_def)
    next
      case False
      then obtain m where a: "a = status_action svc Paused m now"
        using assms up by (auto simp: failure_verdict_def current_state_def Let_def rollback_action_def
            split: option.splits if_splits failure_action.splits)
      have "failure_action (update_config_of svc) = failure_action.Pause \<or>
          failure_action (update_config_of svc) = failure_action.Rollback \<and> previous_spec svc = None"
        using False over by (cases "failure_action (update_config_of svc)") (auto simp: over_budget_def Let_def)
      then have "?step (rollout_of svc) (Some Paused, service_spec svc, previous_spec svc)"
        using up over by (simp add: rollout_of_def pause)
      then show ?thesis
        using status_action_write [of svc Paused m now thesis] that unfolding a by auto
    qed
  qed
qed

text \<open>A pass: possibly a write of the service, then either resizes or the advances of some units.\<close>

definition write_of :: "service option \<Rightarrow> store_action list" where
  "write_of w = (case w of None \<Rightarrow> [] | Some svc' \<Rightarrow> [Update (store_object.Service svc')])"

lemma finished_step:
  assumes verdict: "\<not> (engaged_state (current_state svc) \<and> failing)"
  obtains w where "plan_actions (finished svc (current_state svc) phases shape now) = write_of w"
    "pred_option (service_write svc) w"
    "rollout_step failing busy reaction (rollout_of svc) (rollout_of (case w of None \<Rightarrow> svc | Some svc' \<Rightarrow> svc'))"
proof -
  consider "current_state svc = Some Updating" | "current_state svc = Some RollbackStarted"
    | "\<not> engaged_state (current_state svc)"
    by (auto simp: engaged_state_def)
  then show ?thesis
  proof cases
    case 1
    with verdict have "\<not> failing"
      by (simp add: engaged_state_def)
    obtain svc' where "status_action svc Completed (progress_message Completed phases shape) now =
        Update (store_object.Service svc')" "service_write svc svc'"
      "rollout_of svc' = (Some Completed, service_spec svc, previous_spec svc)"
      by (rule status_action_write)
    with 1 \<open>\<not> failing\<close> show ?thesis
      by (intro that [of "Some svc'"]) (simp_all add: finished_def act_plan_def write_of_def rollout_of_def complete)
  next
    case 2
    with verdict have "\<not> failing"
      by (simp add: engaged_state_def)
    obtain svc' where "status_action svc RollbackCompleted (progress_message RollbackCompleted phases shape) now =
        Update (store_object.Service svc')" "service_write svc svc'"
      "rollout_of svc' = (Some RollbackCompleted, service_spec svc, previous_spec svc)"
      by (rule status_action_write)
    with 2 \<open>\<not> failing\<close> show ?thesis
      by (intro that [of "Some svc'"]) (simp_all add: finished_def act_plan_def write_of_def rollout_of_def rolled_back)
  next
    case 3
    then have "plan_actions (finished svc (current_state svc) phases shape now) = []"
      by (auto simp: finished_def idle_plan_def engaged_state_def split: option.split update_state_kind.split)
    with 3 show ?thesis
      by (intro that [of None]) (simp_all add: write_of_def rollout_of_def stay)
  qed
qed

lemma publish_step:
  assumes verdict: "\<not> (engaged_state (current_state svc) \<and> failing)" and "\<not> is_paused (current_state svc)"
  obtains w where "plan_actions (publish_progress plan svc (current_state svc) phases shape now) =
      write_of w @ plan_actions plan"
    "pred_option (service_write svc) w"
    "rollout_step failing busy reaction (rollout_of svc) (rollout_of (case w of None \<Rightarrow> svc | Some svc' \<Rightarrow> svc'))"
proof -
  let ?st = "case current_state svc of Some st \<Rightarrow> if engaged_state (Some st) then st else Updating | None \<Rightarrow> Updating"
  obtain svc' where svc': "status_action svc ?st (progress_message ?st phases shape) now =
      Update (store_object.Service svc')" "service_write svc svc'"
    "rollout_of svc' = (Some ?st, service_spec svc, previous_spec svc)"
    by (rule status_action_write)
  have idle: "rollout_step failing busy reaction (rollout_of svc) (rollout_of svc)"
    using verdict unfolding rollout_of_def by (intro stay) blast
  have step: "rollout_step failing busy reaction (rollout_of svc) (rollout_of svc')"
  proof (cases "engaged_state (current_state svc)")
    case True
    then have "rollout_of svc' = rollout_of svc"
      unfolding svc'(3) by (auto simp: rollout_of_def engaged_state_def)
    with idle show ?thesis
      by simp
  next
    case False
    then have "rollout_of svc' = (Some Updating, service_spec svc, previous_spec svc)"
      unfolding svc'(3) by (auto split: option.split)
    with False assms(2) show ?thesis
      by (simp add: rollout_of_def announce)
  qed
  have "plan_actions (publish_progress plan svc (current_state svc) phases shape now) \<in>
      {plan_actions plan, write_of (Some svc') @ plan_actions plan}"
    using svc'(1) by (cases "current_state svc"; cases "engaged_state (current_state svc)")
      (auto simp: publish_progress_def write_of_def Let_def)
  then consider "plan_actions (publish_progress plan svc (current_state svc) phases shape now) = write_of None @ plan_actions plan"
    | "plan_actions (publish_progress plan svc (current_state svc) phases shape now) = write_of (Some svc') @ plan_actions plan"
    by (auto simp: write_of_def)
  then show ?thesis
  proof cases
    case 1
    then show ?thesis
      by (rule that) (simp_all add: idle)
  next
    case 2
    then show ?thesis
      by (rule that) (simp_all add: step svc'(2))
  qed
qed

text \<open>The body of a pass: resizes, or the advances of units the budget allows.\<close>

definition pass_body ::
  "(nat \<Rightarrow> id) \<Rightarrow> system_time \<Rightarrow> system_time \<Rightarrow> ('lid, 'mem) store_inner \<Rightarrow> id \<Rightarrow> service \<Rightarrow> update_shape \<Rightarrow>
   store_action list \<Rightarrow> bool" where
  "pass_body fresh clock now s sid svc shape body \<longleftrightarrow>
     body = resize_actions clock s svc (update_tasks s sid) \<or>
     (\<exists>adv. body = concat (map (advance_actions fresh clock svc (update_order (update_config_of svc))
          (initial_desired_state (service_spec svc)) now) adv) \<and>
        advances_of s svc shape (initial_desired_state (service_spec svc)) (update_tasks s sid) adv \<and>
        (parallelism (update_config_of svc) > 0 \<longrightarrow>
           length (drawn adv) \<le> parallelism (update_config_of svc) - units_in_flight (service_phases s sid svc shape now)))"

lemma pass_bodyE:
  assumes "pass_body fresh clock now s sid svc shape body"
  obtains (resize) "body = resize_actions clock s svc (update_tasks s sid)"
  | (work) adv where "body = concat (map (advance_actions fresh clock svc (update_order (update_config_of svc))
        (initial_desired_state (service_spec svc)) now) adv)"
      "advances_of s svc shape (initial_desired_state (service_spec svc)) (update_tasks s sid) adv"
      "parallelism (update_config_of svc) > 0 \<longrightarrow>
         length (drawn adv) \<le> parallelism (update_config_of svc) - units_in_flight (service_phases s sid svc shape now)"
  using assms unfolding pass_body_def by (elim disjE exE conjE) (rule resize work; assumption)+

lemma pass_body_Nil: "pass_body fresh clock now s sid svc shape []"
  unfolding pass_body_def by (intro disjI2 exI [of _ "[]"]) (simp add: advances_of_def)

lemma update_pass_parts:
  assumes "view_service s sid = Some svc" "shape_of s svc = Some shape"
  obtains w body where "update_actions sid fresh clock now s = write_of w @ body"
    "pred_option (service_write svc) w"
    "rollout_step (over_budget s sid svc shape now) (\<exists>t \<in> set (update_tasks s sid). needs_resize s svc t)
       (failure_action (update_config_of svc)) (rollout_of svc)
       (rollout_of (case w of None \<Rightarrow> svc | Some svc' \<Rightarrow> svc'))"
    "pass_body fresh clock now s sid svc shape body"
proof -
  let ?over = "over_budget s sid svc shape now"
  let ?busy = "\<exists>t \<in> set (update_tasks s sid). needs_resize s svc t"
  let ?phases = "service_phases s sid svc shape now"
  let ?plan = "slot_work fresh clock svc (service_slots s sid svc shape) ?phases (update_config_of svc)
      (monitoring_period (update_config_of svc)) now"
  note eq = update_actions_eq [OF assms, of fresh clock now]
  have busy: "?busy \<longleftrightarrow> resize_actions clock s svc (update_tasks s sid) \<noteq> []"
    by (auto simp: resize_actions_eq filter_empty_conv)
  have idle: "rollout_step ?over ?busy (failure_action (update_config_of svc)) (rollout_of svc) (rollout_of svc)"
    if "engaged_state (current_state svc) \<and> ?over \<longrightarrow> ?busy"
    unfolding rollout_of_def using that by (rule stay)
  consider (paused) "is_paused (current_state svc)"
    | (resize) "\<not> is_paused (current_state svc)" "resize_actions clock s svc (update_tasks s sid) \<noteq> []"
    | (verdict) a where "\<not> is_paused (current_state svc)" "resize_actions clock s svc (update_tasks s sid) = []"
        "failure_verdict svc (update_tasks s sid) ?phases (update_config_of svc) now = Some a"
    | (quiet) "\<not> is_paused (current_state svc)" "resize_actions clock s svc (update_tasks s sid) = []"
        "failure_verdict svc (update_tasks s sid) ?phases (update_config_of svc) now = None"
    by blast
  then show ?thesis
  proof cases
    case paused
    then have "\<not> engaged_state (current_state svc)"
      by (auto simp: is_paused_def engaged_state_def)
    with paused show ?thesis
      by (intro that [of None "[]"] pass_body_Nil) (simp_all add: eq write_of_def idle)
  next
    case resize
    then show ?thesis
      using idle busy by (intro that [of None "resize_actions clock s svc (update_tasks s sid)"])
        (simp_all add: eq write_of_def pass_body_def)
  next
    case verdict
    obtain svc' where "a = Update (store_object.Service svc')" "service_write svc svc'"
      "rollout_step ?over ?busy (failure_action (update_config_of svc)) (rollout_of svc) (rollout_of svc')"
      by (rule failure_verdict_step [OF verdict(3)])
    with verdict show ?thesis
      by (intro that [of "Some svc'" "[]"] pass_body_Nil) (simp_all add: eq write_of_def)
  next
    case quiet
    then have calm: "\<not> (engaged_state (current_state svc) \<and> ?over)"
      unfolding failure_verdict_None by blast
    show ?thesis
    proof (cases "work_left ?phases")
      case True
      obtain w where "plan_actions (publish_progress ?plan svc (current_state svc) ?phases shape now) =
          write_of w @ plan_actions ?plan" "pred_option (service_write svc) w"
        "rollout_step ?over ?busy (failure_action (update_config_of svc)) (rollout_of svc)
          (rollout_of (case w of None \<Rightarrow> svc | Some svc' \<Rightarrow> svc'))"
        by (rule publish_step [OF calm quiet(1)])
      moreover obtain adv where "plan_actions ?plan = concat (map (advance_actions fresh clock svc
          (update_order (update_config_of svc)) (initial_desired_state (service_spec svc)) now) adv)"
        "advances_of s svc shape (initial_desired_state (service_spec svc)) (update_tasks s sid) adv"
        "parallelism (update_config_of svc) > 0 \<longrightarrow>
           length (drawn adv) \<le> parallelism (update_config_of svc) - units_in_flight ?phases"
        by (rule slot_work_advances)
      then have "pass_body fresh clock now s sid svc shape (plan_actions ?plan)"
        unfolding pass_body_def by (intro disjI2 exI [of _ adv] conjI)
      ultimately show ?thesis
        using quiet True by (intro that [of w "plan_actions ?plan"]) (simp_all add: eq)
    next
      case False
      obtain w where "plan_actions (finished svc (current_state svc) ?phases shape now) = write_of w"
        "pred_option (service_write svc) w"
        "rollout_step ?over ?busy (failure_action (update_config_of svc)) (rollout_of svc)
          (rollout_of (case w of None \<Rightarrow> svc | Some svc' \<Rightarrow> svc'))"
        by (rule finished_step [OF calm])
      with quiet False show ?thesis
        by (intro that [of w "[]"] pass_body_Nil) (simp_all add: eq)
    qed
  qed
qed

end
