(* ===== verification/Orch_Update_Proofs.thy ===== *)
theory Orch_Update_Proofs
  imports Orch_Update_Plan
begin

text \<open>
  What an applied pass of the rolling updater does to a service: how it moves the status of the
  update, which of its units stop serving, when the store accepts it, and which tasks it forgets.
\<close>

section \<open>The store after a pass\<close>

lemma write_of_keys:
  assumes "store_wf s" "view_service s sid = Some svc" "pred_option (service_write svc) w"
  shows "independent_tx (store_map s) (write_of w)"
    and "set (map action_key (write_of w)) = (if w = None then {} else {(object_kind.Service, sid)})"
  using service_write_independent [OF assms(1,2)] assms(3)
  by (cases w; simp add: write_of_def independent_tx_def)+

lemma pass_body_keys:
  assumes "store_wf s" "fresh_ids fresh (store_map s)" "pass_body fresh clock now s sid svc shape body"
  shows "independent_tx (store_map s) body" "fst ` set (map action_key body) \<subseteq> {object_kind.Task}"
proof -
  note tasks = update_tasks_stored [OF assms(1), of sid]
  from assms(3) have "independent_tx (store_map s) body \<and> fst ` set (map action_key body) \<subseteq> {object_kind.Task}"
  proof (cases rule: pass_bodyE)
    case resize
    then show ?thesis
      using resizes_independent [OF assms(1)] by (auto simp: resize_actions_eq)
  next
    case (work adv)
    note changes = advances_changes [OF assms(1,2) tasks work(2), of clock "update_order (update_config_of svc)" now,
        folded work(1)]
    have "fst ` Pair object_kind.Task ` X \<subseteq> {object_kind.Task}" for X :: "id set"
      by auto
    with image_mono [OF conjunct2 [OF changes], of fst] have "fst ` set (map action_key body) \<subseteq> {object_kind.Task}"
      by (rule order_trans)
    with conjunct1 [OF changes] show ?thesis ..
  qed
  then show "independent_tx (store_map s) body" "fst ` set (map action_key body) \<subseteq> {object_kind.Task}"
    by simp_all
qed

lemma pass_independent:
  assumes "store_wf s" "fresh_ids fresh (store_map s)" "view_service s sid = Some svc"
    "pred_option (service_write svc) w" "pass_body fresh clock now s sid svc shape body"
  shows "independent_tx (store_map s) (write_of w @ body)" "(object_kind.Service, i) \<notin> set (map action_key body)"
proof -
  note body = pass_body_keys [OF assms(1,2,5)] and pre = write_of_keys [OF assms(1,3,4)]
  show service: "(object_kind.Service, i) \<notin> set (map action_key body)" for i
    using subsetD [OF body(2) imageI, of "(object_kind.Service, i)"] by auto
  have "set (map action_key (write_of w)) \<inter> set (map action_key body) = {}"
    using service pre(2) by auto
  then show "independent_tx (store_map s) (write_of w @ body)"
    using body(1) pre(1) by (simp only: independent_append)
qed

lemma service_after_write:
  assumes "store_wf s" "view_service s sid = Some svc" "pred_option (service_write svc) w"
    and tx: "independent_tx (store_map s) (write_of w @ body)" "(object_kind.Service, sid) \<notin> set (map action_key body)"
    and eff: "store_map s' = result_map v (store_map s) (write_of w @ body)"
  shows "\<exists>svc'. view_service s' sid = Some svc' \<and>
    rollout_of svc' = rollout_of (case w of None \<Rightarrow> svc | Some svc' \<Rightarrow> svc')"
proof (cases w)
  case None
  then have "(object_kind.Service, sid) \<notin> set (map action_key (write_of w @ body))"
    using tx(2) by (simp add: write_of_def)
  then have "store_map s' (object_kind.Service, sid) = store_map s (object_kind.Service, sid)"
    unfolding eff by (rule result_map_other)
  with assms(2) None show ?thesis
    by (auto simp: store_map_service)
next
  case (Some svc')
  let ?a = "Update (store_object.Service svc')"
  note key = service_write_independent(2) [OF assms(1,2) assms(3) [unfolded Some option.pred_inject]]
  have "?a \<in> set (write_of w @ body)"
    by (simp add: Some write_of_def)
  then have "store_map s' (action_key ?a) = action_result v (store_map s) ?a"
    unfolding eff using tx(1) by (intro result_map_mem) (simp_all add: independent_tx_def)
  then have "map_option store_object.Service (view_service s' sid) =
      Some (stamp_spec_version (store_map s (obj_key (store_object.Service svc'))) v
        (stamp_version v (store_object.Service svc')))"
    unfolding key store_map_service by simp
  then show ?thesis
    by (auto simp: Some stamp_spec_version_def stamp_version_def rollout_of_def current_state_def
        split: option.splits store_object.splits if_splits)
qed

text \<open>A stored task that a transaction does not name stays, and one it updates is there as updated.\<close>

lemma task_kept:
  assumes "store_wf s" "store_wf s'" "store_map s' = result_map v (store_map s) acts"
    and "t \<in> set (view_tasks s)" "(object_kind.Task, task_id t) \<notin> set (map action_key acts)"
  shows "t \<in> set (view_tasks s')"
proof -
  have "store_map s' (object_kind.Task, task_id t) = store_map s (object_kind.Task, task_id t)"
    unfolding assms(3) by (rule result_map_other [OF assms(5)])
  then show ?thesis
    using assms(4) by (auto simp: view_tasks_iff [OF assms(1)] view_tasks_iff [OF assms(2)] store_map_task)
qed

lemma task_updated:
  assumes "store_wf s'" "store_map s' = result_map v (store_map s) acts" "independent_tx (store_map s) acts"
    and "Update (store_object.Task t) \<in> set acts"
  shows "stamp_task v t \<in> set (view_tasks s')"
proof -
  have "store_map s' (action_key (Update (store_object.Task t))) =
      action_result v (store_map s) (Update (store_object.Task t))"
    unfolding assms(2) using assms(3,4) by (intro result_map_mem) (simp_all add: independent_tx_def)
  then show ?thesis
    by (auto simp: view_tasks_iff [OF assms(1)] store_map_task)
qed

text \<open>
  C8. A pass of the rolling updater that is applied moves the update of its service one step of the
  abstract machine, or leaves it. While the failures are within the configured ratio an update only
  goes on or completes; as soon as they exceed it, the pass pauses the update or, when asked to and a
  previous spec is recorded, makes that the spec and forgets it, so that no rollback is ever rolled
  back; a failing rollback pauses, and what is paused stays paused.
\<close>

theorem update_pass_refines_rollout:
  assumes "store_wf s" "fresh_ids fresh (store_map s)" "view_service s sid = Some svc"
    and "shape_of s svc = Some shape"
    and "apply_transaction s \<lparr>proposal_actions = update_actions sid fresh clock now s\<rparr> index len =
      (proposal_response.Applied index, evs, s')"
  shows "\<exists>svc'. view_service s' sid = Some svc' \<and>
    rollout_step (over_budget s sid svc shape now) (\<exists>t \<in> set (update_tasks s sid). needs_resize s svc t)
      (failure_action (update_config_of svc)) (rollout_of svc) (rollout_of svc')"
proof -
  obtain w body where parts: "update_actions sid fresh clock now s = write_of w @ body"
    "pred_option (service_write svc) w"
    "rollout_step (over_budget s sid svc shape now) (\<exists>t \<in> set (update_tasks s sid). needs_resize s svc t)
       (failure_action (update_config_of svc)) (rollout_of svc)
       (rollout_of (case w of None \<Rightarrow> svc | Some svc' \<Rightarrow> svc'))"
    "pass_body fresh clock now s sid svc shape body"
    by (rule update_pass_parts [OF assms(3,4)]) blast
  note tx = pass_independent [OF assms(1-3) parts(2,4)]
  have "store_map s' = result_map index (store_map s) (write_of w @ body)"
    using applied_effect [OF assms(5)] tx(1) unfolding parts(1) by blast
  from service_after_write [OF assms(1,3) parts(2) tx this] obtain svc' where
    "view_service s' sid = Some svc'" "rollout_of svc' = rollout_of (case w of None \<Rightarrow> svc | Some svc' \<Rightarrow> svc')"
    by blast
  with parts(3) show ?thesis
    by (intro exI [of _ svc']) simp
qed

section \<open>Availability during an update\<close>

definition unit_serves :: "('lid, 'mem) store_inner \<Rightarrow> id \<Rightarrow> update_unit \<Rightarrow> bool" where
  "unit_serves s sid u \<longleftrightarrow> (\<exists>t \<in> set (update_tasks s sid). update_unit_of t = Some u \<and> is_serving t)"

definition lost_units ::
  "('lid, 'mem) store_inner \<Rightarrow> ('lid, 'mem) store_inner \<Rightarrow> id \<Rightarrow> update_unit set" where
  "lost_units s s' sid = {u. unit_serves s sid u \<and> \<not> unit_serves s' sid u}"

text \<open>A unit none of whose live tasks is up to date.\<close>

definition outdated_unit :: "('lid, 'mem) store_inner \<Rightarrow> id \<Rightarrow> service \<Rightarrow> update_unit \<Rightarrow> bool" where
  "outdated_unit s sid svc u \<longleftrightarrow>
     (\<forall>t \<in> set (update_tasks s sid). update_unit_of t = Some u \<and> is_live t \<longrightarrow> is_stale s svc t)"

lemma unit_of_stamped [simp]:
  "update_unit_of (stamp_task v t) = update_unit_of t" "is_serving (stamp_task v t) = is_serving t"
  "update_unit_of (raise_to clock d t) = update_unit_of t" "update_unit_of (resized clock svc t) = update_unit_of t"
  "is_serving (resized clock svc t) = is_serving t"
  by (simp_all add: update_unit_of_def is_global_task_def is_serving_def is_removing_def split: option.split)

lemma serving_live: "is_serving t \<Longrightarrow> is_live t"
  using terminal_above_running by (auto simp: is_serving_def is_live_def)

lemma owned_is_unit: "owned_unit shape t = Some u \<Longrightarrow> update_unit_of t = Some u"
  by (auto simp: owned_unit_def split: if_splits option.splits)

lemma raised_serving:
  "d \<le> desired_state.Running \<Longrightarrow> is_serving t \<Longrightarrow> is_serving (raise_to clock d t)"
  by (auto simp: is_serving_def is_removing_def less_eq_desired_state_def)

lemma live_at_running:
  "is_live t \<Longrightarrow> task_state.Running \<le> status_state (task_status t) \<Longrightarrow> status_state (task_status t) \<noteq> task_state.Remove \<Longrightarrow>
   is_serving t"
  using above_running_terminal [of "status_state (task_status t)"]
  by (auto simp: is_live_def is_serving_def is_removing_def less_eq_desired_state_def le_less)

text \<open>The advance that names a stored task of the service is the one of its unit.\<close>

lemma advance_names:
  assumes "store_wf s" "fresh_ids fresh (store_map s)" "t \<in> set (update_tasks s sid)"
    and adv: "advances_of s svc shape target (update_tasks s sid) adv"
    and key: "(object_kind.Task, task_id t) \<in>
      set (map action_key (concat (map (advance_actions fresh clock svc order target now) adv)))"
  obtains j u v new ch where "(j, u, v) \<in> set adv" "owned_unit shape t = Some u"
    "advance_actions fresh clock svc order target now (j, u, v) = changes clock new ch" "t \<in> fst ` set ch"
    "v = view_of_unit s svc target (unit_members shape (update_tasks s sid) u)" "may_advance (j, u, v)"
proof -
  let ?acts = "advance_actions fresh clock svc order target now"
  let ?ms = "unit_members shape (update_tasks s sid)"
  obtain j u v where a: "(j, u, v) \<in> set adv" "(object_kind.Task, task_id t) \<in> set (map action_key (?acts (j, u, v)))"
    using key by auto
  have v: "v = view_of_unit s svc target (?ms u)" and may: "may_advance (j, u, v)"
    using adv a(1) by (auto simp: advances_of_def list_all_iff)
  have "distinct (map task_id (?ms u))"
    using update_tasks_stored(2) [OF assms(1), of sid] by (simp add: unit_members_def distinct_map_filter)
  from advance_changes [OF v this may, of fresh clock order now]
  obtain new ch where ch: "?acts (j, u, v) = changes clock new ch"
    "map task_id new = new_ids fresh (j, u, v)" "fst ` set ch \<subseteq> set (?ms u)"
    by blast
  have "t \<in> set (view_tasks s)"
    using assms(3) update_tasks_stored(1) [OF assms(1)] by blast
  then have "task_id t \<notin> set (new_ids fresh (j, u, v))"
    using fresh_not_stored [OF assms(1,2)] by (cases j) (simp_all add: new_ids_def, metis imageI)
  moreover have "task_id t \<in> set (new_ids fresh (j, u, v)) \<union> task_id ` fst ` set ch"
    using a(2) unfolding ch(1) changes_keys ch(2) by (auto simp: image_comp)
  ultimately have "task_id t \<in> task_id ` fst ` set ch"
    by blast
  then obtain t' where "t' \<in> fst ` set ch" "task_id t' = task_id t"
    by (metis imageE)
  moreover from this have "t' \<in> set (view_tasks s)" "t' \<in> set (?ms u)"
    using ch(3) update_tasks_stored(1) [OF assms(1), of sid] by (auto simp: unit_members_def)
  ultimately have "t \<in> fst ` set ch" "t \<in> set (?ms u)"
    using view_tasks_unique [OF assms(1) _ \<open>t \<in> set (view_tasks s)\<close>] by blast+
  then show ?thesis
    using that [OF a(1) _ ch(1) _ v may] by (simp add: unit_members_def)
qed

text \<open>A finished unit keeps serving when stale tasks are given up only for a running one.\<close>

lemma finish_keeps_serving:
  assumes wf: "store_wf s" "store_wf s'" and fresh: "fresh_ids fresh (store_map s)"
    and acts: "acts = write_of w @ body" "set (map action_key (write_of w)) \<subseteq> {(object_kind.Service, sid)}"
      "body = concat (map (advance_actions fresh clock svc StartFirst desired_state.Running now) adv)"
    and tx: "independent_tx (store_map s) acts" "store_map s' = result_map index (store_map s) acts"
    and adv: "advances_of s svc shape desired_state.Running (update_tasks s sid) adv" "(None, u, v) \<in> set adv"
    and t: "t \<in> set (unit_members shape (update_tasks s sid) u)" "is_serving t"
    and gone: "\<forall>t \<in> set (update_tasks s sid). status_state (task_status t) \<noteq> task_state.Remove"
  shows "unit_serves s' sid u"
proof -
  let ?ms = "unit_members shape (update_tasks s sid) u"
  let ?acts = "advance_actions fresh clock svc StartFirst desired_state.Running now"
  have v: "v = view_of_unit s svc desired_state.Running ?ms" and "sv_clean v \<noteq> []"
    using adv by (auto simp: advances_of_def list_all_iff)
  have live: "is_live t" if "t \<in> set (sv_clean v) \<union> set (sv_stale v)" for t
    using that by (auto simp: v view_of_unit_def)
  have member: "set (sv_clean v) \<union> set (sv_stale v) \<subseteq> set ?ms"
    by (auto simp: v view_of_unit_def)
  have ms: "t \<in> set (update_tasks s sid)" "t \<in> set (view_tasks s)" "update_unit_of t = Some u"
    "task_service_id t = Some sid" "owned_unit shape t = Some u" if "t \<in> set ?ms" for t
    using that owned_is_unit [of shape t u] by (auto simp: unit_members_def update_tasks_def)
  have ids: "distinct (map task_id ?ms)"
    using update_tasks_stored(2) [OF wf(1), of sid] by (simp add: unit_members_def distinct_map_filter)
  have "distinct (map task_id (sv_clean v @ sv_stale v))"
  proof -
    have "distinct (sv_clean v @ sv_stale v)"
      using ids by (auto simp: v view_of_unit_def distinct_map)
    then show ?thesis
      using ids member inj_on_subset [of task_id "set ?ms"] unfolding distinct_map set_append by blast
  qed
  moreover obtain kept ds ps where fin: "fst (finish_slot clock v StartFirst desired_state.Running now) =
      map (raising clock desired_state.Shutdown) ds @ map (raising clock desired_state.Running) ps"
    "finishing clock desired_state.Running StartFirst v kept ds ps"
    using finish_slot_actions [of v clock StartFirst desired_state.Running now, OF live \<open>sv_clean v \<noteq> []\<close>] by blast
  ultimately have kept: "kept \<in> set (sv_clean v)" "kept \<notin> set ds" "ps \<in> {[], [kept]}"
    "set ds \<subseteq> set (sv_clean v) \<union> set (sv_stale v)"
    "\<And>t. t \<in> set (sv_clean v) \<Longrightarrow> status_state (task_status t) \<le> status_state (task_status kept)"
    "set ds \<inter> set (sv_stale v) - set (sv_clean v) \<noteq> {} \<Longrightarrow> task_state.Running \<le> status_state (task_status kept)"
    unfolding finishing_def by (auto simp: as_task_state_def)
  have here: "?acts (None, u, v) = map (raising clock desired_state.Shutdown) ds @ map (raising clock desired_state.Running) ps"
    by (simp add: advance_actions_def fin(1))
  have in_acts: "a \<in> set acts" if "a \<in> set (?acts (None, u, v))" for a
    using that adv(2) by (force simp: acts)
  have named: "x \<in> set ds \<union> set ps" if x: "x \<in> set ?ms" "(object_kind.Task, task_id x) \<in> set (map action_key acts)" for x
  proof -
    have "(object_kind.Task, task_id x) \<in> set (map action_key body)"
      using x(2) acts(2) unfolding acts(1) by auto
    then obtain j u' v' new ch where a: "(j, u', v') \<in> set adv" "owned_unit shape x = Some u'"
      "?acts (j, u', v') = changes clock new ch" "x \<in> fst ` set ch"
      unfolding acts(3) by (rule advance_names [OF wf(1) fresh ms(1) [OF x(1)] adv(1)])
    have "u' = u"
      using a(2) ms(5) [OF x(1)] by simp
    have "inj_on (fst \<circ> snd) (set adv)"
      using adv(1) by (simp add: advances_of_def distinct_map)
    from inj_onD [OF this _ a(1) adv(2)] have "(j, u', v') = (None, u, v)"
      by (simp add: \<open>u' = u\<close>)
    then have "changes clock new ch = ?acts (None, u, v)"
      using a(3) by simp
    then have "map action_key (changes clock new ch) = map (Pair object_kind.Task) (map task_id (ds @ ps))"
      unfolding here by simp
    then have "map task_id new @ map (task_id \<circ> fst) ch = map task_id (ds @ ps)"
      unfolding changes_keys by (rule map_injective) (simp add: inj_def)
    then have "task_id ` fst ` set ch \<subseteq> task_id ` (set ds \<union> set ps)"
      by (metis Un_upper2 image_comp list.set_map set_append)
    then have "task_id x \<in> task_id ` (set ds \<union> set ps)"
      using a(4) by blast
    then obtain y where "y \<in> set ds \<union> set ps" "task_id y = task_id x"
      by (metis imageE)
    moreover from this have "y \<in> set ?ms"
      using kept(1,3,4) member by auto
    ultimately show ?thesis
      using view_tasks_unique [OF wf(1) ms(2) ms(2)] x(1) by metis
  qed
  obtain x where x: "x \<in> set ?ms" "is_serving x" "x \<notin> set ds"
  proof (cases "t \<in> set ds")
    case False
    with t show ?thesis
      by (rule that)
  next
    case True
    have "kept \<in> set ?ms"
      using kept(1) member by blast
    have "task_state.Running \<le> status_state (task_status kept)"
    proof (cases "t \<in> set (sv_clean v)")
      case True
      from kept(5) [OF this] t(2) show ?thesis
        by (simp add: is_serving_def)
    next
      case False
      with \<open>t \<in> set ds\<close> kept(4,6) show ?thesis
        by blast
    qed
    then have "is_serving kept"
      using live_at_running [OF live, of kept] kept(1) gone ms(1) [OF \<open>kept \<in> set ?ms\<close>] by blast
    with that \<open>kept \<in> set ?ms\<close> kept(2) show ?thesis
      by blast
  qed
  note mine = ms [OF x(1)]
  show ?thesis
  proof (cases "x \<in> set ps")
    case True
    then have "stamp_task index (raise_to clock desired_state.Running x) \<in> set (view_tasks s')"
      by (intro task_updated [OF wf(2) tx(2,1)] in_acts) (simp add: here)
    then show ?thesis
      using mine raised_serving [OF order_refl x(2), of clock] unfolding unit_serves_def update_tasks_def
      by (intro bexI [of _ "stamp_task index (raise_to clock desired_state.Running x)"]) simp_all
  next
    case False
    then have "x \<in> set (view_tasks s')"
      using named [OF x(1)] x(3) by (intro task_kept [OF wf tx(2) mine(2)]) blast
    then show ?thesis
      using mine x(2) unfolding unit_serves_def update_tasks_def by (intro bexI [of _ x]) simp_all
  qed
qed

lemma card_started:
  "card ((fst \<circ> snd) ` {a \<in> set adv. fst a \<noteq> None}) \<le> length (drawn adv)"
proof -
  have "length (filter (\<lambda>a. fst a \<noteq> None) adv) = length (drawn adv)"
    by (induction adv) (auto simp: drawn_def map_filter_simps split: option.split)
  moreover have "card ((fst \<circ> snd) ` {a \<in> set adv. fst a \<noteq> None}) \<le> card {a \<in> set adv. fst a \<noteq> None}"
    by (intro card_image_le) simp
  moreover have "card {a \<in> set adv. fst a \<noteq> None} \<le> length (filter (\<lambda>a. fst a \<noteq> None) adv)"
    using card_length [of "filter (\<lambda>a. fst a \<noteq> None) adv"] by simp
  ultimately show ?thesis
    by linarith
qed

text \<open>The unit of a lost serving task was advanced: it was started, or it was being finished.\<close>

lemma lost_advanced:
  assumes wf: "store_wf s" "store_wf s'" and fresh: "fresh_ids fresh (store_map s)"
    and acts: "acts = write_of w @ body" "set (map action_key (write_of w)) \<subseteq> {(object_kind.Service, sid)}"
      "body = concat (map (advance_actions fresh clock svc order target now) adv)"
    and eff: "store_map s' = result_map index (store_map s) acts"
    and adv: "advances_of s svc shape target (update_tasks s sid) adv" and lost: "u \<in> lost_units s s' sid"
  obtains j v new ch t where "(j, u, v) \<in> set adv" "t \<in> set (unit_members shape (update_tasks s sid) u)" "is_serving t"
    "advance_actions fresh clock svc order target now (j, u, v) = changes clock new ch" "t \<in> fst ` set ch"
    "v = view_of_unit s svc target (unit_members shape (update_tasks s sid) u)" "may_advance (j, u, v)"
proof -
  obtain t where t: "t \<in> set (update_tasks s sid)" "update_unit_of t = Some u" "is_serving t"
    and gone: "\<not> unit_serves s' sid u"
    using lost by (auto simp: lost_units_def unit_serves_def)
  have key: "(object_kind.Task, task_id t) \<in> set (map action_key acts)"
  proof (rule ccontr)
    assume "(object_kind.Task, task_id t) \<notin> set (map action_key acts)"
    with t(1) update_tasks_stored(1) [OF wf(1), of sid] have "t \<in> set (view_tasks s')"
      by (intro task_kept [OF wf eff]) blast
    with t gone show False
      by (auto simp: unit_serves_def update_tasks_def)
  qed
  then have "(object_kind.Task, task_id t) \<in> set (map action_key body)"
    using acts(2) unfolding acts(1) by auto
  then obtain j u' v new ch where a: "(j, u', v) \<in> set adv" "owned_unit shape t = Some u'"
    "advance_actions fresh clock svc order target now (j, u', v) = changes clock new ch" "t \<in> fst ` set ch"
    "v = view_of_unit s svc target (unit_members shape (update_tasks s sid) u')" "may_advance (j, u', v)"
    unfolding acts(3) by (rule advance_names [OF wf(1) fresh t(1) adv])
  have "u' = u"
    using a(2) t(2) owned_is_unit [of shape t u'] by simp
  with a t that show ?thesis
    by (simp add: unit_members_def)
qed

lemma resize_loses_nothing:
  assumes wf: "store_wf s" "store_wf s'" and pre: "set (map action_key (write_of w)) \<subseteq> {(object_kind.Service, sid)}"
    and resize: "body = resize_actions clock s svc (update_tasks s sid)"
    and indep: "independent_tx (store_map s) (write_of w @ body)"
    and eff: "store_map s' = result_map index (store_map s) (write_of w @ body)"
  shows "lost_units s s' sid = {}"
proof -
  have "unit_serves s' sid u" if serves: "unit_serves s sid u" for u
  proof -
    obtain t where t: "t \<in> set (update_tasks s sid)" "update_unit_of t = Some u" "is_serving t"
      using serves by (auto simp: unit_serves_def)
    have mine: "t \<in> set (view_tasks s)" "task_service_id t = Some sid"
      using t(1) by (simp_all add: update_tasks_def)
    show ?thesis
    proof (cases "needs_resize s svc t")
      case True
      then have "Update (store_object.Task (resized clock svc t)) \<in> set (write_of w @ body)"
        using t(1) by (simp add: resize resize_actions_eq)
      then have "stamp_task index (resized clock svc t) \<in> set (view_tasks s')"
        by (rule task_updated [OF wf(2) eff indep])
      then show ?thesis
        using mine t unfolding unit_serves_def update_tasks_def
        by (intro bexI [of _ "stamp_task index (resized clock svc t)"]) simp_all
    next
      case False
      have "(object_kind.Task, task_id t) \<notin> set (map action_key (write_of w @ body))"
      proof
        assume "(object_kind.Task, task_id t) \<in> set (map action_key (write_of w @ body))"
        then obtain t' where "t' \<in> set (update_tasks s sid)" "needs_resize s svc t'" "task_id t' = task_id t"
          using pre by (auto simp: resize resize_actions_eq)
        with False mine(1) show False
          using view_tasks_unique [OF wf(1), of t' t] by (auto simp: update_tasks_def)
      qed
      then have "t \<in> set (view_tasks s')"
        by (rule task_kept [OF wf eff mine(1)])
      then show ?thesis
        using mine t unfolding unit_serves_def update_tasks_def by (intro bexI [of _ t]) simp_all
    qed
  qed
  then show ?thesis
    by (auto simp: lost_units_def)
qed

lemma outdated_lost_bound:
  assumes wf: "store_wf s" "store_wf s'" and fresh: "fresh_ids fresh (store_map s)"
    and pre: "set (map action_key (write_of w)) \<subseteq> {(object_kind.Service, sid)}"
    and work: "body = concat (map (advance_actions fresh clock svc order target now) adv)"
      "advances_of s svc shape target (update_tasks s sid) adv"
    and eff: "store_map s' = result_map index (store_map s) (write_of w @ body)"
  shows "card {u \<in> lost_units s s' sid. outdated_unit s sid svc u} \<le> length (drawn adv)"
proof -
  note advanced = lost_advanced [OF wf fresh refl pre work(1) eff work(2)]
  let ?started = "(fst \<circ> snd) ` {a \<in> set adv. fst a \<noteq> None}"
  let ?flight = "units_in_flight (service_phases s sid svc shape now)"
  have "{u \<in> lost_units s s' sid. outdated_unit s sid svc u} \<subseteq> ?started"
  proof safe
    fix u1 u2
    assume u: "(u1, u2) \<in> lost_units s s' sid" "outdated_unit s sid svc (u1, u2)"
    show "(u1, u2) \<in> ?started"
    proof (rule advanced [OF u(1)])
      fix j v
      assume a: "(j, (u1, u2), v) \<in> set adv" "may_advance (j, (u1, u2), v)"
        "v = view_of_unit s svc target (unit_members shape (update_tasks s sid) (u1, u2))"
      have "j \<noteq> None"
      proof
        assume "j = None"
        with a(2) obtain t where "t \<in> set (sv_clean v)"
          by (cases "sv_clean v") auto
        then show False
          using u(2) owned_is_unit by (auto simp: a(3) view_of_unit_def unit_members_def outdated_unit_def)
      qed
      with a(1) show "(u1, u2) \<in> ?started"
        by force
    qed
  qed
  then have "card {u \<in> lost_units s s' sid. outdated_unit s sid svc u} \<le> card ?started"
    by (intro card_mono) simp_all
  also have "\<dots> \<le> length (drawn adv)"
    by (rule card_started)
  finally show ?thesis .
qed

lemma start_first_loses_nothing:
  assumes wf: "store_wf s" "store_wf s'" and fresh: "fresh_ids fresh (store_map s)"
    and pre: "set (map action_key (write_of w)) \<subseteq> {(object_kind.Service, sid)}"
    and work: "body = concat (map (advance_actions fresh clock svc StartFirst desired_state.Running now) adv)"
      "advances_of s svc shape desired_state.Running (update_tasks s sid) adv"
    and indep: "independent_tx (store_map s) (write_of w @ body)"
    and eff: "store_map s' = result_map index (store_map s) (write_of w @ body)"
    and legal: "\<forall>t \<in> set (update_tasks s sid). status_state (task_status t) \<noteq> task_state.Remove"
  shows "u \<notin> lost_units s s' sid"
proof
  note advanced = lost_advanced [OF wf fresh refl pre work(1) eff work(2)]
  assume u: "u \<in> lost_units s s' sid"
  show False
  proof (rule advanced [OF u])
    fix j v new ch t
    assume a: "(j, u, v) \<in> set adv" "may_advance (j, u, v)" "t \<in> fst ` set ch"
      "v = view_of_unit s svc desired_state.Running (unit_members shape (update_tasks s sid) u)"
      "advance_actions fresh clock svc StartFirst desired_state.Running now (j, u, v) = changes clock new ch"
      and t: "t \<in> set (unit_members shape (update_tasks s sid) u)" "is_serving t"
    show False
    proof (cases j)
      case None
      have "unit_serves s' sid u"
        using finish_keeps_serving [OF wf fresh refl pre work(1) indep eff work(2) a(1) [unfolded None] t legal] .
      with u show False
        by (simp add: lost_units_def)
    next
      case (Some i)
      have "\<And>t. t \<in> set (sv_stale v) \<Longrightarrow> is_live t"
        by (auto simp: a(4) view_of_unit_def)
      then obtain r where "advance_actions fresh clock svc StartFirst desired_state.Running now (j, u, v) = changes clock [r] []"
        using start_slot_changes [of v "fresh i" clock svc u StartFirst desired_state.Running] unfolding Some
        by (auto simp: advance_actions_def)
      then have "changes clock new ch = changes clock [r] []"
        using a(5) by simp
      moreover obtain e where "e \<in> set ch"
        using a(3) by auto
      ultimately show False
        by (cases ch; cases new) (auto simp: changes_def)
    qed
  qed
qed

text \<open>
  C7. However it is applied, a pass of the rolling updater takes down no more units of a service than
  its configuration allows. With the order start-first no unit that serves stops serving. With any
  order, the units that stop serving without already holding an up-to-date task, together with the
  units the update has in flight, are at most as many as the parallelism, unless more than that were
  in flight before. (The state \<open>Remove\<close> is never a legal observed state.)
\<close>

theorem rolling_update_availability:
  assumes wf: "store_wf s" and fresh: "fresh_ids fresh (store_map s)" and svc: "view_service s sid = Some svc"
    and shape: "shape_of s svc = Some shape"
    and tx: "apply_transaction s \<lparr>proposal_actions = update_actions sid fresh clock now s\<rparr> index len =
      (proposal_response.Applied index, evs, s')"
    and legal: "\<forall>t \<in> set (update_tasks s sid). status_state (task_status t) \<noteq> task_state.Remove"
  shows "(update_order (update_config_of svc) = StartFirst \<and>
      initial_desired_state (service_spec svc) = desired_state.Running \<longrightarrow> lost_units s s' sid = {}) \<and>
    (parallelism (update_config_of svc) > 0 \<longrightarrow>
      card {u \<in> lost_units s s' sid. outdated_unit s sid svc u} + units_in_flight (service_phases s sid svc shape now) \<le>
      max (parallelism (update_config_of svc)) (units_in_flight (service_phases s sid svc shape now)))"
proof -
  let ?target = "initial_desired_state (service_spec svc)"
  let ?order = "update_order (update_config_of svc)"
  obtain w body where parts: "update_actions sid fresh clock now s = write_of w @ body"
    "pred_option (service_write svc) w" "pass_body fresh clock now s sid svc shape body"
    by (rule update_pass_parts [OF svc shape]) blast
  note indep = pass_independent(1) [OF wf fresh svc parts(2,3)]
  have pre: "set (map action_key (write_of w)) \<subseteq> {(object_kind.Service, sid)}"
    using write_of_keys(2) [OF wf svc parts(2)] by simp
  have eff: "store_map s' = result_map index (store_map s) (write_of w @ body)"
    using applied_effect [OF tx] indep unfolding parts(1) by blast
  have wf': "store_wf s'"
    using apply_transaction_wf [OF wf tx] .
  from parts(3) show ?thesis
  proof (cases rule: pass_bodyE)
    case resize
    then show ?thesis
      using resize_loses_nothing [OF wf wf' pre resize indep eff] by simp
  next
    case (work adv)
    have "lost_units s s' sid = {}" if "?order = StartFirst" "?target = desired_state.Running"
      using start_first_loses_nothing [OF wf wf' fresh pre work(1,2) [unfolded that] indep eff legal] by blast
    moreover have "card {u \<in> lost_units s s' sid. outdated_unit s sid svc u} \<le> length (drawn adv)"
      by (rule outdated_lost_bound [OF wf wf' fresh pre work(1,2) eff])
    ultimately show ?thesis
      using work(3) by (auto simp: max_def)
  qed
qed

section \<open>The size of a pass\<close>

lemma slot_work_bounded:
  "length (plan_actions (slot_work fresh clock svc slots phases config monitor now)) \<le> MAX_TX_ACTIONS - 1"
  unfolding slot_work_def Let_def case_prod_beta by (rule work_slots_bounded) simp

definition resize_count :: "('lid, 'mem) store_inner \<Rightarrow> id \<Rightarrow> service \<Rightarrow> nat" where
  "resize_count s sid svc = length (filter (needs_resize s svc) (update_tasks s sid))"

lemma pass_length:
  assumes "view_service s sid = Some svc" "shape_of s svc = Some shape"
  shows "resize_count s sid svc \<noteq> 0 \<Longrightarrow> \<not> is_paused (current_state svc) \<Longrightarrow>
      length (update_actions sid fresh clock now s) = resize_count s sid svc"
    and "resize_count s sid svc = 0 \<or> is_paused (current_state svc) \<Longrightarrow>
      length (update_actions sid fresh clock now s) \<le> MAX_TX_ACTIONS"
proof -
  have count: "length (resize_actions clock s svc (update_tasks s sid)) = resize_count s sid svc"
    by (simp add: resize_actions_eq resize_count_def)
  then show "length (update_actions sid fresh clock now s) = resize_count s sid svc"
    if "resize_count s sid svc \<noteq> 0" "\<not> is_paused (current_state svc)"
    using that by (auto simp: update_actions_eq [OF assms])
  show "length (update_actions sid fresh clock now s) \<le> MAX_TX_ACTIONS"
    if quiet: "resize_count s sid svc = 0 \<or> is_paused (current_state svc)"
  proof -
    have one: "1 \<le> MAX_TX_ACTIONS"
      by (simp add: MAX_TX_ACTIONS_def)
    have "length (plan_actions (finished svc st phases shape now)) \<le> 1" for st phases
      by (simp add: finished_def act_plan_def idle_plan_def split: option.split update_state_kind.split)
    then have finish: "length (plan_actions (finished svc st phases shape now)) \<le> MAX_TX_ACTIONS" for st phases
      using one by (rule order_trans)
    have grow: "length (plan_actions (publish_progress plan svc st phases shape now)) \<le> Suc (length (plan_actions plan))"
      for plan st phases
      by (auto simp: publish_progress_def Let_def)
    have publish: "length (plan_actions (publish_progress (slot_work fresh clock svc slots phases config monitor now)
        svc st phases shape now)) \<le> MAX_TX_ACTIONS" for slots phases config monitor st
      using slot_work_bounded [of fresh clock svc slots phases config monitor now] one
      by (intro order_trans [OF grow]) linarith
    show ?thesis
      using quiet count one finish publish by (auto simp: update_actions_eq [OF assms] split: option.split)
  qed
qed

text \<open>
  C30. The store accepts what a pass of the updater proposes, if nobody interferes, unless more tasks
  are to be resized in place than a transaction may have actions. The resizes are not cut to that
  bound: then every pass is rejected as malformed, and the service is neither resized, rolled nor
  judged until tasks go away.
\<close>

theorem update_pass_accepted:
  assumes "store_wf s" "fresh_ids fresh (store_map s)" "view_service s sid = Some svc" "shape_of s svc = Some shape"
    and "len \<le> MAX_TX_BYTES"
  shows "fst (apply_transaction s \<lparr>proposal_actions = update_actions sid fresh clock now s\<rparr> index len) =
    (if is_paused (current_state svc) \<or> resize_count s sid svc \<le> MAX_TX_ACTIONS
     then proposal_response.Applied index
     else proposal_response.Rejected (TooManyActions (resize_count s sid svc)))"
proof (cases "is_paused (current_state svc) \<or> resize_count s sid svc \<le> MAX_TX_ACTIONS")
  case True
  then have short: "length (update_actions sid fresh clock now s) \<le> MAX_TX_ACTIONS"
    using pass_length [OF assms(3,4), of fresh clock now]
    by (cases "resize_count s sid svc = 0 \<or> is_paused (current_state svc)") auto
  obtain w body where parts: "update_actions sid fresh clock now s = write_of w @ body"
    "pred_option (service_write svc) w" "pass_body fresh clock now s sid svc shape body"
    by (rule update_pass_parts [OF assms(3,4)]) blast
  have "independent_tx (store_map s) (update_actions sid fresh clock now s)"
    unfolding parts(1) by (rule pass_independent(1) [OF assms(1-3) parts(2,3)])
  from independent_accepted [OF this short assms(5), of index] True show ?thesis
    by auto
next
  case False
  then have "length (update_actions sid fresh clock now s) = resize_count s sid svc"
    by (intro pass_length(1) [OF assms(3,4)]) auto
  with False show ?thesis
    by (simp add: apply_transaction_def validate_transaction_def)
qed

section \<open>Replacements left behind by a change of order\<close>

text \<open>
  A task that is the only live one of its unit and up to date, but is wanted and observed below the
  state the service aims at: what a stop-first pass leaves until the predecessor has stopped.
\<close>

definition awaits_promotion ::
  "('lid, 'mem) store_inner \<Rightarrow> id \<Rightarrow> service \<Rightarrow> update_shape \<Rightarrow> task \<Rightarrow> update_unit \<Rightarrow> bool" where
  "awaits_promotion s sid svc shape t u \<longleftrightarrow> owned_unit shape t = Some u \<and> is_live t \<and> \<not> is_stale s svc t \<and>
     filter is_live (unit_members shape (update_tasks s sid) u) = [t] \<and>
     task_desired_state t < initial_desired_state (service_spec svc) \<and>
     status_state (task_status t) < as_task_state (initial_desired_state (service_spec svc))"

lemma awaiting_view:
  assumes "awaits_promotion s sid svc shape t u"
    and "v = view_of_unit s svc target (unit_members shape (update_tasks s sid) u)"
  shows "sv_clean v = [t]" "sv_stale v = []"
proof -
  let ?live = "filter is_live (unit_members shape (update_tasks s sid) u)"
  have live: "?live = [t]" "\<not> is_stale s svc t"
    using assms(1) by (simp_all add: awaits_promotion_def)
  have "sv_clean v = filter (\<lambda>t. \<not> is_stale s svc t) ?live" "sv_stale v = filter (is_stale s svc) ?live"
    by (simp_all add: assms(2) view_of_unit_def conj_commute)
  with live show "sv_clean v = [t]" "sv_stale v = []"
    by simp_all
qed

lemma awaiting_in_flight:
  assumes "awaits_promotion s sid svc shape t u"
  shows "units_in_flight (service_phases s sid svc shape now) > 0"
proof -
  let ?ms = "unit_members shape (update_tasks s sid) u"
  let ?target = "initial_desired_state (service_spec svc)"
  have "?ms \<noteq> []"
    using assms unfolding awaits_promotion_def by (metis filter.simps(1) list.distinct(1))
  then have "map_of (service_slots s sid svc shape) u = Some (view_of_unit s svc ?target ?ms)"
    unfolding service_slots_def by (simp add: slot_views_lookup)
  then have "(u, view_of_unit s svc ?target ?ms) \<in> set (service_slots s sid svc shape)"
    by (rule map_of_SomeD)
  moreover have "slot_phase (view_of_unit s svc ?target ?ms) ?target monitor now updating = update_phase.Pending True"
    for monitor updating
    using awaiting_view [OF assms refl] assms by (simp add: slot_phase_def awaits_promotion_def)
  ultimately have "(u, update_phase.Pending True) \<in> set (service_phases s sid svc shape now)"
    unfolding service_phases_def update_phases_of_def set_map
    by (intro image_eqI [of _ _ "(u, view_of_unit s svc ?target ?ms)"]) simp_all
  then show ?thesis
    by (force simp: units_in_flight_def filter_empty_conv)
qed

lemma created_changes: "created_tasks (changes clock new ch) = new"
proof -
  have "created_tasks (map (\<lambda>(t, d). raising clock d t) ch) = []"
    by (rule created_none) (auto simp: created_task_def)
  moreover have "created_tasks (map (\<lambda>t. Create (store_object.Task t)) new) = new"
    by (induction new) (simp_all add: created_tasks_def map_filter_simps created_task_def)
  ultimately show ?thesis
    by (simp add: changes_def)
qed

text \<open>
  C31. Only stop-first passes promote. When the order of a service is start-first, a task that awaits
  its promotion is named by no pass, whenever it runs, so it is never started; and because it counts
  as in flight, a service with parallelism one starts no other unit either.
\<close>

theorem start_first_strands_replacement:
  assumes wf: "store_wf s" and fresh: "fresh_ids fresh (store_map s)" and svc: "view_service s sid = Some svc"
    and shape: "shape_of s svc = Some shape" and order: "update_order (update_config_of svc) = StartFirst"
    and t: "t \<in> set (update_tasks s sid)" "awaits_promotion s sid svc shape t u" "resize_count s sid svc = 0"
  shows "(object_kind.Task, task_id t) \<notin> set (map action_key (update_actions sid fresh clock now s)) \<and>
    (parallelism (update_config_of svc) = 1 \<longrightarrow> created_tasks (update_actions sid fresh clock now s) = [])"
proof -
  let ?target = "initial_desired_state (service_spec svc)"
  let ?acts = "advance_actions fresh clock svc StartFirst ?target now"
  obtain w body where parts: "update_actions sid fresh clock now s = write_of w @ body"
    "pred_option (service_write svc) w" "pass_body fresh clock now s sid svc shape body"
    by (rule update_pass_parts [OF svc shape]) blast
  have pre: "set (map action_key (write_of w)) \<subseteq> {(object_kind.Service, sid)}" "created_tasks (write_of w) = []"
    using write_of_keys(2) [OF wf svc parts(2)]
    by (simp_all add: write_of_def created_tasks_def map_filter_simps created_task_def split: option.split)
  obtain adv where adv: "body = concat (map ?acts adv)" "advances_of s svc shape ?target (update_tasks s sid) adv"
    "parallelism (update_config_of svc) > 0 \<longrightarrow>
       length (drawn adv) \<le> parallelism (update_config_of svc) - units_in_flight (service_phases s sid svc shape now)"
    using parts(3)
  proof (cases rule: pass_bodyE)
    case resize
    then have "body = []"
      using t(3) by (simp add: resize_actions_eq resize_count_def)
    then show ?thesis
      by (intro that [of "[]"]) (simp_all add: advances_of_def)
  next
    case (work adv)
    then show ?thesis
      unfolding order by (rule that)
  qed
  have "(object_kind.Task, task_id t) \<notin> set (map action_key body)"
  proof
    assume "(object_kind.Task, task_id t) \<in> set (map action_key body)"
    then obtain j u' v new ch where a: "(j, u', v) \<in> set adv" "owned_unit shape t = Some u'"
      "?acts (j, u', v) = changes clock new ch" "t \<in> fst ` set ch"
      "v = view_of_unit s svc ?target (unit_members shape (update_tasks s sid) u')" "may_advance (j, u', v)"
      unfolding adv(1) by (rule advance_names [OF wf fresh t(1) adv(2)])
    have "u' = u"
      using a(2) t(2) by (simp add: awaits_promotion_def)
    note view = awaiting_view [OF t(2) a(5) [unfolded this]]
    have "j = None"
      using a(6) view by (cases j) simp_all
    then have "?acts (j, u', v) = []"
      using view t(2) by (simp add: advance_actions_def finish_slot_def keeper_def Let_def awaits_promotion_def not_le)
    with a(3,4) show False
      by (auto simp: changes_def)
  qed
  moreover have "created_tasks body = []" if "parallelism (update_config_of svc) = 1"
  proof -
    have "drawn adv = []"
      using adv(3) awaiting_in_flight [OF t(2), of now] that by simp
    have "created_tasks (?acts a) = []" if "a \<in> set adv" for a
    proof -
      obtain j u' v where a: "a = (j, u', v)"
        by (cases a) auto
      have v: "v = view_of_unit s svc ?target (unit_members shape (update_tasks s sid) u')" and "may_advance (j, u', v)"
        using adv(2) that by (auto simp: advances_of_def list_all_iff a)
      moreover have "distinct (map task_id (unit_members shape (update_tasks s sid) u'))"
        using update_tasks_stored(2) [OF wf, of sid] by (simp add: unit_members_def distinct_map_filter)
      ultimately obtain new ch where "?acts a = changes clock new ch" "map task_id new = new_ids fresh a"
        using advance_changes [of v s svc ?target _ j u' fresh clock StartFirst now] unfolding a by blast
      moreover have "new_ids fresh a = []"
        using drawn_mem [of _ "(u', v)" adv] \<open>drawn adv = []\<close> that by (cases j) (auto simp: a new_ids_def)
      ultimately show ?thesis
        by (simp add: created_changes)
    qed
    then show ?thesis
      unfolding adv(1) by (induction adv) (simp_all add: created_tasks_def map_filter_def)
  qed
  ultimately show ?thesis
    using pre unfolding parts(1) by auto
qed

section \<open>A service with two replicas\<close>

definition w_up_config :: "update_order \<Rightarrow> failure_action \<Rightarrow> update_config" where
  "w_up_config order reaction = default_update_config\<lparr>update_order := order, failure_action := reaction\<rparr>"

definition w_up_spec :: "update_order \<Rightarrow> failure_action \<Rightarrow> nat \<Rightarrow> service_spec" where
  "w_up_spec order reaction n = (service_spec (sample_service ''s1'' (Replicated 2)))
     \<lparr>sspec_task := sample_tspec\<lparr>force_update := n\<rparr>, sspec_update := Some (w_up_config order reaction)\<rparr>"

text \<open>The service runs the first spec and is being moved to the second one.\<close>

definition w_up_service :: "update_order \<Rightarrow> failure_action \<Rightarrow> service" where
  "w_up_service order reaction = (sample_service ''s1'' (Replicated 2))
     \<lparr>service_spec := w_up_spec order reaction 1, previous_spec := Some (w_up_spec order reaction 0),
      service_update_status := Some \<lparr>update_state = Updating, update_started_at = None,
        update_completed_at = None, update_message = []\<rparr>\<rparr>"

definition w_up_task :: "id \<Rightarrow> nat \<Rightarrow> task_state \<Rightarrow> desired_state \<Rightarrow> nat \<Rightarrow> task" where
  "w_up_task i sl st d n = (sample_task i ''s1'' sl st d)
     \<lparr>task_spec := sample_tspec\<lparr>force_update := n\<rparr>, task_spec_version := Some n\<rparr>"

definition w_up_store :: "update_order \<Rightarrow> failure_action \<Rightarrow> task list \<Rightarrow> (nat, nat list) store_inner" where
  "w_up_store order reaction ts =
     sample_store (Create (store_object.Service (w_up_service order reaction)) # map (Create \<circ> store_object.Task) ts)"

definition w_up_fresh :: "nat \<Rightarrow> id" where
  "w_up_fresh k = replicate k CHR ''x''"

lemma w_up_fresh_ids:
  assumes "map fst (st_tasks s) = [''t1'', ''t2'']"
  shows "fresh_ids w_up_fresh (store_map s)"
proof -
  have "''t1'' \<noteq> w_up_fresh k" "''t2'' \<noteq> w_up_fresh k" for k
    by (cases k; cases "k - 1"; simp add: w_up_fresh_def)+
  moreover have "inj w_up_fresh"
    by (rule injI) (metis length_replicate w_up_fresh_def)
  moreover have "map_of (st_tasks s) i \<noteq> None \<longleftrightarrow> i \<in> {''t1'', ''t2''}" for i
    using assms by (metis list.set(1) list.simps(15) map_of_eq_None_iff set_map)
  ultimately show ?thesis
    unfolding fresh_ids_def store_map_task view_task_def by (metis insertE map_option_is_None singletonD)
qed

lemma w_up_store_wf: "store_wf (w_up_store order reaction ts)"
  unfolding w_up_store_def by (rule sample_store_wf)

definition w_up_stored :: "update_order \<Rightarrow> failure_action \<Rightarrow> service" where
  "w_up_stored order reaction = (w_up_service order reaction)\<lparr>service_meta := sample_meta 1, service_spec_version := 1\<rparr>"

abbreviation w_up_running :: "task list" where
  "w_up_running \<equiv> [w_up_task ''t1'' 1 task_state.Running desired_state.Running 0,
     w_up_task ''t2'' 2 task_state.Running desired_state.Running 0]"

definition w_rolling :: "(nat, nat list) store_inner" where
  "w_rolling = w_up_store StopFirst failure_action.Rollback w_up_running"

definition w_rolled :: "(nat, nat list) store_inner" where
  "w_rolled = snd (snd (apply_transaction w_rolling
     \<lparr>proposal_actions = update_actions ''s1'' w_up_fresh 0 0 w_rolling\<rparr> 2 0))"

lemma w_rolling_facts:
  "store_wf w_rolling" "fresh_ids w_up_fresh (store_map w_rolling)"
  "view_service w_rolling ''s1'' = Some (w_up_stored StopFirst failure_action.Rollback)"
  "shape_of w_rolling (w_up_stored StopFirst failure_action.Rollback) = Some (ReplicatedShape 2)"
  "fst (apply_transaction w_rolling \<lparr>proposal_actions = update_actions ''s1'' w_up_fresh 0 0 w_rolling\<rparr> 2 0) =
     proposal_response.Applied 2"
proof -
  show "store_wf w_rolling"
    unfolding w_rolling_def by (rule w_up_store_wf)
  show "fresh_ids w_up_fresh (store_map w_rolling)"
    by (rule w_up_fresh_ids) code_simp
  show "view_service w_rolling ''s1'' = Some (w_up_stored StopFirst failure_action.Rollback)"
    by code_simp
  show "shape_of w_rolling (w_up_stored StopFirst failure_action.Rollback) = Some (ReplicatedShape 2)"
    by code_simp
  show "fst (apply_transaction w_rolling \<lparr>proposal_actions = update_actions ''s1'' w_up_fresh 0 0 w_rolling\<rparr> 2 0) =
     proposal_response.Applied 2"
    by code_simp
qed

theorem rolling_update_availability_witness:
  "unit_serves w_rolling ''s1'' (1, None) \<and> \<not> unit_serves w_rolled ''s1'' (1, None) \<and>
   unit_serves w_rolled ''s1'' (2, None) \<and>
   card {u \<in> lost_units w_rolling w_rolled ''s1''. outdated_unit w_rolling ''s1'' (w_up_stored StopFirst failure_action.Rollback) u} \<le> 1"
proof -
  note facts = w_rolling_facts
  have tx: "apply_transaction w_rolling \<lparr>proposal_actions = update_actions ''s1'' w_up_fresh 0 0 w_rolling\<rparr> 2 0 =
      (proposal_response.Applied 2, fst (snd (apply_transaction w_rolling
        \<lparr>proposal_actions = update_actions ''s1'' w_up_fresh 0 0 w_rolling\<rparr> 2 0)), w_rolled)"
    unfolding w_rolled_def facts(5) [symmetric] by simp
  have legal: "\<forall>t \<in> set (update_tasks w_rolling ''s1''). status_state (task_status t) \<noteq> task_state.Remove"
    by code_simp
  have config: "parallelism (update_config_of (w_up_stored StopFirst failure_action.Rollback)) = 1"
    by code_simp
  have flight: "units_in_flight (service_phases w_rolling ''s1'' (w_up_stored StopFirst failure_action.Rollback)
      (ReplicatedShape 2) 0) = 0"
    by code_simp
  have "card {u \<in> lost_units w_rolling w_rolled ''s1''. outdated_unit w_rolling ''s1'' (w_up_stored StopFirst failure_action.Rollback) u} \<le> 1"
    using rolling_update_availability [OF facts(1-4) tx legal] unfolding config flight by simp
  moreover have "unit_serves w_rolling ''s1'' (1, None)"
    by code_simp
  moreover have "\<not> unit_serves w_rolled ''s1'' (1, None)"
    by code_simp
  moreover have "unit_serves w_rolled ''s1'' (2, None)"
    by code_simp
  ultimately show ?thesis
    by blast
qed

text \<open>The replacement of the first replica failed.\<close>

definition w_failing :: "(nat, nat list) store_inner" where
  "w_failing = w_up_store StopFirst failure_action.Rollback
     [w_up_task ''t1'' 1 task_state.Failed desired_state.Running 1, w_up_task ''t2'' 2 task_state.Running desired_state.Running 0]"

definition w_rolled_back :: "(nat, nat list) store_inner" where
  "w_rolled_back = snd (snd (apply_transaction w_failing
     \<lparr>proposal_actions = update_actions ''s1'' w_up_fresh 0 0 w_failing\<rparr> 2 0))"

theorem update_pass_refines_rollout_witness:
  "\<exists>svc'. view_service w_rolled_back ''s1'' = Some svc' \<and>
     service_spec svc' = w_up_spec StopFirst failure_action.Rollback 0 \<and>
     rollout_step True False failure_action.Rollback
       (rollout_of (w_up_stored StopFirst failure_action.Rollback)) (rollout_of svc')"
proof -
  let ?svc = "w_up_stored StopFirst failure_action.Rollback"
  have wf: "store_wf w_failing"
    unfolding w_failing_def by (rule w_up_store_wf)
  have fresh: "fresh_ids w_up_fresh (store_map w_failing)"
    by (rule w_up_fresh_ids) code_simp
  have svc: "view_service w_failing ''s1'' = Some ?svc"
    by code_simp
  have shape: "shape_of w_failing ?svc = Some (ReplicatedShape 2)"
    by code_simp
  have "fst (apply_transaction w_failing \<lparr>proposal_actions = update_actions ''s1'' w_up_fresh 0 0 w_failing\<rparr> 2 0) =
      proposal_response.Applied 2"
    by code_simp
  then have tx: "apply_transaction w_failing \<lparr>proposal_actions = update_actions ''s1'' w_up_fresh 0 0 w_failing\<rparr> 2 0 =
      (proposal_response.Applied 2, fst (snd (apply_transaction w_failing
        \<lparr>proposal_actions = update_actions ''s1'' w_up_fresh 0 0 w_failing\<rparr> 2 0)), w_rolled_back)"
    unfolding w_rolled_back_def by (metis prod.collapse)
  have over: "over_budget w_failing ''s1'' ?svc (ReplicatedShape 2) 0 = True"
    by code_simp
  have busy: "(\<exists>t \<in> set (update_tasks w_failing ''s1''). needs_resize w_failing ?svc t) = False"
    by code_simp
  have reaction: "failure_action (update_config_of ?svc) = failure_action.Rollback"
    by code_simp
  have "map_option service_spec (view_service w_rolled_back ''s1'') = Some (w_up_spec StopFirst failure_action.Rollback 0)"
    by code_simp
  with update_pass_refines_rollout [OF wf fresh svc shape tx] show ?thesis
    unfolding over busy reaction by auto
qed

theorem update_pass_accepted_witness:
  "fst (apply_transaction w_rolling \<lparr>proposal_actions = update_actions ''s1'' w_up_fresh 0 0 w_rolling\<rparr> 2 0) =
     proposal_response.Applied 2"
proof -
  have "resize_count w_rolling ''s1'' (w_up_stored StopFirst failure_action.Rollback) = 0"
    by code_simp
  with update_pass_accepted [OF w_rolling_facts(1-4), of 0 0 0 2] show ?thesis
    by simp
qed

text \<open>A replacement that waited for its predecessor when the order was changed.\<close>

definition w_stranded :: "(nat, nat list) store_inner" where
  "w_stranded = w_up_store StartFirst failure_action.Pause
     [w_up_task ''t1'' 1 task_state.Ready desired_state.Ready 1, w_up_task ''t2'' 2 task_state.Running desired_state.Running 0]"

theorem start_first_strands_replacement_witness:
  "length (update_tasks w_stranded ''s1'') = 2 \<and> created_tasks (update_actions ''s1'' w_up_fresh 0 0 w_stranded) = []"
proof -
  let ?svc = "w_up_stored StartFirst failure_action.Pause"
  let ?t = "stamp_task 1 (w_up_task ''t1'' 1 task_state.Ready desired_state.Ready 1)"
  have wf: "store_wf w_stranded"
    unfolding w_stranded_def by (rule w_up_store_wf)
  have fresh: "fresh_ids w_up_fresh (store_map w_stranded)"
    by (rule w_up_fresh_ids) code_simp
  have svc: "view_service w_stranded ''s1'' = Some ?svc"
    by code_simp
  have shape: "shape_of w_stranded ?svc = Some (ReplicatedShape 2)"
    by code_simp
  have order: "update_order (update_config_of ?svc) = StartFirst"
    by code_simp
  have task: "?t \<in> set (update_tasks w_stranded ''s1'')"
    by code_simp
  have await: "awaits_promotion w_stranded ''s1'' ?svc (ReplicatedShape 2) ?t (1, None)"
    by code_simp
  have resize: "resize_count w_stranded ''s1'' ?svc = 0"
    by code_simp
  have par: "parallelism (update_config_of ?svc) = 1"
    by code_simp
  have "length (update_tasks w_stranded ''s1'') = 2"
    by code_simp
  with start_first_strands_replacement [OF wf fresh svc shape order task await resize, of 0 0] par show ?thesis
    by simp
qed

end
