(* ===== verification/Agent_Task.thy ===== *)
theory Agent_Task
  imports Core_Naming
begin

text \<open>
  The agent of a node: \<open>satl-agent/src/do_step.rs\<close>, the state machine that drives one task by one
  operation at a time, and \<open>satl-agent/src/task_manager.rs\<close>, the loop around it. The controller
  (\<open>controller.rs\<close>, jails and file systems) is known by its trait only: a record of operations on a
  state of any type, an argument of the definitions that call it.
\<close>

section \<open>The controller\<close>

text \<open>
  \<open>ControllerError\<close>: the variants the classification looks at, and one for all the others, which
  carries the message they display.
\<close>

datatype controller_error =
    Cancelled
  | DependencyNotDelivered string
  | Temporary controller_error
  | Environment string

definition temporary :: "controller_error \<Rightarrow> controller_error" where
  "temporary e = (case e of Temporary _ \<Rightarrow> e | _ \<Rightarrow> Temporary e)"

definition is_temporary :: "controller_error \<Rightarrow> bool" where
  "is_temporary e = (case e of
       Cancelled \<Rightarrow> True | DependencyNotDelivered _ \<Rightarrow> True | Temporary _ \<Rightarrow> True | Environment _ \<Rightarrow> False)"

primrec error_display :: "controller_error \<Rightarrow> string" where
  "error_display Cancelled = ''task operation cancelled''"
| "error_display (DependencyNotDelivered text) = text"
| "error_display (Temporary e) = error_display e"
| "error_display (Environment text) = text"

record exit_outcome =
  exit_status_code :: "int option"
  exit_signal :: "int option"
  unharvestable :: "string option"

definition is_success :: "exit_outcome \<Rightarrow> bool" where
  "is_success e \<longleftrightarrow> exit_status_code e = Some 0"

definition show_int :: "int \<Rightarrow> string" where
  "show_int i = (if i < 0 then CHR ''-'' # show_nat (nat (- i)) else show_nat (nat i))"

definition describe :: "exit_outcome \<Rightarrow> string" where
  "describe e = (case exit_status_code e of
       Some c \<Rightarrow> ''container exited with code '' @ show_int c
     | None \<Rightarrow> (case exit_signal e of
         Some n \<Rightarrow> ''container was killed by signal '' @ show_int n
       | None \<Rightarrow> (case unharvestable e of
           Some reason \<Rightarrow> reason
         | None \<Rightarrow> ''container terminated'')))"

definition exit_code :: "exit_outcome \<Rightarrow> int option" where
  "exit_code e = (case exit_status_code e of
       Some c \<Rightarrow> Some c
     | None \<Rightarrow> map_option (\<lambda>n. 128 + n) (exit_signal e))"

record 'c task_controller =
  ctl_prepare :: "'c \<Rightarrow> (controller_error, unit) result \<times> 'c"
  ctl_start :: "'c \<Rightarrow> (controller_error, unit) result \<times> 'c"
  ctl_wait :: "'c \<Rightarrow> (controller_error, exit_outcome) result \<times> 'c"
  ctl_update :: "task \<Rightarrow> 'c \<Rightarrow> 'c"
  ctl_shutdown :: "'c \<Rightarrow> (controller_error, unit) result \<times> 'c"
  ctl_remove :: "'c \<Rightarrow> (controller_error, unit) result \<times> 'c"
  ctl_container_status :: "'c \<Rightarrow> container_status option"
  ctl_port_status :: "'c \<Rightarrow> port_config list"
  ctl_status_note :: "'c \<Rightarrow> string option"

section \<open>One step\<close>

datatype step = Advanced task_status | Noop | Retry task_status

definition step_status :: "step \<Rightarrow> task_status option" where
  "step_status st = (case st of Advanced s \<Rightarrow> Some s | Retry s \<Rightarrow> Some s | Noop \<Rightarrow> None)"

definition harvest :: "'c task_controller \<Rightarrow> 'c \<Rightarrow> task_status \<Rightarrow> task_status" where
  "harvest ops c status =
     (if status_state status < task_state.Starting then status
      else let s1 = (case ctl_container_status ops c of
                 Some container \<Rightarrow> status\<lparr>status_container := Some container\<rparr> | None \<Rightarrow> status);
               ports = ctl_port_status ops c
           in if ports = [] then s1 else s1\<lparr>port_status := ports\<rparr>)"

definition transition :: "'c task_controller \<Rightarrow> 'c \<Rightarrow> task_status \<Rightarrow> task_state \<Rightarrow> string \<Rightarrow> step" where
  "transition ops c status to message = (case advance (status_state status) to of
       Inr st \<Rightarrow>
         (let s1 = status\<lparr>status_state := st, status_message := message\<rparr>;
              s2 = (if st \<noteq> task_state.Failed \<and> st \<noteq> task_state.Rejected then s1\<lparr>status_err := None\<rparr> else s1);
              s3 = (case ctl_status_note ops c of
                  Some note \<Rightarrow> s2\<lparr>status_message := message @ '' ('' @ note @ '')''\<rparr> | None \<Rightarrow> s2)
          in Advanced (harvest ops c s3))
     | Inl _ \<Rightarrow> Noop)"

definition fatal :: "'c task_controller \<Rightarrow> 'c \<Rightarrow> task_status \<Rightarrow> controller_error \<Rightarrow> step" where
  "fatal ops c status e =
     (let s1 = status\<lparr>status_err := Some (error_display e)\<rparr>;
          s2 = (if status_state s1 \<ge> task_state.Starting then harvest ops c s1 else s1)
      in if is_temporary e then Retry s2
         else let terminal = (if status_state s2 < task_state.Starting then task_state.Rejected else task_state.Failed)
              in transition ops c s2 terminal (task_state_display terminal))"

text \<open>An operation of the controller, followed by what its success leads to or by \<open>fatal\<close>.\<close>

definition attempt ::
  "'c task_controller \<Rightarrow> task_status \<Rightarrow> (controller_error, 'v) result \<times> 'c \<Rightarrow> ('v \<Rightarrow> 'c \<Rightarrow> step) \<Rightarrow> step \<times> 'c" where
  "attempt ops next res proceed = (case res of
       (Inr v, c) \<Rightarrow> (proceed v c, c)
     | (Inl e, c) \<Rightarrow> (fatal ops c next e, c))"

definition do_step ::
  "'c task_controller \<Rightarrow> system_time \<Rightarrow> task \<Rightarrow> task_status \<Rightarrow> 'c \<Rightarrow> step \<times> 'c" where
  "do_step ops now t status c =
     (let next = status\<lparr>status_timestamp := now, applied_by := None, applied_at := None\<rparr>;
          observed = status_state status; desired = task_desired_state t
      in if desired \<ge> desired_state.Shutdown then
           (if observed \<ge> task_state.Complete then (Noop, c)
            else attempt ops next (ctl_shutdown ops c)
                   (\<lambda>_ c'. transition ops c' next task_state.Shutdown ''shutdown''))
         else if observed > as_task_state desired then (Noop, c)
         else if observed = task_state.Preparing then
           attempt ops next (ctl_prepare ops c) (\<lambda>_ c'. transition ops c' next task_state.Ready ''prepared'')
         else if observed = task_state.Starting then
           attempt ops next (ctl_start ops c) (\<lambda>_ c'. transition ops c' next task_state.Running ''started'')
         else if observed = task_state.Running then
           attempt ops next (ctl_wait ops c) (\<lambda>outcome c'.
             if is_success outcome then transition ops c' next task_state.Complete ''finished''
             else transition ops c' (next\<lparr>status_err := Some (describe outcome)\<rparr>) task_state.Failed ''failed'')
         else if observed \<ge> as_task_state desired then (Noop, c)
         else if observed \<in> {task_state.New, task_state.Pending, task_state.Assigned} then
           (transition ops c next task_state.Accepted ''accepted'', c)
         else if observed = task_state.Accepted then (transition ops c next task_state.Preparing ''preparing'', c)
         else if observed = task_state.Ready then (transition ops c next task_state.Starting ''starting'', c)
         else (Noop, c))"

section \<open>The task manager\<close>

datatype command = Update task | Remove | Close

datatype exit = Removed | Closed

datatype flow = Continue | Stop exit

definition apply_command ::
  "'c task_controller \<Rightarrow> command option \<Rightarrow> task \<Rightarrow> 'c \<Rightarrow> flow \<times> task \<times> 'c" where
  "apply_command ops cmd t c = (case cmd of
       Some (command.Update updated) \<Rightarrow>
         if task_desired_state updated < task_desired_state t then (Continue, t, c)
         else (Continue, updated, ctl_update ops updated c)
     | Some command.Remove \<Rightarrow> (Stop exit.Removed, t, c)
     | Some Close \<Rightarrow> (Stop exit.Closed, t, c)
     | None \<Rightarrow> (Stop exit.Closed, t, c))"

text \<open>
  The handle: the highest desired state accepted so far, and the commands sent. The channel is
  unbounded and open as long as the loop runs.
\<close>

record task_manager =
  mgr_desired :: desired_state
  mgr_sent :: "command list"

definition manager_update :: "task \<Rightarrow> task_manager \<Rightarrow> bool \<times> task_manager" where
  "manager_update t m =
     (if task_desired_state t < mgr_desired m then (False, m)
      else (True, m\<lparr>mgr_desired := task_desired_state t, mgr_sent := mgr_sent m @ [command.Update t]\<rparr>))"

text \<open>
  Where \<open>run\<close> stands: about to step, waiting after a transient failure, waiting for a command, or out
  of the loop. \<open>run_published\<close> is the sequence of statuses persisted and reported.
\<close>

datatype loop_phase = Stepping | Backoff | Parked | Stopped exit

record 'c run_state =
  run_phase :: loop_phase
  run_task :: task
  run_status :: task_status
  run_ctlr :: 'c
  run_published :: "task_status list"

definition publish :: "task_status \<Rightarrow> 'c run_state \<Rightarrow> 'c run_state" where
  "publish s r = r\<lparr>run_status := s, run_published := run_published r @ [s]\<rparr>"

definition after_step :: "step \<Rightarrow> 'c run_state \<Rightarrow> 'c run_state" where
  "after_step st r = (case st of
       Advanced s \<Rightarrow> publish s r
     | Retry s \<Rightarrow> (publish s r)\<lparr>run_phase := Backoff\<rparr>
     | Noop \<Rightarrow> r\<lparr>run_phase := Parked\<rparr>)"

definition after_command :: "'c task_controller \<Rightarrow> command option \<Rightarrow> 'c run_state \<Rightarrow> 'c run_state" where
  "after_command ops cmd r = (case apply_command ops cmd (run_task r) (run_ctlr r) of
       (flow, t, c) \<Rightarrow> r\<lparr>run_task := t, run_ctlr := c,
         run_phase := (case flow of Continue \<Rightarrow> Stepping | Stop e \<Rightarrow> Stopped e)\<rparr>)"

text \<open>
  The loop. A command that arrives during a step cancels it: the controller is then in whatever state
  the interrupted operation left.
\<close>

inductive run_step :: "'c task_controller \<Rightarrow> 'c run_state \<Rightarrow> 'c run_state \<Rightarrow> bool" for ops where
  stepped: "run_phase r = Stepping \<Longrightarrow> do_step ops now (run_task r) (run_status r) (run_ctlr r) = (st, c) \<Longrightarrow>
    run_step ops r (after_step st (r\<lparr>run_ctlr := c\<rparr>))"
| interrupted: "run_phase r = Stepping \<Longrightarrow> run_step ops r (after_command ops cmd (r\<lparr>run_ctlr := c\<rparr>))"
| slept: "run_phase r = Backoff \<Longrightarrow> run_step ops r (r\<lparr>run_phase := Stepping\<rparr>)"
| commanded: "run_phase r \<in> {Backoff, Parked} \<Longrightarrow> run_step ops r (after_command ops cmd r)"

text \<open>What follows the loop: a removed task is stopped first if it is still alive.\<close>

definition run_end :: "'c task_controller \<Rightarrow> exit \<Rightarrow> task_status \<Rightarrow> 'c \<Rightarrow> 'c" where
  "run_end ops e status c =
     (if e = exit.Removed then
        snd (ctl_remove ops (if is_terminal (status_state status) then c else snd (ctl_shutdown ops c)))
      else c)"

end
