(* ===== verification/Agent_Task_Proofs.thy ===== *)
theory Agent_Task_Proofs
  imports Agent_Task Sample_Objects
begin

text \<open>
  The agent's state machine never regresses and never acts on a finished task; left alone with a
  controller without transient failures it comes to rest where the cluster wants the task.
\<close>

section \<open>One step\<close>

text \<open>States the agent writes.\<close>

definition agent_state :: "task_state \<Rightarrow> bool" where
  "agent_state s \<longleftrightarrow> s \<in> {task_state.Accepted, task_state.Preparing, task_state.Ready, task_state.Starting,
     task_state.Running, task_state.Complete, task_state.Shutdown, task_state.Failed, task_state.Rejected}"

lemma harvest_state [simp]: "status_state (harvest ops c s) = status_state s"
  by (simp add: harvest_def Let_def split: option.split)

lemma transition_state:
  "status_state s \<le> to \<Longrightarrow> \<exists>s'. transition ops c s to msg = Advanced s' \<and> status_state s' = to"
  by (auto simp: transition_def advance_def Let_def split: option.split)

lemma fatal_state:
  assumes "status_state s < task_state.Complete"
  shows "(\<exists>s'. fatal ops c s e = Advanced s' \<and> status_state s < status_state s' \<and> agent_state (status_state s') \<and>
      \<not> is_temporary e) \<or> (\<exists>s'. fatal ops c s e = Retry s' \<and> status_state s' = status_state s \<and> is_temporary e)"
proof (cases "is_temporary e")
  case True
  then show ?thesis by (simp add: fatal_def Let_def)
next
  case False
  define s2 where "s2 = (let s1 = s\<lparr>status_err := Some (error_display e)\<rparr>
    in if status_state s1 \<ge> task_state.Starting then harvest ops c s1 else s1)"
  define final where "final = (if status_state s < task_state.Starting then task_state.Rejected else task_state.Failed)"
  have s2: "status_state s2 = status_state s"
    by (simp add: s2_def Let_def)
  have "task_state.Complete < task_state.Rejected" "task_state.Complete < task_state.Failed"
    by (simp_all add: order_defs)
  then have less: "status_state s < final"
    using assms by (auto simp: final_def)
  obtain s' where "transition ops c s2 final (task_state_display final) = Advanced s'" "status_state s' = final"
    using transition_state [of s2 final ops c "task_state_display final"] less s2 by (auto simp: less_imp_le)
  moreover have "fatal ops c s e = transition ops c s2 final (task_state_display final)"
    using False by (simp add: fatal_def Let_def s2_def final_def)
  ultimately show ?thesis
    using less False by (auto simp: final_def agent_state_def)
qed

text \<open>A controller without transient failures; a task that has got where it should be.\<close>

definition steady :: "'c task_controller \<Rightarrow> bool" where
  "steady ops \<longleftrightarrow> (\<forall>c e. is_temporary e \<longrightarrow> fst (ctl_prepare ops c) \<noteq> Inl e \<and> fst (ctl_start ops c) \<noteq> Inl e \<and>
     fst (ctl_wait ops c) \<noteq> Inl e \<and> fst (ctl_shutdown ops c) \<noteq> Inl e)"

definition arrived :: "task \<Rightarrow> task_status \<Rightarrow> bool" where
  "arrived t status \<longleftrightarrow> task_state.Complete \<le> status_state status \<or>
     task_desired_state t < desired_state.Shutdown \<and> as_task_state (task_desired_state t) \<le> status_state status"

text \<open>What a step may produce.\<close>

definition step_ok :: "'c task_controller \<Rightarrow> task \<Rightarrow> task_status \<Rightarrow> step \<Rightarrow> bool" where
  "step_ok ops t status st \<longleftrightarrow> (case st of
       Noop \<Rightarrow> arrived t status
     | Advanced s \<Rightarrow> status_state status < task_state.Complete \<and> status_state status < status_state s \<and>
         agent_state (status_state s)
     | Retry s \<Rightarrow> status_state status < task_state.Complete \<and> status_state s = status_state status \<and>
         \<not> steady ops)"

lemma transition_ok:
  assumes "status_state status < task_state.Complete" "status_state s = status_state status"
    and "status_state status < to" "agent_state to"
  shows "step_ok ops t status (transition ops c s to msg)"
proof -
  obtain s' where "transition ops c s to msg = Advanced s'" "status_state s' = to"
    using transition_state [of s to ops c msg] assms by (auto simp: less_imp_le)
  then show ?thesis
    using assms by (simp add: step_ok_def)
qed

lemma state_steps:
  "task_state.Preparing < task_state.Ready" "task_state.Starting < task_state.Running"
  "task_state.Running < task_state.Complete" "task_state.Running < task_state.Failed"
  "task_state.Preparing < task_state.Complete" "task_state.Starting < task_state.Complete"
  "task_state.Accepted < task_state.Preparing" "task_state.Ready < task_state.Starting"
  "task_state.Accepted < task_state.Complete" "task_state.Ready < task_state.Complete"
  "x \<in> {task_state.New, task_state.Pending, task_state.Assigned} \<Longrightarrow> x < task_state.Accepted"
  "x \<in> {task_state.New, task_state.Pending, task_state.Assigned} \<Longrightarrow> x < task_state.Complete"
  "x < task_state.Complete \<Longrightarrow> x < task_state.Shutdown"
  by (auto simp: order_defs)

lemma attempt_ok:
  assumes "attempt ops s res proceed = (st, c2)" "\<And>v c'. step_ok ops t status (proceed v c')"
    and "status_state status < task_state.Complete" "status_state s = status_state status"
    and "\<And>e. fst res = Inl e \<Longrightarrow> is_temporary e \<Longrightarrow> \<not> steady ops"
  shows "step_ok ops t status st"
proof (cases "fst res")
  case (Inl e)
  then have "st = fatal ops (snd res) s e"
    using assms(1) by (auto simp: attempt_def case_prod_beta)
  then show ?thesis
    using fatal_state [of s ops "snd res" e] assms(3,4) assms(5) [OF Inl] by (auto simp: step_ok_def)
qed (use assms(1,2) in \<open>auto simp: attempt_def case_prod_beta\<close>)

lemma below_complete:
  assumes "x < as_task_state d" "d < desired_state.Shutdown"
    and "x \<notin> {task_state.New, task_state.Pending, task_state.Assigned, task_state.Accepted,
      task_state.Preparing, task_state.Ready, task_state.Starting, task_state.Running}"
  shows False
  using assms by (cases x; cases d) (simp_all add: order_defs as_task_state_def)

lemma do_step_ok:
  assumes "do_step ops now t status c = (st, c')"
  shows "step_ok ops t status st"
proof -
  define s where "s = status\<lparr>status_timestamp := now, applied_by := None, applied_at := None\<rparr>"
  have s: "status_state s = status_state status"
    by (simp add: s_def)
  have noop: "arrived t status \<Longrightarrow> step_ok ops t status Noop"
    by (simp add: step_ok_def)
  have tr: "step_ok ops t status (transition ops c s to msg)"
    "step_ok ops t status (transition ops c (s\<lparr>status_err := e\<rparr>) to msg)"
    if "status_state status < task_state.Complete" "status_state status < to" "agent_state to" for c to msg e
    using s that by (simp_all add: transition_ok)
  have agent: "agent_state x" if "x \<in> {task_state.Accepted, task_state.Preparing, task_state.Ready, task_state.Starting,
     task_state.Running, task_state.Complete, task_state.Shutdown, task_state.Failed, task_state.Rejected}" for x
    using that by (simp add: agent_state_def)
  have book: "step_ok ops t status st" if "transition ops c s to msg = st" "status_state status < to"
      "agent_state to" "status_state status < task_state.Complete" for to msg
    using tr(1) that by blast
  have calls: "fst (ctl_prepare ops c) = Inl e \<Longrightarrow> is_temporary e \<Longrightarrow> \<not> steady ops"
    "fst (ctl_start ops c) = Inl e \<Longrightarrow> is_temporary e \<Longrightarrow> \<not> steady ops"
    "fst (ctl_wait ops c) = Inl e \<Longrightarrow> is_temporary e \<Longrightarrow> \<not> steady ops"
    "fst (ctl_shutdown ops c) = Inl e \<Longrightarrow> is_temporary e \<Longrightarrow> \<not> steady ops" for e
    by (auto simp: steady_def)
  from assms show ?thesis
    unfolding do_step_def Let_def s_def [symmetric]
    apply (simp only: split: if_split_asm)
             apply (simp_all add: noop arrived_def not_le less_imp_le)
    subgoal by (erule attempt_ok) (simp_all add: tr s agent state_steps calls)
    subgoal by (erule attempt_ok) (simp_all add: tr s agent state_steps calls)
    subgoal by (erule attempt_ok) (simp_all add: tr s agent state_steps calls)
    subgoal by (erule attempt_ok) (simp_all add: tr s agent state_steps calls)
    subgoal by (elim conjE book) (auto simp: agent state_steps)
    subgoal by (elim conjE book) (auto simp: agent state_steps)
    subgoal by (elim conjE book) (auto simp: agent state_steps)
    subgoal using below_complete [of "status_state status" "task_desired_state t"] by (auto simp: neq_iff)
    done
qed

section \<open>The loop\<close>

text \<open>One report may follow another: the state does not regress, and the first is not final.\<close>

definition may_follow :: "task_status \<Rightarrow> task_status \<Rightarrow> bool" where
  "may_follow a b \<longleftrightarrow> status_state a \<le> status_state b \<and> status_state a < task_state.Complete"

lemma sorted_snoc:
  assumes "sorted_wrt R (x # xs)" "R (last (x # xs)) y" "transp R"
  shows "sorted_wrt R (x # xs @ [y])"
proof -
  define ys where "ys = x # xs"
  have "R z y" if "z \<in> set ys" for z
  proof (cases "z = last ys")
    case False
    have "ys = butlast ys @ [last ys]"
      by (simp add: ys_def)
    with that False have "z \<in> set (butlast ys)"
      by (metis Un_iff empty_iff insert_iff list.set(1,2) set_append)
    then have "R z (last ys)"
      using assms(1) \<open>ys = butlast ys @ [last ys]\<close> unfolding ys_def [symmetric]
      by (metis sorted_wrt_append list.set_intros(1))
    then show ?thesis
      using assms(2,3) unfolding ys_def by (metis transpD)
  qed (use assms(2) in \<open>simp add: ys_def\<close>)
  then have "sorted_wrt R (ys @ [y])"
    using assms(1) by (simp add: sorted_wrt_append ys_def [symmetric])
  then show ?thesis
    by (simp add: ys_def)
qed

definition run_ok :: "'c run_state \<Rightarrow> 'c run_state \<Rightarrow> bool" where
  "run_ok r0 r \<longleftrightarrow> sorted_wrt may_follow (run_status r0 # run_published r) \<and>
     run_status r = last (run_status r0 # run_published r) \<and>
     task_desired_state (run_task r0) \<le> task_desired_state (run_task r) \<and>
     (\<forall>s \<in> set (run_published r). agent_state (status_state s) \<or> status_state s = status_state (run_status r0))"

lemma may_follow_trans: "transp may_follow"
  by (auto simp: may_follow_def intro!: transpI)

lemma publish_ok:
  assumes "run_ok r0 r" "step_ok ops t (run_status r) st" "step_status st = Some s"
  shows "run_ok r0 (publish s r)"
proof -
  have "may_follow (last (run_status r0 # run_published r)) s"
    using assms by (auto simp: step_ok_def step_status_def run_ok_def may_follow_def split: step.splits)
  then have "sorted_wrt may_follow (run_status r0 # run_published r @ [s])"
    using assms(1) may_follow_trans unfolding run_ok_def by (intro sorted_snoc) auto
  moreover have "agent_state (status_state s) \<or> status_state s = status_state (run_status r)"
    using assms(2,3) by (auto simp: step_ok_def step_status_def split: step.splits)
  moreover have "run_status r \<in> set (run_status r0 # run_published r)"
    using assms(1) unfolding run_ok_def by (metis last_in_set list.distinct(1))
  moreover have "last (run_status r0 # run_published r @ [s]) = s"
    by simp
  ultimately show ?thesis
    using assms(1) unfolding run_ok_def publish_def by (auto simp del: last.simps)
qed

lemma run_ok_phase [simp]:
  "run_ok r0 (r\<lparr>run_phase := p\<rparr>) = run_ok r0 r" "run_ok r0 (r\<lparr>run_ctlr := c\<rparr>) = run_ok r0 r"
  by (simp_all add: run_ok_def)

lemma command_ok: "run_ok r0 r \<Longrightarrow> run_ok r0 (after_command ops cmd r)"
  by (auto simp: after_command_def apply_command_def run_ok_def split: option.split command.split)

lemma after_step_ok:
  assumes "run_ok r0 r" "step_ok ops t (run_status r) st"
  shows "run_ok r0 (after_step st r)"
  using assms publish_ok [OF assms] by (auto simp: after_step_def step_status_def split: step.splits)

lemma run_step_ok:
  assumes "run_step ops r r'" "run_ok r0 r"
  shows "run_ok r0 r'"
  using assms
proof cases
  case (stepped now st c)
  then show ?thesis
    using do_step_ok [OF stepped(3)] after_step_ok [of r0 "r\<lparr>run_ctlr := c\<rparr>" ops "run_task r" st] assms(2) by simp
qed (use assms(2) in \<open>simp_all add: command_ok\<close>)

text \<open>
  C34. Whatever commands arrive and whatever the controller does, the agent's reports on a task never
  regress, none follows one of a finished task (\<open>COMPLETE\<close> or beyond), the desired state it works
  towards never decreases, and it writes only states that are its own to write: never \<open>ORPHANED\<close> or
  \<open>REMOVE\<close>, nor a state from before the task reached the node, other than the one it started from.
\<close>

theorem agent_reports_monotone:
  assumes "(run_step ops)\<^sup>*\<^sup>* r r'" "run_published r = []"
  shows "sorted_wrt may_follow (run_status r # run_published r') \<and>
    task_desired_state (run_task r) \<le> task_desired_state (run_task r') \<and>
    (\<forall>s \<in> set (run_published r'). agent_state (status_state s) \<or> status_state s = status_state (run_status r))"
proof -
  have "run_ok r r"
    using assms(2) by (simp add: run_ok_def)
  with assms(1) have "run_ok r r'"
    by (induction rule: rtranclp_induct) (simp_all add: run_step_ok)
  then show ?thesis
    by (simp add: run_ok_def)
qed

section \<open>Coming to rest\<close>

text \<open>The loop without commands.\<close>

inductive quiet_step :: "'c task_controller \<Rightarrow> 'c run_state \<Rightarrow> 'c run_state \<Rightarrow> bool" for ops where
  quiet_stepped: "run_phase r = Stepping \<Longrightarrow>
    do_step ops now (run_task r) (run_status r) (run_ctlr r) = (st, c) \<Longrightarrow>
    quiet_step ops r (after_step st (r\<lparr>run_ctlr := c\<rparr>))"
| quiet_slept: "run_phase r = Backoff \<Longrightarrow> quiet_step ops r (r\<lparr>run_phase := Stepping\<rparr>)"

lemma quiet_run: "quiet_step ops r r' \<Longrightarrow> run_step ops r r'"
  by (induction rule: quiet_step.induct) (auto intro: run_step.intros)

definition to_go :: "'c run_state \<Rightarrow> nat" where
  "to_go r = (case run_phase r of
       Stepping \<Rightarrow> 2000 - 2 * task_state_value (status_state (run_status r)) + 1
     | Backoff \<Rightarrow> 2000 - 2 * task_state_value (status_state (run_status r)) + 2
     | _ \<Rightarrow> 0)"

lemma state_value_bound: "task_state_value s < 1000"
  by (cases s) simp_all

lemma quiet_progress:
  assumes "quiet_step ops r r'" "steady ops"
  shows "to_go r' < to_go r"
  using assms
proof cases
  case (quiet_stepped now st c)
  show ?thesis
  proof (cases st)
    case (Advanced s)
    then have "task_state_value (status_state (run_status r)) < task_state_value (status_state s)"
      using do_step_ok [OF quiet_stepped(3)] by (simp add: step_ok_def less_task_state_def)
    then show ?thesis
      using quiet_stepped(1,2) Advanced state_value_bound [of "status_state s"]
      by (simp add: to_go_def after_step_def publish_def)
  next
    case (Retry s)
    then show ?thesis
      using do_step_ok [OF quiet_stepped(3)] assms(2) by (simp add: step_ok_def)
  qed (simp add: quiet_stepped to_go_def after_step_def)
qed (simp add: to_go_def)

lemma quiet_task: "quiet_step ops r r' \<Longrightarrow> run_task r' = run_task r"
  by (induction rule: quiet_step.induct) (simp add: after_step_def publish_def split: step.split)+

lemma quiet_arrives:
  assumes "steady ops" "run_phase r \<in> {Stepping, Backoff}"
  shows "\<exists>r'. (quiet_step ops)\<^sup>*\<^sup>* r r' \<and> run_phase r' = Parked \<and> arrived (run_task r) (run_status r')"
  using assms(2)
proof (induction "to_go r" arbitrary: r rule: less_induct)
  case less
  obtain r1 where r1: "quiet_step ops r r1" "run_phase r1 \<in> {Stepping, Backoff} \<or>
      run_phase r1 = Parked \<and> arrived (run_task r) (run_status r1)"
  proof (cases "run_phase r = Stepping")
    case True
    obtain st c where step: "do_step ops 0 (run_task r) (run_status r) (run_ctlr r) = (st, c)"
      by fastforce
    show thesis
      by (rule that [OF quiet_stepped [OF True step]])
         (use True do_step_ok [OF step] in \<open>auto simp: after_step_def publish_def step_ok_def split: step.splits\<close>)
  next
    case False
    with less.prems show thesis
      by (intro that [OF quiet_slept]) auto
  qed
  show ?case
  proof (cases "run_phase r1 \<in> {Stepping, Backoff}")
    case True
    then obtain r' where "(quiet_step ops)\<^sup>*\<^sup>* r1 r'" "run_phase r' = Parked" "arrived (run_task r1) (run_status r')"
      using less.hyps [OF quiet_progress [OF r1(1) assms(1)]] by blast
    with r1(1) show ?thesis
      by (metis converse_rtranclp_into_rtranclp quiet_task)
  next
    case False
    with r1 show ?thesis
      by blast
  qed
qed

text \<open>
  C35. The agent comes to rest. With a controller that has no transient failures and no commands from
  the worker, the loop cannot step for ever, and it parks with the task finished or, short of a
  shutdown, at least in the state the cluster wants.
\<close>

theorem agent_settles:
  assumes "steady ops" "run_phase r = Stepping"
  shows "(\<nexists>f. f 0 = r \<and> (\<forall>i. quiet_step ops (f i) (f (Suc i)))) \<and>
    (\<exists>r'. (quiet_step ops)\<^sup>*\<^sup>* r r' \<and> run_phase r' = Parked \<and> arrived (run_task r) (run_status r'))"
proof
  show "\<nexists>f. f 0 = r \<and> (\<forall>i. quiet_step ops (f i) (f (Suc i)))"
  proof
    assume "\<exists>f. f 0 = r \<and> (\<forall>i. quiet_step ops (f i) (f (Suc i)))"
    then obtain f where "\<And>i. quiet_step ops (f i) (f (Suc i))"
      by blast
    then have "(f (Suc i), f i) \<in> measure to_go" for i
      using quiet_progress [OF _ assms(1)] by simp
    then show False
      using wf_measure [of to_go] unfolding wf_iff_no_infinite_down_chain by blast
  qed
qed (use quiet_arrives assms in blast)

text \<open>A controller whose operations all succeed and whose container exits with code 0.\<close>

definition w_ops :: "nat task_controller" where
  "w_ops = \<lparr>ctl_prepare = (\<lambda>c. (Inr (), c)), ctl_start = (\<lambda>c. (Inr (), c)),
     ctl_wait = (\<lambda>c. (Inr \<lparr>exit_status_code = Some 0, exit_signal = None, unharvestable = None\<rparr>, c)),
     ctl_update = (\<lambda>_ c. c), ctl_shutdown = (\<lambda>c. (Inr (), c)), ctl_remove = (\<lambda>c. (Inr (), c)),
     ctl_container_status = (\<lambda>_. None), ctl_port_status = (\<lambda>_. []), ctl_status_note = (\<lambda>_. None)\<rparr>"

definition w_run :: "nat run_state" where
  "w_run = \<lparr>run_phase = Stepping,
     run_task = sample_task ''t1'' ''svc'' 1 task_state.Assigned desired_state.Running,
     run_status = new_task_status 0 task_state.Assigned ''assigned'', run_ctlr = 0, run_published = []\<rparr>"

theorem agent_settles_witness:
  "steady w_ops \<and> run_phase w_run = Stepping \<and>
   (\<exists>r'. (quiet_step w_ops)\<^sup>*\<^sup>* w_run r' \<and> run_phase r' = Parked \<and> arrived (run_task w_run) (run_status r'))"
proof -
  have "steady w_ops" "run_phase w_run = Stepping"
    by (simp_all add: steady_def w_ops_def w_run_def)
  with agent_settles [of w_ops w_run] show ?thesis
    by blast
qed

theorem agent_reports_monotone_witness:
  "\<exists>r'. (run_step w_ops)\<^sup>*\<^sup>* w_run r' \<and> length (run_published r') = 1 \<and>
     sorted_wrt may_follow (run_status w_run # run_published r')"
proof -
  obtain st c where step: "do_step w_ops 0 (run_task w_run) (run_status w_run) (run_ctlr w_run) = (st, c)"
    by (metis surj_pair)
  have "length (run_published (after_step (fst (do_step w_ops 0 (run_task w_run) (run_status w_run) (run_ctlr w_run))) w_run)) = 1"
    by code_simp
  moreover have "run_published (after_step st (w_run\<lparr>run_ctlr := c\<rparr>)) = run_published (after_step st w_run)"
    by (simp add: after_step_def publish_def split: step.split)
  ultimately have "length (run_published (after_step st (w_run\<lparr>run_ctlr := c\<rparr>))) = 1"
    by (simp add: step)
  moreover have "run_phase w_run = Stepping"
    by (simp add: w_run_def)
  then have "(run_step w_ops)\<^sup>*\<^sup>* w_run (after_step st (w_run\<lparr>run_ctlr := c\<rparr>))"
    using stepped [OF _ step] by blast
  ultimately show ?thesis
    using agent_reports_monotone [of w_ops w_run] by (auto simp: w_run_def)
qed

end
