(* ===== verification/Disp_Status.thy ===== *)
theory Disp_Status
  imports Orch_Propose
begin

text \<open>
  \<open>satl-dispatcher/src/status.rs\<close>: the coalescing queue of status reports that both ends of the
  status path use, and the writer that brings a report into the cluster store.
\<close>

section \<open>The queue\<close>

definition accepts :: "task_state \<Rightarrow> task_state \<Rightarrow> bool" where
  "accepts current proposed \<longleftrightarrow> proposed \<ge> current"

type_synonym status_queue = "(id, task_status) btree_map"

definition status_push :: "id \<Rightarrow> task_status \<Rightarrow> status_queue \<Rightarrow> bool \<times> status_queue" where
  "status_push i status q = (case map_of q i of
       Some pending \<Rightarrow> if \<not> accepts (status_state pending) (status_state status) then (False, q)
                       else (True, bt_insert i status q)
     | None \<Rightarrow> (True, bt_insert i status q))"

fun remove_entries :: "id list \<Rightarrow> status_queue \<Rightarrow> (id \<times> task_status) list \<times> status_queue" where
  "remove_entries [] q = ([], q)"
| "remove_entries (i # is) q = (case map_of q i of
       None \<Rightarrow> remove_entries is q
     | Some s \<Rightarrow> (let (taken, q') = remove_entries is (bt_remove i q) in ((i, s) # taken, q')))"

definition status_take :: "nat \<Rightarrow> status_queue \<Rightarrow> (id \<times> task_status) list \<times> status_queue" where
  "status_take n q = (if n = 0 then ([], q) else remove_entries (take n (keys_of q)) q)"

definition status_drain :: "status_queue \<Rightarrow> (id \<times> task_status) list \<times> status_queue" where
  "status_drain q = (q, [])"

definition requeue_one :: "id \<times> task_status \<Rightarrow> status_queue \<Rightarrow> status_queue" where
  "requeue_one e q = (case e of (i, status) \<Rightarrow> (case map_of q i of
       Some newer \<Rightarrow> if status_state newer \<ge> status_state status then q else bt_insert i status q
     | None \<Rightarrow> bt_insert i status q))"

definition status_requeue :: "(id \<times> task_status) list \<Rightarrow> status_queue \<Rightarrow> status_queue" where
  "status_requeue batch q = fold requeue_one batch q"

section \<open>The writer\<close>

definition MAX_WRITE_ATTEMPTS :: nat where
  "MAX_WRITE_ATTEMPTS = 5"

datatype status_outcome =
    Applied
  | Unknown
  | Unchanged
  | Regression (regress_from: task_state) (regress_to: task_state)
  | Failed

text \<open>What an attempt decides from the view: an outcome, or the task to propose.\<close>

definition status_write ::
  "id \<Rightarrow> system_time \<Rightarrow> id \<Rightarrow> task_status \<Rightarrow> ('lid, 'mem) store_inner \<Rightarrow> (status_outcome, task) result" where
  "status_write manager now tid status view = (case view_task view tid of
       None \<Rightarrow> Inl Unknown
     | Some t \<Rightarrow>
         if \<not> accepts (status_state (task_status t)) (status_state status) then
           Inl (Regression (status_state (task_status t)) (status_state status))
         else if status_state (task_status t) = status_state status \<and>
             status_message (task_status t) = status_message status \<and>
             status_err (task_status t) = status_err status \<and>
             status_container (task_status t) = status_container status \<and>
             port_status (task_status t) = port_status status then Inl Unchanged
         else Inr (t\<lparr>task_status := status\<lparr>applied_by := Some manager, applied_at := Some now\<rparr>,
                     task_meta := (task_meta t)\<lparr>updated_at := now\<rparr>\<rparr>))"

definition status_attempt ::
  "id \<Rightarrow> system_time \<Rightarrow> id \<Rightarrow> task_status \<Rightarrow> ('lid, 'mem) store_inner \<Rightarrow>
   (store_action list \<Rightarrow> ('e client_write_error, proposal_response) result) \<Rightarrow>
   ('e propose_error, status_outcome) result" where
  "status_attempt manager now tid status view client_write =
     (case status_write manager now tid status view of
        Inl outcome \<Rightarrow> Inr outcome
      | Inr t \<Rightarrow> (case propose client_write [Update (store_object.Task t)] of
          Inr _ \<Rightarrow> Inr Applied
        | Inl e \<Rightarrow> Inl e))"

text \<open>The attempts still to make; attempt \<open>n\<close> reads \<open>view n\<close> and proposes through \<open>client_write n\<close>.\<close>

fun status_attempts ::
  "id \<Rightarrow> (nat \<Rightarrow> system_time) \<Rightarrow> id \<Rightarrow> task_status \<Rightarrow> (nat \<Rightarrow> ('lid, 'mem) store_inner) \<Rightarrow>
   (nat \<Rightarrow> store_action list \<Rightarrow> ('e client_write_error, proposal_response) result) \<Rightarrow> nat list \<Rightarrow> status_outcome" where
  "status_attempts manager now tid status view client_write [] = Failed"
| "status_attempts manager now tid status view client_write (n # ns) =
     (case status_attempt manager (now n) tid status (view n) (client_write n) of
        Inr outcome \<Rightarrow> outcome
      | Inl (propose_error.Rejected (SequenceConflict _ _ _ _)) \<Rightarrow>
          status_attempts manager now tid status view client_write ns
      | Inl (propose_error.Rejected (NotFound _ _)) \<Rightarrow> Unknown
      | Inl _ \<Rightarrow> Failed)"

definition status_apply ::
  "id \<Rightarrow> (nat \<Rightarrow> system_time) \<Rightarrow> id \<Rightarrow> task_status \<Rightarrow> (nat \<Rightarrow> ('lid, 'mem) store_inner) \<Rightarrow>
   (nat \<Rightarrow> store_action list \<Rightarrow> ('e client_write_error, proposal_response) result) \<Rightarrow> status_outcome" where
  "status_apply manager now tid status view client_write =
     status_attempts manager now tid status view client_write [1..<Suc MAX_WRITE_ATTEMPTS]"

end
