(* ===== verification/Disp_Status_Proofs.thy ===== *)
theory Disp_Status_Proofs
  imports Disp_Status Cluster_Store_Witnesses Sample_Objects
begin

text \<open>
  The status path: a batch that could not be sent leaves no trace in the queue, and a status write
  that the store accepts never moves a task's observed state backwards.
\<close>

section \<open>The queue as a running maximum\<close>

text \<open>
  Of two statuses of a task the later one in the order of observed states wins, the second one on a
  tie. The queue holds, per task, what is left of all the statuses pushed.
\<close>

definition supersede :: "task_status option \<Rightarrow> task_status option \<Rightarrow> task_status option" where
  "supersede a b = (case (a, b) of
       (Some p, Some s) \<Rightarrow> if accepts (status_state p) (status_state s) then Some s else Some p
     | (Some p, None) \<Rightarrow> Some p
     | (None, _) \<Rightarrow> b)"

lemma supersede_none [simp]: "supersede None b = b" "supersede a None = a"
  by (simp_all add: supersede_def split: option.splits)

lemma supersede_assoc: "supersede (supersede a b) c = supersede a (supersede b c)"
  by (simp add: supersede_def accepts_def split: option.split)

definition push_all :: "(id \<times> task_status) list \<Rightarrow> status_queue \<Rightarrow> status_queue" where
  "push_all xs q = fold (\<lambda>(i, s) q. snd (status_push i s q)) xs q"

lemma push_invar: "bt_invar q \<Longrightarrow> bt_invar (snd (status_push i s q))"
  by (simp add: status_push_def bt_insert_invar split: option.split)

lemma push_lookup:
  assumes "bt_invar q"
  shows "map_of (snd (status_push i s q)) = (map_of q)(i := supersede (map_of q i) (Some s))"
  using assms
  by (auto simp: status_push_def supersede_def bt_lookup_insert fun_eq_iff split: option.split)

lemma requeue_one_lookup:
  assumes "bt_invar q"
  shows "bt_invar (requeue_one (i, s) q) \<and>
    map_of (requeue_one (i, s) q) = (map_of q)(i := supersede (Some s) (map_of q i))"
  using assms
  by (auto simp: requeue_one_def supersede_def accepts_def bt_lookup_insert bt_insert_invar fun_eq_iff
      split: option.split)

lemma push_all_invar: "bt_invar q \<Longrightarrow> bt_invar (push_all xs q)"
  unfolding push_all_def by (induction xs arbitrary: q) (auto simp: push_invar)

text \<open>Pushing onto what is pending is pushing onto nothing, and then letting the result supersede it.\<close>

definition pushed :: "id \<Rightarrow> (id \<times> task_status) list \<Rightarrow> task_status option" where
  "pushed i xs = map_of (push_all xs []) i"

lemma push_all_Cons: "push_all ((i, s) # xs) q = push_all xs (snd (status_push i s q))"
  by (simp add: push_all_def)

lemma push_all_snoc: "push_all (xs @ [(i, s)]) q = snd (status_push i s (push_all xs q))"
  by (simp add: push_all_def)

lemma push_all_lookup:
  "bt_invar q \<Longrightarrow> map_of (push_all xs q) i = supersede (map_of q i) (pushed i xs)"
proof (induction xs rule: rev_induct)
  case Nil
  then show ?case
    by (simp add: pushed_def push_all_def)
next
  case (snoc e xs)
  obtain j s where e: "e = (j, s)"
    by (cases e)
  have nil: "bt_invar ([] :: status_queue)"
    by (simp add: bt_invar_def)
  have "pushed i (xs @ [e]) = (if i = j then supersede (pushed i xs) (Some s) else pushed i xs)"
    using push_lookup [OF push_all_invar [OF nil], of j s xs]
    by (simp add: pushed_def e push_all_snoc)
  moreover have "map_of (push_all xs q) i = supersede (map_of q i) (pushed i xs)"
    using snoc by blast
  ultimately show ?case
    using push_lookup [OF push_all_invar [OF snoc.prems], of j s xs]
    by (cases "i = j") (simp_all add: e push_all_snoc supersede_assoc)
qed

lemma requeue_lookup:
  assumes "bt_invar q" "distinct (map fst batch)"
  shows "bt_invar (status_requeue batch q) \<and>
    map_of (status_requeue batch q) i = supersede (map_of batch i) (map_of q i)"
  using assms
proof (induction batch arbitrary: q)
  case Nil
  then show ?case
    by (simp add: status_requeue_def)
next
  case (Cons e batch)
  obtain j s where e: "e = (j, s)"
    by (cases e)
  have one: "bt_invar (requeue_one (j, s) q)"
    "map_of (requeue_one (j, s) q) = (map_of q)(j := supersede (Some s) (map_of q j))"
    using requeue_one_lookup [OF Cons.prems(1)] by auto
  have "map_of batch j = None"
    using Cons.prems(2) by (simp add: e map_of_eq_None_iff)
  with Cons.IH [OF one(1)] Cons.prems(2) one(2) show ?case
    by (auto simp: e status_requeue_def)
qed

section \<open>Taking a batch\<close>

lemma remove_entries_prefix:
  "bt_invar q \<Longrightarrow> remove_entries (take n (keys_of q)) q = (take n q, drop n q)"
proof (induction n arbitrary: q)
  case (Suc n)
  show ?case
  proof (cases q)
    case (Cons e m)
    with Suc.prems have "bt_invar m"
      by (simp add: bt_invar_def)
    with Suc.IH show ?thesis
      by (cases e) (simp add: Cons)
  qed simp
qed simp

lemma status_take_split: "bt_invar q \<Longrightarrow> status_take n q = (take n q, drop n q)"
  by (simp add: status_take_def remove_entries_prefix)

lemma bt_keys_of_lookup: "bt_invar m \<Longrightarrow> m = map (\<lambda>i. (i, the (map_of m i))) (keys_of m)"
proof (rule nth_equalityI)
  fix n
  assume "bt_invar m" "n < length m"
  then have "map_of m (fst (m ! n)) = Some (snd (m ! n))"
    using bt.invar_distinct by (metis map_of_eq_Some_iff nth_mem prod.collapse)
  with \<open>n < length m\<close> show "m ! n = map (\<lambda>i. (i, the (map_of m i))) (keys_of m) ! n"
    by simp
qed simp

lemma bt_lookup_unique:
  assumes "bt_invar m" "bt_invar m'" "map_of m = map_of m'"
  shows "m = m'"
proof -
  have "set (keys_of m) = set (keys_of m')"
    using assms(3) dom_map_of_conv_image_fst [of m] dom_map_of_conv_image_fst [of m'] by simp
  then have "keys_of m = keys_of m'"
    using assms(1,2) strict_sorted_equal unfolding bt_invar_def by blast
  with bt_keys_of_lookup [OF assms(1)] bt_keys_of_lookup [OF assms(2)] assms(3) show ?thesis
    by simp
qed

lemma requeue_rest:
  assumes "bt_invar (batch @ rest)"
  shows "status_requeue batch (push_all xs rest) = push_all xs (batch @ rest)"
proof (rule bt_lookup_unique)
  have inv: "bt_invar rest" "distinct (keys_of batch)" "set (keys_of batch) \<inter> set (keys_of rest) = {}"
    using assms bt.invar_distinct [OF assms] by (auto simp: bt_invar_def sorted_wrt_append)
  note back_in = requeue_lookup [OF push_all_invar [OF inv(1)] inv(2), of xs]
  show "bt_invar (status_requeue batch (push_all xs rest))"
    using back_in by blast
  show "bt_invar (push_all xs (batch @ rest))"
    using assms by (rule push_all_invar)
  show "map_of (status_requeue batch (push_all xs rest)) = map_of (push_all xs (batch @ rest))"
  proof
    fix i
    have "map_of (batch @ rest) i = supersede (map_of batch i) (map_of rest i)"
    proof (cases "i \<in> set (keys_of batch)")
      case True
      with inv(3) have "map_of rest i = None"
        by (auto simp: map_of_eq_None_iff)
      then show ?thesis
        by (simp add: map_add_def split: option.split)
    next
      case False
      then have "map_of batch i = None"
        by (simp add: map_of_eq_None_iff)
      then show ?thesis
        by (simp add: map_add_def split: option.split)
    qed
    then show "map_of (status_requeue batch (push_all xs rest)) i = map_of (push_all xs (batch @ rest)) i"
      using back_in push_all_lookup [OF inv(1), of xs i] push_all_lookup [OF assms, of xs i]
      by (simp add: supersede_assoc)
  qed
qed

text \<open>
  C33. A send that fails leaves no trace in the status queue. Whatever a queue holds, whichever
  number of updates the sender takes out of it (or all of them, with \<open>drain\<close>), and whatever
  is reported while the batch is in flight, putting the batch back gives exactly the queue in
  which the reports were pushed and nothing had been taken. In particular no older report
  replaces a newer one, and no task's report is lost.
\<close>

theorem failed_send_leaves_no_trace:
  assumes "bt_invar q"
  shows "(case status_take n q of (batch, rest) \<Rightarrow>
      length batch \<le> n \<and> status_requeue batch (push_all xs rest) = push_all xs q) \<and>
    (case status_drain q of (batch, rest) \<Rightarrow> status_requeue batch (push_all xs rest) = push_all xs q)"
proof
  have "status_requeue (take n q) (push_all xs (drop n q)) = push_all xs q"
    using requeue_rest [of "take n q" "drop n q" xs] assms by simp
  then show "case status_take n q of (batch, rest) \<Rightarrow>
      length batch \<le> n \<and> status_requeue batch (push_all xs rest) = push_all xs q"
    by (simp add: status_take_split [OF assms])
  show "case status_drain q of (batch, rest) \<Rightarrow> status_requeue batch (push_all xs rest) = push_all xs q"
    using requeue_rest [of q "[]" xs] assms by (simp add: status_drain_def)
qed

theorem failed_send_leaves_no_trace_witness:
  "(let q = [(''a'', new_task_status 0 task_state.Running ''up''), (''b'', new_task_status 0 task_state.Ready '''')];
        xs = [(''a'', new_task_status 1 task_state.Ready ''late''), (''c'', new_task_status 1 task_state.New '''')]
    in snd (status_take 1 q) = tl q \<and>
       status_requeue (fst (status_take 1 q)) (push_all xs (snd (status_take 1 q))) = push_all xs q)"
proof -
  let ?q = "[(''a'', new_task_status 0 task_state.Running ''up''), (''b'', new_task_status 0 task_state.Ready '''')]"
  let ?xs = "[(''a'', new_task_status 1 task_state.Ready ''late''), (''c'', new_task_status 1 task_state.New '''')]"
  have inv: "bt_invar ?q"
    unfolding bt_invar_def by code_simp
  with failed_send_leaves_no_trace [OF inv, of 1 ?xs] show ?thesis
    by (simp add: Let_def split_beta status_take_split)
qed

section \<open>The writer\<close>

definition reported :: "id \<Rightarrow> system_time \<Rightarrow> task_status \<Rightarrow> task \<Rightarrow> task" where
  "reported manager now status t = t\<lparr>task_status := status\<lparr>applied_by := Some manager, applied_at := Some now\<rparr>,
     task_meta := (task_meta t)\<lparr>updated_at := now\<rparr>\<rparr>"

lemma status_write_iff:
  "status_write manager now tid status view = Inr t' \<longleftrightarrow>
   (\<exists>t. view_task view tid = Some t \<and> t' = reported manager now status t \<and>
     accepts (status_state (task_status t)) (status_state status) \<and>
     \<not> (status_state (task_status t) = status_state status \<and>
        status_message (task_status t) = status_message status \<and>
        status_err (task_status t) = status_err status \<and>
        status_container (task_status t) = status_container status \<and>
        port_status (task_status t) = port_status status))"
  by (auto simp: status_write_def reported_def split: option.split)

text \<open>
  C32. An accepted status write never moves a task's observed state backwards, and changes nothing
  else. The writer decides on a view \<open>s\<close> of the store; any number of entries and snapshot
  installations may come in between before its proposal is applied at \<open>s1\<close>. If it is applied, then the
  task is still exactly the one the writer read, its observed state is at most the reported
  one, and afterwards it differs from it only in the status, which is the reported one with the
  manager's stamps, and in its version and modification time.
\<close>

theorem status_never_regresses:
  assumes reach: "store_reach R s" and decided: "status_write manager now tid status s = Inr t'"
    and run: "store_run R s s1"
    and tx: "entry_payload e = Normal \<lparr>proposal_actions = [Update (store_object.Task t')]\<rparr>"
      "apply_entry R s1 e len = (proposal_response.Applied n, evs, s2)"
  shows "\<exists>t. view_task s tid = Some t \<and> view_task s1 tid = Some t \<and>
    status_state (task_status t) \<le> status_state status \<and>
    view_task s2 tid = Some (t\<lparr>
      task_status := status\<lparr>applied_by := Some manager, applied_at := Some now\<rparr>,
      task_meta := (task_meta t)\<lparr>meta_version := n, updated_at := now\<rparr>\<rparr>)"
proof -
  from decided obtain t where t: "view_task s tid = Some t" "t' = reported manager now status t"
    and fwd: "status_state (task_status t) \<le> status_state status"
    by (auto simp: status_write_iff accepts_def)
  have "obj_key (store_object.Task t) = (object_kind.Task, tid)"
    using t(1) store_reach_invariant [OF reach]
    unfolding store_wf_def well_keyed_def task_stored store_map_def prod.case by blast
  then have okey: "obj_key (store_object.Task t') = (object_kind.Task, tid)"
    and ver: "object_version (store_object.Task t') = object_version (store_object.Task t)"
    by (simp_all add: t(2) reported_def obj_kind_def obj_id_def object_version_def)
  have "spec_actions n [Update (store_object.Task t')] (store_map s1) = Inr (store_map s2)"
    using apply_entry_applied [OF tx] unfolding proposal.select_convs by blast
  from single_update [OF this] obtain x where x: "store_map s1 (object_kind.Task, tid) = Some x"
      "object_version x = object_version (store_object.Task t)"
    and s2: "store_map s2 (object_kind.Task, tid) =
      Some (stamp_spec_version (Some x) n (stamp_version n (store_object.Task t')))"
    unfolding okey ver by fastforce
  have "x = store_object.Task t"
    using version_identifies_object [OF reach _ run x(1,2)] t(1) by (simp add: task_stored)
  with x(1) s2 t fwd show ?thesis
    by (simp add: task_stored reported_def stamp_spec_version_def stamp_version_def)
qed

definition w_running :: task_status where
  "w_running = new_task_status 7 task_state.Running ''started''"

definition w_task_store :: "(nat, nat list) store_inner" where
  "w_task_store = after (store_default nat_raft) (tx_entry 1 [Create (store_object.Task
     (sample_task ''t1'' ''v1'' 1 task_state.Ready desired_state.Running))])"

definition w_report :: "(nat, nat list) entry" where
  "w_report = tx_entry 2 [Update (store_object.Task (reported ''m1'' 9 w_running
     (sample_task ''t1'' ''v1'' 1 task_state.Ready desired_state.Running)))]"

theorem status_never_regresses_witness:
  "map_option (\<lambda>t. (status_state (task_status t), applied_at (task_status t), meta_version (task_meta t)))
     (view_task (after w_task_store w_report) ''t1'') = Some (task_state.Running, Some 9, 2)"
proof -
  let ?t = "sample_task ''t1'' ''v1'' 1 task_state.Ready desired_state.Running"
  have "\<exists>t. view_task w_task_store ''t1'' = Some t \<and> view_task w_task_store ''t1'' = Some t \<and>
      status_state (task_status t) \<le> status_state w_running \<and>
      view_task (after w_task_store w_report) ''t1'' = Some (t\<lparr>
        task_status := w_running\<lparr>applied_by := Some ''m1'', applied_at := Some 9\<rparr>,
        task_meta := (task_meta t)\<lparr>meta_version := 2, updated_at := 9\<rparr>\<rparr>)"
  proof (rule status_never_regresses)
    show "store_reach nat_raft w_task_store"
      unfolding w_task_store_def by (rule after_run [OF store_run.stay]) code_simp
    show "status_write ''m1'' 9 ''t1'' w_running w_task_store = Inr (reported ''m1'' 9 w_running ?t)"
      by code_simp
    show "entry_payload w_report = Normal \<lparr>proposal_actions = [Update (store_object.Task (reported ''m1'' 9 w_running ?t))]\<rparr>"
      by (simp add: w_report_def tx_entry_def)
    show "apply_entry nat_raft w_task_store w_report 0 = (proposal_response.Applied 2,
        fst (snd (apply_entry nat_raft w_task_store w_report 0)), after w_task_store w_report)"
      unfolding after_def by (rule prod_eqI) (code_simp, simp)
  qed (rule store_run.stay)
  then show ?thesis
    by (auto simp: w_running_def new_task_status_def)
qed

end
