(* ===== verification/Spec2Isabelle.thy ===== *)
theory Spec2Isabelle
  imports
    Satl_Prelude Core_State Core_Objects
    Cluster_Store Cluster_Store_Proofs Cluster_Store_Invariants Cluster_Store_Witnesses
    Core_Constraint Core_Constraint_Proofs
    Sched_NodeInfo Sched_NodeInfo_Proofs Sched_Filters Sched_Placement Sched_Placement_Proofs
    Sched_Loop Sched_Loop_Batch Sched_Loop_Proofs
    Sample_Objects
    Core_Naming Core_Naming_Proofs
    Orch_Task Orch_Task_Proofs Orch_Propose Orch_Loops
    Orch_Replicated Orch_Replicated_Proofs Orch_Dirty Orch_Global Orch_Global_Proofs
    Orch_Restart Orch_Restart_Proofs Orch_Reaper Orch_Reaper_Proofs Orch_Budget
    Orch_Jobs Orch_Jobs_Proofs
    Orch_Update Orch_Update_Plan Orch_Update_Proofs
    Agent_Task Agent_Task_Proofs Disp_Status Disp_Status_Proofs
begin

text \<open>
  SatL: a cluster-first container engine for FreeBSD.
\<close>

section \<open>Pruning and the restart budget\<close>



end
